(* ===== verification/Go_Base.thy ===== *)
theory Go_Base
  imports Main "HOL-Library.Word" "HOL-Library.Sublist" "HOL-Library.List_Lexorder"
    "HOL-Library.Char_ord"
begin

text \<open>
  What every component shares: the collections of facts the component proofs draw on, the
  fallible results of Go functions as sums, reachable states of a component with the
  locale that turns a preserved invariant into a fact of every reachable state, and the
  locale of keyed stores (a \<open>map\<close> behind a \<open>Get\<close> and a \<open>Put\<close>).

  Go strings are byte strings: \<^typ>\<open>string\<close>, a list of bytes. Go's order on strings
  is the lexicographic order of \<open>List_Lexorder\<close> over the bytes.
\<close>

named_theorems go_string \<open>evaluation of the modelled string functions\<close>
named_theorems wf_intros \<open>operations keep the well-formedness of their state\<close>

section \<open>Fallible results\<close>

text \<open>
  A Go function that returns \<open>(T, error)\<close> returns \<open>Inl e\<close> where \<open>err != nil\<close> and
  \<open>Inr x\<close> otherwise.
\<close>

type_synonym ('e, 'a) result = "'e + 'a"

fun bind_result :: "('e, 'a) result \<Rightarrow> ('a \<Rightarrow> ('e, 'b) result) \<Rightarrow> ('e, 'b) result" where
  "bind_result (Inl e) f = Inl e"
| "bind_result (Inr x) f = f x"

fun map_error :: "('e \<Rightarrow> 'f) \<Rightarrow> ('e, 'a) result \<Rightarrow> ('f, 'a) result" where
  "map_error g (Inl e) = Inl (g e)"
| "map_error g (Inr x) = Inr x"

lemma bind_result_Inr [simp]:
  "bind_result r f = Inr y \<longleftrightarrow> (\<exists>x. r = Inr x \<and> f x = Inr y)"
  by (cases r) auto

lemma map_error_Inr [simp]: "map_error g r = Inr x \<longleftrightarrow> r = Inr x"
  by (cases r) auto

section \<open>Reachable states and invariants\<close>

inductive reachable :: "('s \<Rightarrow> bool) \<Rightarrow> ('s \<Rightarrow> 's \<Rightarrow> bool) \<Rightarrow> 's \<Rightarrow> bool"
  for start :: "'s \<Rightarrow> bool" and step :: "'s \<Rightarrow> 's \<Rightarrow> bool" where
  reachable_start: "start s \<Longrightarrow> reachable start step s"
| reachable_step: "reachable start step s \<Longrightarrow> step s t \<Longrightarrow> reachable start step t"

text \<open>
  A component with the states \<open>start\<close> and the steps \<open>step\<close> is safe for \<open>inv\<close> when
  the invariant holds at the start and every step keeps it.
\<close>

locale safe_system =
  fixes start :: "'s \<Rightarrow> bool"
    and step :: "'s \<Rightarrow> 's \<Rightarrow> bool"
    and inv :: "'s \<Rightarrow> bool"
  assumes inv_start: "start s \<Longrightarrow> inv s"
    and inv_step: "inv s \<Longrightarrow> step s t \<Longrightarrow> inv t"
begin

lemma reachable_inv: "reachable start step s \<Longrightarrow> inv s"
  by (induction rule: reachable.induct) (auto intro: inv_start inv_step)

lemma chain_inv:
  assumes "inv s" and "rtranclp step s t"
  shows "inv t"
  using assms(2,1) by (induction rule: rtranclp_induct) (auto intro: inv_step)

end

section \<open>Keyed stores\<close>

text \<open>
  Several components keep a Go map behind one lock and one pair of methods; what their
  clients rely on is that a read returns the last value written under its key.
\<close>

locale keyed_store =
  fixes get :: "'s \<Rightarrow> 'k \<Rightarrow> 'v option"
    and put :: "'k \<Rightarrow> 'v \<Rightarrow> 's \<Rightarrow> 's"
  assumes get_put: "get (put k v s) = (get s)(k \<mapsto> v)"
begin

lemma get_put_same: "get (put k v s) k = Some v"
  by (simp add: get_put)

lemma get_put_other: "k' \<noteq> k \<Longrightarrow> get (put k v s) k' = get s k'"
  by (simp add: get_put)

lemma get_puts:
  "get (fold (\<lambda>(k, v). put k v) kvs s) = get s ++ map_of (rev kvs)"
proof (induction kvs arbitrary: s)
  case Nil
  then show ?case by simp
next
  case (Cons kv kvs)
  then show ?case by (cases kv) (simp add: get_put fun_eq_iff map_add_def split: option.split)
qed

end

section \<open>Facts on maps, lists and words\<close>

lemma finite_dom_fun_upd [simp]: "finite (dom (m(k := v))) = finite (dom m)"
  by (cases v) (auto simp: dom_fun_upd insert_Diff_if)

lemma card_dom_delete:
  assumes "finite (dom m)" and "m k = Some v"
  shows "card (dom (m(k := None))) = card (dom m) - 1"
  using assms by (simp add: dom_fun_upd domI)

lemma card_dom_insert:
  assumes "finite (dom m)" and "m k = None"
  shows "card (dom (m(k \<mapsto> v))) = card (dom m) + 1"
  using assms by (simp add: domIff)

lemma card_dom_pos:
  assumes "finite (dom m)" and "m k = Some v"
  shows "0 < card (dom m)"
  using assms card_gt_0_iff by blast

lemma sint_word_of_int_range:
  assumes "- (2 ^ (LENGTH('w::len) - 1)) \<le> n" and "n < 2 ^ (LENGTH('w) - 1)"
  shows "sint (word_of_int n :: 'w word) = n"
  using assms by (simp add: sint_sbintrunc' signed_take_bit_int_eq_self)

end
