(* ===== verification/Go_Strings.thy ===== *)
theory Go_Strings
  imports Go_Base
begin

text \<open>
  The part of Go's \<open>strings\<close>, \<open>strconv\<close> and \<open>fmt\<close> packages that the sources
  use, as executable functions on byte strings: \<open>TrimSpace\<close>, \<open>Split\<close>, \<open>Join\<close>,
  \<open>TrimSuffix\<close>, \<open>Contains\<close> of one byte, \<open>ParseInt\<close> in base 10 and the decimal
  form of \<open>%d\<close>. The main facts are the round trips \<open>join\<close> after \<open>split\<close> and
  \<open>parse_int\<close> after \<open>show_int\<close>, and the range of a parsed integer.
\<close>

section \<open>White space\<close>

text \<open>
  The UTF-8 encodings of the code points for which \<open>unicode.IsSpace\<close> holds.
\<close>

definition unicode_spaces :: "string list" where
  "unicode_spaces =
     [[CHR 0x09], [CHR 0x0A], [CHR 0x0B], [CHR 0x0C], [CHR 0x0D], [CHR 0x20],
      [CHR 0xC2, CHR 0x85], [CHR 0xC2, CHR 0xA0], [CHR 0xE1, CHR 0x9A, CHR 0x80],
      [CHR 0xE2, CHR 0x80, CHR 0x80], [CHR 0xE2, CHR 0x80, CHR 0x81],
      [CHR 0xE2, CHR 0x80, CHR 0x82], [CHR 0xE2, CHR 0x80, CHR 0x83],
      [CHR 0xE2, CHR 0x80, CHR 0x84], [CHR 0xE2, CHR 0x80, CHR 0x85],
      [CHR 0xE2, CHR 0x80, CHR 0x86], [CHR 0xE2, CHR 0x80, CHR 0x87],
      [CHR 0xE2, CHR 0x80, CHR 0x88], [CHR 0xE2, CHR 0x80, CHR 0x89],
      [CHR 0xE2, CHR 0x80, CHR 0x8A], [CHR 0xE2, CHR 0x80, CHR 0xA8],
      [CHR 0xE2, CHR 0x80, CHR 0xA9], [CHR 0xE2, CHR 0x80, CHR 0xAF],
      [CHR 0xE2, CHR 0x81, CHR 0x9F], [CHR 0xE3, CHR 0x80, CHR 0x80]]"

text \<open>\<open>strip_words ws s\<close> removes words of \<open>ws\<close> from the front of \<open>s\<close> while there are any.\<close>

function strip_words :: "string list \<Rightarrow> string \<Rightarrow> string" where
  "strip_words ws s =
     (case find (\<lambda>w. w \<noteq> [] \<and> prefix w s) ws of
        None \<Rightarrow> s
      | Some w \<Rightarrow> strip_words ws (drop (length w) s))"
  by pat_completeness auto
termination
  by (relation "measure (\<lambda>(ws, s). length s)")
     (auto simp: find_Some_iff prefix_def)

declare strip_words.simps [simp del]
lemmas strip_words_unfold [go_string] = strip_words.simps

definition trim_left :: "string \<Rightarrow> string" where
  "trim_left s = strip_words unicode_spaces s"

definition trim_right :: "string \<Rightarrow> string" where
  "trim_right s = rev (strip_words (map rev unicode_spaces) (rev s))"

definition trim_space :: "string \<Rightarrow> string" where
  "trim_space s = trim_right (trim_left s)"

lemma strip_words_none:
  "\<forall>w \<in> set ws. w \<noteq> [] \<longrightarrow> \<not> prefix w s \<Longrightarrow> strip_words ws s = s"
  by (subst strip_words.simps) (auto simp: find_Some_iff split: option.split dest!: nth_mem)

lemma strip_words_result: "\<forall>w \<in> set ws. w \<noteq> [] \<longrightarrow> \<not> prefix w (strip_words ws s)"
proof (induction ws s rule: strip_words.induct)
  case (1 ws s)
  show ?case
  proof (cases "find (\<lambda>w. w \<noteq> [] \<and> prefix w s) ws")
    case None
    then have "strip_words ws s = s" by (simp add: strip_words.simps [of ws s])
    with None show ?thesis by (auto simp: find_None_iff)
  next
    case (Some w)
    with "1" show ?thesis by (simp add: strip_words.simps [of ws s])
  qed
qed

lemma strip_words_idem: "strip_words ws (strip_words ws s) = strip_words ws s"
  by (rule strip_words_none) (rule strip_words_result)

lemma strip_words_suffix: "suffix (strip_words ws s) s"
proof (induction ws s rule: strip_words.induct)
  case (1 ws s)
  then show ?case
    by (subst strip_words.simps)
       (auto split: option.split intro: suffix_order.trans suffix_drop)
qed

lemma trim_space_Nil [simp]: "trim_space [] = []"
  by (simp add: trim_space_def trim_left_def trim_right_def unicode_spaces_def
      strip_words.simps [of _ "[]"])

section \<open>Splitting and joining\<close>

text \<open>
  \<open>strings.Split(s, sep)\<close> for a non-empty separator; the empty separator, which splits
  into characters in Go, is never used by the sources.
\<close>

function go_split :: "string \<Rightarrow> string \<Rightarrow> string list" where
  "go_split sep [] = [[]]"
| "go_split sep (c # cs) =
     (if sep \<noteq> [] \<and> prefix sep (c # cs)
      then [] # go_split sep (drop (length sep - 1) cs)
      else (case go_split sep cs of [] \<Rightarrow> [[c]] | p # ps \<Rightarrow> (c # p) # ps))"
  by pat_completeness auto
termination
  by (relation "measure (\<lambda>(sep, s). length s)") auto

fun go_join :: "string \<Rightarrow> string list \<Rightarrow> string" where
  "go_join sep [] = []"
| "go_join sep [p] = p"
| "go_join sep (p # q # ps) = p @ sep @ go_join sep (q # ps)"

lemma go_split_nonempty [simp]: "go_split sep s \<noteq> []"
  by (cases s) (auto split: list.split)

lemma go_join_Cons: "ps \<noteq> [] \<Longrightarrow> go_join sep (p # ps) = p @ sep @ go_join sep ps"
  by (cases ps) auto

lemma go_join_Cons_Cons: "go_join sep ((c # p) # ps) = c # go_join sep (p # ps)"
  by (cases ps) auto

lemma go_join_split: "go_join sep (go_split sep s) = s"
proof (induction sep s rule: go_split.induct)
  case (1 sep)
  then show ?case by simp
next
  case (2 sep c cs)
  show ?case
  proof (cases "sep \<noteq> [] \<and> prefix sep (c # cs)")
    case True
    then obtain ds where ds: "sep = c # ds" and "prefix ds cs"
      by (cases sep) auto
    then obtain es where "cs = ds @ es"
      by (auto simp: prefix_def)
    with True ds "2.IH"(1) [OF True] show ?thesis
      by (simp add: go_join_Cons)
  next
    case False
    with "2.IH"(2) [OF False] show ?thesis
      by (auto simp: go_join_Cons_Cons split: list.split)
  qed
qed

lemma go_split_parts:
  "p \<in> set (go_split [d] s) \<Longrightarrow> d \<notin> set p"
proof (induction s arbitrary: p)
  case Nil
  then show ?case by simp
next
  case (Cons c cs)
  then show ?case
    by (cases "go_split [d] cs") (auto split: if_splits)
qed

lemma go_split_no_sep: "d \<notin> set s \<Longrightarrow> go_split [d] s = [s]"
  by (induction s) auto

lemma go_split_append:
  "d \<notin> set p \<Longrightarrow> go_split [d] (p @ d # s) = p # go_split [d] s"
  by (induction p) auto

lemma go_split_join:
  "ps \<noteq> [] \<Longrightarrow> \<forall>p \<in> set ps. d \<notin> set p \<Longrightarrow> go_split [d] (go_join [d] ps) = ps"
proof (induction ps rule: induct_list012)
  case (2 p)
  then show ?case by (simp add: go_split_no_sep)
next
  case (3 p q ps)
  then show ?case by (simp add: go_split_append)
qed simp

lemma go_split_two:
  "d \<in> set s \<Longrightarrow> \<exists>p q qs. go_split [d] s = p # q # qs"
proof (induction s)
  case Nil
  then show ?case by simp
next
  case (Cons c cs)
  show ?case
  proof (cases "c = d")
    case True
    then show ?thesis by (cases "go_split [d] cs") auto
  next
    case False
    with Cons obtain p q qs where "go_split [d] cs = p # q # qs" by auto
    with False show ?thesis by simp
  qed
qed

definition trim_suffix :: "string \<Rightarrow> string \<Rightarrow> string" where
  "trim_suffix s sfx = (if suffix sfx s then take (length s - length sfx) s else s)"

lemma trim_suffix_append [simp]: "trim_suffix (s @ sfx) sfx = s"
  by (simp add: trim_suffix_def suffix_def)

section \<open>Decimal numbers\<close>

definition is_digit :: "char \<Rightarrow> bool" where
  "is_digit c \<longleftrightarrow> 48 \<le> (of_char c :: nat) \<and> (of_char c :: nat) \<le> 57"

definition digit_val :: "char \<Rightarrow> nat" where
  "digit_val c = of_char c - 48"

definition digit_char :: "nat \<Rightarrow> char" where
  "digit_char d = char_of (48 + d)"

definition digits_val :: "string \<Rightarrow> nat" where
  "digits_val s = foldl (\<lambda>acc c. 10 * acc + digit_val c) 0 s"

text \<open>\<open>%d\<close> of an unsigned and of a signed integer.\<close>

fun show_nat :: "nat \<Rightarrow> string" where
  "show_nat n =
     (if n < 10 then [digit_char n] else show_nat (n div 10) @ [digit_char (n mod 10)])"

declare show_nat.simps [simp del]

definition show_int :: "int \<Rightarrow> string" where
  "show_int i = (if i < 0 then CHR ''-'' # show_nat (nat (- i)) else show_nat (nat i))"

text \<open>
  \<open>strconv.ParseInt(s, 10, bits)\<close>: an optional sign, then digits only, then the range of
  a signed integer of that width. The callers only test \<open>err != nil\<close>, so every error
  (syntax and range) is \<open>None\<close>.
\<close>

definition in_range :: "nat \<Rightarrow> int \<Rightarrow> bool" where
  "in_range bits i \<longleftrightarrow> - (2 ^ (bits - 1)) \<le> i \<and> i < 2 ^ (bits - 1)"

definition parse_digits :: "string \<Rightarrow> nat option" where
  "parse_digits s = (if s \<noteq> [] \<and> list_all is_digit s then Some (digits_val s) else None)"

definition signed_value :: "string \<Rightarrow> int option" where
  "signed_value s =
     (case s of
        [] \<Rightarrow> None
      | c # cs \<Rightarrow>
          if c = CHR ''-'' then map_option (\<lambda>n. - int n) (parse_digits cs)
          else if c = CHR ''+'' then map_option int (parse_digits cs)
          else map_option int (parse_digits (c # cs)))"

definition parse_int :: "nat \<Rightarrow> string \<Rightarrow> int option" where
  "parse_int bits s =
     (case signed_value s of
        None \<Rightarrow> None
      | Some i \<Rightarrow> if in_range bits i then Some i else None)"

lemmas parse_int_eval [go_string] =
  parse_int_def signed_value_def parse_digits_def digits_val_def digit_val_def is_digit_def
  in_range_def

lemma parse_int_range: "parse_int bits s = Some i \<Longrightarrow> in_range bits i"
  by (auto simp: parse_int_def split: option.splits if_splits)

lemma parse_int_Nil [simp]: "parse_int bits [] = None"
  by (simp add: parse_int_def signed_value_def)

lemma of_char_digit: "d < 10 \<Longrightarrow> (of_char (digit_char d) :: nat) = 48 + d"
  by (simp add: digit_char_def)

lemma digit_char_props [simp]:
  assumes "d < 10"
  shows "is_digit (digit_char d)" and "digit_val (digit_char d) = d"
  using assms by (simp_all add: is_digit_def digit_val_def of_char_digit)

lemma digits_val_snoc: "digits_val (s @ [c]) = 10 * digits_val s + digit_val c"
  by (simp add: digits_val_def)

lemma show_nat_digits: "list_all is_digit (show_nat n)"
proof (induction n rule: show_nat.induct)
  case (1 n)
  then show ?case by (cases "n < 10") (simp_all add: show_nat.simps [of n])
qed

lemma show_nat_nonempty [simp]: "show_nat n \<noteq> []"
  by (simp add: show_nat.simps [of n])

lemma digits_val_show_nat [simp]: "digits_val (show_nat n) = n"
proof (induction n rule: show_nat.induct)
  case (1 n)
  then show ?case
    by (cases "n < 10") (simp_all add: show_nat.simps [of n] digits_val_snoc, simp add: digits_val_def)
qed

lemma show_nat_inj: "show_nat m = show_nat n \<Longrightarrow> m = n"
  by (metis digits_val_show_nat)

lemma show_nat_chars: "c \<in> set (show_nat n) \<Longrightarrow> is_digit c"
  using show_nat_digits by (auto simp: list_all_iff)

lemma not_digit_sign [simp]:
  "\<not> is_digit (CHR ''-'')" "\<not> is_digit (CHR ''+'')" "\<not> is_digit (CHR '':'')"
  "\<not> is_digit (CHR ''s'')" "\<not> is_digit (CHR '' '')"
  by (simp_all add: is_digit_def)

lemma parse_digits_show_nat [simp]: "parse_digits (show_nat n) = Some n"
  by (simp add: parse_digits_def show_nat_digits)

lemma signed_value_show_nat [simp]: "signed_value (show_nat n) = Some (int n)"
proof (cases "show_nat n")
  case (Cons c cs)
  then have "is_digit c" using show_nat_chars [of c n] by simp
  then have "c \<noteq> CHR ''-''" and "c \<noteq> CHR ''+''" by auto
  then show ?thesis
    using Cons parse_digits_show_nat [of n] by (simp add: signed_value_def)
qed simp

lemma signed_value_show_int [simp]: "signed_value (show_int i) = Some i"
  by (auto simp: show_int_def signed_value_def [of "CHR ''-'' # _"])

lemma parse_int_show_int: "in_range bits i \<Longrightarrow> parse_int bits (show_int i) = Some i"
  by (simp add: parse_int_def)

lemma parse_int_show_nat: "in_range bits (int n) \<Longrightarrow> parse_int bits (show_nat n) = Some (int n)"
  by (simp add: parse_int_def)

end
