(* ===== verification/Go_Json.thy ===== *)
theory Go_Json
  imports Go_Strings "HOL-Library.Log_Nat"
begin

text \<open>
  What the sources use of Go's \<open>encoding/json\<close>: the syntax check and parse of a
  document, decoding into a struct with named fields and decoding into \<open>interface{}\<close>.
  The parser is executable and takes fuel; \<open>parse_value_fuel\<close> shows that twice the
  length of the input is always enough, so \<open>json_parse\<close> never fails for lack of it.
  Bytes of a string that are no UTF-8 are replaced by U+FFFD, as the decoder does. Documents
  are taken to be nested less than 10000 deep (Go refuses deeper ones). Case-insensitive
  field names fold ASCII letters only.
\<close>

section \<open>Documents\<close>

datatype json =
    JNull
  | JBool bool
  | JNum string
  | JStr string
  | JArr "json list"
  | JObj "(string \<times> json) list"

fun skip_ws :: "string \<Rightarrow> string" where
  "skip_ws [] = []"
| "skip_ws (c # cs) =
     (if c \<in> {CHR 0x20, CHR 0x09, CHR 0x0A, CHR 0x0D} then skip_ws cs else c # cs)"

text \<open>UTF-8 encoding of a code point.\<close>

definition utf8 :: "nat \<Rightarrow> string" where
  "utf8 n =
     (if n < 128 then [char_of n]
      else if n < 2048 then [char_of (192 + n div 64), char_of (128 + n mod 64)]
      else if n < 65536
      then [char_of (224 + n div 4096), char_of (128 + n div 64 mod 64), char_of (128 + n mod 64)]
      else [char_of (240 + n div 262144), char_of (128 + n div 4096 mod 64),
            char_of (128 + n div 64 mod 64), char_of (128 + n mod 64)])"

text \<open>
  \<open>utf8.DecodeRune\<close>: how many bytes after its first byte the character takes that starts
  here, or nothing if no character does. The lead byte says how many bytes follow and in
  which range the first of them is, which rules out overlong forms, surrogates and code
  points beyond U+10FFFF.
\<close>

definition utf8_lead :: "nat \<Rightarrow> (nat \<times> nat \<times> nat) option" where
  "utf8_lead n =
     (if 194 \<le> n \<and> n \<le> 223 then Some (1, 128, 191)
      else if n = 224 then Some (2, 160, 191)
      else if n = 237 then Some (2, 128, 159)
      else if 225 \<le> n \<and> n \<le> 239 then Some (2, 128, 191)
      else if n = 240 then Some (3, 144, 191)
      else if n = 244 then Some (3, 128, 143)
      else if 241 \<le> n \<and> n \<le> 243 then Some (3, 128, 191)
      else None)"

definition byte_in :: "nat \<Rightarrow> nat \<Rightarrow> char \<Rightarrow> bool" where
  "byte_in lo hi c \<longleftrightarrow> lo \<le> of_char c \<and> of_char c \<le> hi"

definition utf8_tail :: "char \<Rightarrow> string \<Rightarrow> nat option" where
  "utf8_tail c cs =
     (if (of_char c :: nat) < 128 then Some 0
      else (case utf8_lead (of_char c) of
              None \<Rightarrow> None
            | Some (k, lo, hi) \<Rightarrow>
                if k \<le> length cs \<and> byte_in lo hi (hd cs) \<and> list_all (byte_in 128 191) (take (k - 1) (tl cs))
                then Some k else None))"

definition replacement :: string where
  "replacement = utf8 65533"

text \<open>A string as Go's conversions leave it: every byte that starts no character is replaced.\<close>

function coerce_utf8 :: "string \<Rightarrow> string" where
  "coerce_utf8 [] = []"
| "coerce_utf8 (c # cs) =
     (case utf8_tail c cs of
        None \<Rightarrow> replacement @ coerce_utf8 cs
      | Some k \<Rightarrow> c # take k cs @ coerce_utf8 (drop k cs))"
  by pat_completeness auto
termination
  by (relation "measure length") auto

function valid_utf8 :: "string \<Rightarrow> bool" where
  "valid_utf8 [] = True"
| "valid_utf8 (c # cs) =
     (case utf8_tail c cs of None \<Rightarrow> False | Some k \<Rightarrow> valid_utf8 (drop k cs))"
  by pat_completeness auto
termination
  by (relation "measure length") auto

lemma utf8_tail_ascii [simp]: "(of_char c :: nat) < 128 \<Longrightarrow> utf8_tail c cs = Some 0"
  by (simp add: utf8_tail_def)

lemma utf8_tail_length: "utf8_tail c cs = Some k \<Longrightarrow> k \<le> length cs"
  by (auto simp: utf8_tail_def split: if_splits option.splits prod.splits)

lemma utf8_tail_local:
  assumes "utf8_tail c cs = Some k"
  shows "utf8_tail c (take k cs @ r) = Some k"
proof (cases "(of_char c :: nat) < 128")
  case False
  obtain lo hi where l: "utf8_lead (of_char c) = Some (k, lo, hi)" "k \<le> length cs" "byte_in lo hi (hd cs)"
    "list_all (byte_in 128 191) (take (k - 1) (tl cs))"
    using assms False by (auto simp: utf8_tail_def split: option.splits if_splits)
  have "0 < k" using l(1) by (auto simp: utf8_lead_def split: if_splits)
  then obtain d ds where cs: "cs = d # ds" using l(2) by (cases cs) auto
  obtain j where k: "k = Suc j" using \<open>0 < k\<close> by (cases k) auto
  show ?thesis using l False by (simp add: utf8_tail_def cs k)
qed (use assms in \<open>simp add: utf8_tail_def\<close>)

lemma coerce_valid: "valid_utf8 s \<Longrightarrow> coerce_utf8 s = s"
  by (induction s rule: valid_utf8.induct) (auto split: option.splits)

lemma ascii_valid: "list_all (\<lambda>c. (of_char c :: nat) < 128) s \<Longrightarrow> valid_utf8 s"
  by (induction s) (simp_all add: utf8_tail_ascii)

lemma coerce_ascii: "list_all (\<lambda>c. (of_char c :: nat) < 128) s \<Longrightarrow> coerce_utf8 s = s"
  by (intro coerce_valid ascii_valid)

definition hex_val :: "char \<Rightarrow> nat option" where
  "hex_val c =
     (let n = (of_char c :: nat)
      in if 48 \<le> n \<and> n \<le> 57 then Some (n - 48)
         else if 65 \<le> n \<and> n \<le> 70 then Some (n - 55)
         else if 97 \<le> n \<and> n \<le> 102 then Some (n - 87)
         else None)"

fun hex4 :: "string \<Rightarrow> nat option" where
  "hex4 (a # b # c # d # _) =
     (case (hex_val a, hex_val b, hex_val c, hex_val d) of
        (Some w, Some x, Some y, Some z) \<Rightarrow> Some (4096 * w + 256 * x + 16 * y + z)
      | _ \<Rightarrow> None)"
| "hex4 _ = None"

text \<open>
  A \<open>\u\<close> escape, the input starting at its four digits: the encoded character and the
  number of bytes it takes. A pair of surrogates is one character; a lone surrogate is the
  replacement character.
\<close>

definition unicode_escape :: "string \<Rightarrow> (string \<times> nat) option" where
  "unicode_escape s =
     (case hex4 s of
        None \<Rightarrow> None
      | Some v \<Rightarrow>
          if 55296 \<le> v \<and> v < 57344
          then (case (if take 2 (drop 4 s) = [CHR 0x5C, CHR ''u''] then hex4 (drop 6 s) else None) of
                  Some w \<Rightarrow>
                    if v < 56320 \<and> 56320 \<le> w \<and> w < 57344
                    then Some (utf8 (65536 + 1024 * (v - 55296) + (w - 56320)), 10)
                    else Some (utf8 65533, 4)
                | None \<Rightarrow> Some (utf8 65533, 4))
          else Some (utf8 v, 4))"

definition simple_escape :: "char \<Rightarrow> char option" where
  "simple_escape c =
     (if c = CHR 0x22 then Some (CHR 0x22) else if c = CHR 0x5C then Some (CHR 0x5C)
      else if c = CHR ''/'' then Some (CHR ''/'') else if c = CHR ''b'' then Some (CHR 0x08)
      else if c = CHR ''f'' then Some (CHR 0x0C) else if c = CHR ''n'' then Some (CHR 0x0A)
      else if c = CHR ''r'' then Some (CHR 0x0D) else if c = CHR ''t'' then Some (CHR 0x09)
      else None)"

text \<open>A string literal after its opening quote: its value and the rest of the input.\<close>

function scan_str :: "string \<Rightarrow> (string \<times> string) option" where
  "scan_str [] = None"
| "scan_str (c # cs) =
     (if c = CHR 0x22 then Some ([], cs)
      else if (of_char c :: nat) < 32 then None
      else if c = CHR 0x5C
      then (case cs of
              [] \<Rightarrow> None
            | e # ds \<Rightarrow>
                if e = CHR ''u''
                then (case unicode_escape ds of
                        None \<Rightarrow> None
                      | Some (u, n) \<Rightarrow> map_option (\<lambda>(t, r). (u @ t, r)) (scan_str (drop n ds)))
                else (case simple_escape e of
                        None \<Rightarrow> None
                      | Some x \<Rightarrow> map_option (\<lambda>(t, r). (x # t, r)) (scan_str ds)))
      else (case utf8_tail c cs of
              None \<Rightarrow> map_option (\<lambda>(t, r). (replacement @ t, r)) (scan_str cs)
            | Some k \<Rightarrow> map_option (\<lambda>(t, r). (c # take k cs @ t, r)) (scan_str (drop k cs))))"
  by pat_completeness auto
termination
  by (relation "measure length") auto

text \<open>A number literal: its text and the rest of the input.\<close>

definition scan_frac :: "string \<Rightarrow> (string \<times> string) option" where
  "scan_frac s =
     (case s of
        c # t \<Rightarrow>
          if c = CHR ''.''
          then (if takeWhile is_digit t = [] then None
                else Some (c # takeWhile is_digit t, dropWhile is_digit t))
          else Some ([], s)
      | [] \<Rightarrow> Some ([], s))"

definition scan_exp :: "string \<Rightarrow> (string \<times> string) option" where
  "scan_exp s =
     (case s of
        c # t \<Rightarrow>
          if c = CHR ''e'' \<or> c = CHR ''E''
          then (let (sg, ds) = (case t of
                     d # u \<Rightarrow> if d = CHR ''+'' \<or> d = CHR ''-'' then ([d], u) else ([], t)
                   | [] \<Rightarrow> ([], t))
                in if takeWhile is_digit ds = [] then None
                   else Some (c # sg @ takeWhile is_digit ds, dropWhile is_digit ds))
          else Some ([], s)
      | [] \<Rightarrow> Some ([], s))"

definition scan_mantissa :: "string \<Rightarrow> (string \<times> string) option" where
  "scan_mantissa s =
     (case s of
        [] \<Rightarrow> None
      | c # t \<Rightarrow>
          if c = CHR ''0'' then Some ([c], t)
          else if is_digit c then Some (takeWhile is_digit s, dropWhile is_digit s)
          else None)"

definition scan_sign :: "string \<Rightarrow> string \<times> string" where
  "scan_sign s = (case s of c # t \<Rightarrow> if c = CHR ''-'' then ([c], t) else ([], s) | [] \<Rightarrow> ([], s))"

definition scan_num :: "string \<Rightarrow> (string \<times> string) option" where
  "scan_num s =
     (case scan_mantissa (snd (scan_sign s)) of
        None \<Rightarrow> None
      | Some (ip, s2) \<Rightarrow>
          (case scan_frac s2 of
             None \<Rightarrow> None
           | Some (fp, s3) \<Rightarrow>
               (case scan_exp s3 of
                  None \<Rightarrow> None
                | Some (ep, s4) \<Rightarrow> Some (fst (scan_sign s) @ ip @ fp @ ep, s4))))"

text \<open>A value that is not an object or an array; the input starts with its first byte.\<close>

definition scan_scalar :: "char \<Rightarrow> string \<Rightarrow> (json \<times> string) option" where
  "scan_scalar c cs =
     (if c = CHR 0x22 then map_option (\<lambda>(t, r). (JStr t, r)) (scan_str cs)
      else if prefix ''true'' (c # cs) then Some (JBool True, drop 3 cs)
      else if prefix ''false'' (c # cs) then Some (JBool False, drop 4 cs)
      else if prefix ''null'' (c # cs) then Some (JNull, drop 3 cs)
      else map_option (\<lambda>(t, r). (JNum t, r)) (scan_num (c # cs)))"

text \<open>The recursive descent over values, array elements and object members.\<close>

fun parse_value :: "nat \<Rightarrow> string \<Rightarrow> (json \<times> string) option"
  and parse_elems :: "nat \<Rightarrow> string \<Rightarrow> (json list \<times> string) option"
  and parse_members :: "nat \<Rightarrow> string \<Rightarrow> ((string \<times> json) list \<times> string) option" where
  "parse_value 0 s = None"
| "parse_value (Suc f) s =
     (case skip_ws s of
        [] \<Rightarrow> None
      | c # cs \<Rightarrow>
          if c = CHR 0x7B
          then (case skip_ws cs of
                  [] \<Rightarrow> None
                | d # ds \<Rightarrow> if d = CHR 0x7D then Some (JObj [], ds)
                            else map_option (\<lambda>(ms, r). (JObj ms, r)) (parse_members f cs))
          else if c = CHR 0x5B
          then (case skip_ws cs of
                  [] \<Rightarrow> None
                | d # ds \<Rightarrow> if d = CHR 0x5D then Some (JArr [], ds)
                            else map_option (\<lambda>(vs, r). (JArr vs, r)) (parse_elems f cs))
          else scan_scalar c cs)"
| "parse_elems 0 s = None"
| "parse_elems (Suc f) s =
     (case parse_value f s of
        None \<Rightarrow> None
      | Some (v, r) \<Rightarrow>
          (case skip_ws r of
             [] \<Rightarrow> None
           | c # cs \<Rightarrow>
               if c = CHR '','' then map_option (\<lambda>(vs, t). (v # vs, t)) (parse_elems f cs)
               else if c = CHR 0x5D then Some ([v], cs)
               else None))"
| "parse_members 0 s = None"
| "parse_members (Suc f) s =
     (case skip_ws s of
        [] \<Rightarrow> None
      | q # qs \<Rightarrow>
          if q \<noteq> CHR 0x22 then None
          else (case scan_str qs of
                  None \<Rightarrow> None
                | Some (k, r) \<Rightarrow>
                    (case skip_ws r of
                       [] \<Rightarrow> None
                     | d # ds \<Rightarrow>
                         if d \<noteq> CHR '':'' then None
                         else (case parse_value f ds of
                                 None \<Rightarrow> None
                               | Some (v, t) \<Rightarrow>
                                   (case skip_ws t of
                                      [] \<Rightarrow> None
                                    | c # cs \<Rightarrow>
                                        if c = CHR '',''
                                        then map_option (\<lambda>(ms, u). ((k, v) # ms, u)) (parse_members f cs)
                                        else if c = CHR 0x7D then Some ([(k, v)], cs)
                                        else None)))))"

definition json_parse :: "string \<Rightarrow> json option" where
  "json_parse s =
     (case parse_value (2 * length s + 1) s of
        None \<Rightarrow> None
      | Some (v, r) \<Rightarrow> if skip_ws r = [] then Some v else None)"

section \<open>Enough fuel\<close>

lemma skip_ws_length: "length (skip_ws s) \<le> length s"
  by (induction s) auto

lemma skip_ws_Cons_length: "skip_ws s = c # cs \<Longrightarrow> length cs < length s"
  using skip_ws_length [of s] by simp

lemma dropWhile_length: "length (dropWhile P s) \<le> length s"
  by (induction s) auto

lemma scan_str_length: "scan_str s = Some (t, r) \<Longrightarrow> length r < length s"
proof (induction s arbitrary: t r rule: scan_str.induct)
  case 1
  then show ?case by simp
next
  case (2 c cs)
  then show ?case
    by (fastforce split: if_splits list.splits option.splits prod.splits)
qed

lemma scan_mantissa_length: "scan_mantissa s = Some (t, r) \<Longrightarrow> length r < length s"
  using dropWhile_length [of is_digit "tl s"]
  by (auto simp: scan_mantissa_def less_Suc_eq_le split: list.splits if_splits)

lemma scan_frac_length: "scan_frac s = Some (t, r) \<Longrightarrow> length r \<le> length s"
  using dropWhile_length [of is_digit "tl s"]
  by (auto simp: scan_frac_def split: list.splits if_splits)

lemma scan_exp_length: "scan_exp s = Some (t, r) \<Longrightarrow> length r \<le> length s"
  using dropWhile_length [of is_digit "tl s"] dropWhile_length [of is_digit "tl (tl s)"]
  by (auto simp: scan_exp_def split: list.splits if_splits)

lemma scan_sign_length: "length (snd (scan_sign s)) \<le> length s"
  by (auto simp: scan_sign_def split: list.split)

lemma scan_num_length: "scan_num s = Some (t, r) \<Longrightarrow> length r < length s"
  using scan_sign_length [of s]
  by (auto simp: scan_num_def split: option.splits
      dest!: scan_mantissa_length scan_frac_length scan_exp_length)

lemma scan_scalar_length: "scan_scalar c cs = Some (v, r) \<Longrightarrow> length r < Suc (length cs)"
  by (auto simp: scan_scalar_def less_Suc_eq_le split: if_splits
      dest!: scan_str_length scan_num_length)

lemma parse_consumes:
  "parse_value f s = Some (v, r) \<Longrightarrow> length r < length s"
  "parse_elems f s = Some (vs, r) \<Longrightarrow> length r < length s"
  "parse_members f s = Some (ms, r) \<Longrightarrow> length r < length s"
proof (induction f s and f s and f s arbitrary: v r and vs r and ms r
    rule: parse_value_parse_elems_parse_members.induct)
  case (2 f s)
  show ?case
  proof (cases "skip_ws s")
    case (Cons c cs)
    have L: "length cs < length s" by (rule skip_ws_Cons_length [OF Cons])
    consider "c = CHR 0x7B" | "c = CHR 0x5B" | "c \<noteq> CHR 0x7B" "c \<noteq> CHR 0x5B" by blast
    then show ?thesis
    proof cases
      case 1
      with Cons L "2.prems" "2.IH"(1) [OF Cons] show ?thesis
        by (fastforce split: list.splits if_splits dest: skip_ws_Cons_length)
    next
      case 2
      with Cons L "2.prems" "2.IH"(2) [OF Cons] show ?thesis
        by (fastforce split: list.splits if_splits dest: skip_ws_Cons_length)
    next
      case 3
      with Cons "2.prems" have "scan_scalar c cs = Some (v, r)" by simp
      with L show ?thesis by (auto dest: scan_scalar_length)
    qed
  qed (use 2 in simp)
next
  case (4 f s)
  from "4.prems" obtain v t where v: "parse_value f s = Some (v, t)"
    by (auto split: option.splits)
  then have t: "length t < length s" by (rule "4.IH"(1))
  from "4.prems" v obtain c cs where c: "skip_ws t = c # cs"
    by (auto split: list.splits)
  from "4.prems" v c "4.IH"(2) [OF v refl c] skip_ws_Cons_length [OF c] t
  show ?case by (fastforce split: if_splits)
next
  case (6 f s)
  from "6.prems" obtain q qs k u d ds v t c cs where
    q: "skip_ws s = q # qs" and sq: "\<not> q \<noteq> CHR 0x22"
    and k: "scan_str qs = Some (k, u)" and d: "skip_ws u = d # ds" and sd: "\<not> d \<noteq> CHR '':''"
    and v: "parse_value f ds = Some (v, t)" and c: "skip_ws t = c # cs"
    by (auto split: list.splits if_splits option.splits prod.splits)
  have "length t < length ds"
    by (rule "6.IH"(1) [OF q sq k refl d sd v])
  then have "length cs < length s"
    using skip_ws_Cons_length [OF q] skip_ws_Cons_length [OF d] skip_ws_Cons_length [OF c]
      scan_str_length [OF k] by simp
  with "6.prems" q sq k d sd v c "6.IH"(2) [OF q sq k refl d sd v refl c]
  show ?case by (fastforce split: if_splits)
qed simp_all

text \<open>Two fuels that agree on what is left to read agree on the whole.\<close>

lemma parse_value_agree:
  assumes "\<forall>t. length t < length s \<longrightarrow> parse_elems f t = parse_elems g t \<and> parse_members f t = parse_members g t"
  shows "parse_value (Suc f) s = parse_value (Suc g) s"
proof (cases "skip_ws s")
  case (Cons c cs)
  then have "parse_elems f cs = parse_elems g cs" "parse_members f cs = parse_members g cs"
    using assms skip_ws_Cons_length by blast+
  with Cons show ?thesis by (simp split: list.split)
qed simp

lemma parse_elems_agree:
  assumes "parse_value f s = parse_value g s"
    and "\<forall>t. length t + 1 < length s \<longrightarrow> parse_elems f t = parse_elems g t"
  shows "parse_elems (Suc f) s = parse_elems (Suc g) s"
proof (cases "parse_value f s")
  case (Some p)
  obtain v t where p: "parse_value f s = Some (v, t)" using Some by (cases p) auto
  show ?thesis
  proof (cases "skip_ws t")
    case (Cons c cs)
    have "parse_elems f cs = parse_elems g cs"
      using assms(2) skip_ws_Cons_length [OF Cons] parse_consumes(1) [OF p] by simp
    then show ?thesis by (simp add: p assms(1) [unfolded p, symmetric] Cons)
  qed (simp add: p assms(1) [unfolded p, symmetric])
qed (use assms(1) in simp)

lemma parse_members_agree:
  assumes "\<forall>t. length t < length s \<longrightarrow> parse_value f t = parse_value g t \<and> parse_members f t = parse_members g t"
  shows "parse_members (Suc f) s = parse_members (Suc g) s"
proof (cases "\<exists>q qs k u d ds. skip_ws s = q # qs \<and> scan_str qs = Some (k, u) \<and> skip_ws u = d # ds")
  case True
  then obtain q qs k u d ds where k: "skip_ws s = q # qs" "scan_str qs = Some (k, u)" "skip_ws u = d # ds" by blast
  have ds: "length ds < length s"
    using skip_ws_Cons_length [OF k(1)] skip_ws_Cons_length [OF k(3)] scan_str_length [OF k(2)] by simp
  then have v: "parse_value f ds = parse_value g ds" using assms by blast
  have "parse_members f cs = parse_members g cs" if "parse_value g ds = Some (v, t)" "skip_ws t = c # cs" for v t c cs
    using assms ds parse_consumes(1) [OF that(1)] skip_ws_Cons_length [OF that(2)] by simp
  then show ?thesis by (simp add: k v split: option.split list.split)
qed (auto split: option.split list.split)

text \<open>
  The result of the parse does not depend on the fuel once it exceeds twice the length of
  the input.
\<close>

lemma parse_fuel_irrelevant:
  "2 * length s < f \<Longrightarrow> 2 * length s < g \<Longrightarrow> parse_value f s = parse_value g s"
  "2 * length s + 1 < f \<Longrightarrow> 2 * length s + 1 < g \<Longrightarrow> parse_elems f s = parse_elems g s"
  "2 * length s < f \<Longrightarrow> 2 * length s < g \<Longrightarrow> parse_members f s = parse_members g s"
proof (induction f arbitrary: g s)
  case (Suc f)
  {
    case 1
    then obtain g' where g: "g = Suc g'" by (cases g) auto
    show ?case unfolding g
      by (intro parse_value_agree allI impI conjI Suc.IH) (use 1 g in simp_all)
  next
    case 2
    then obtain g' where g: "g = Suc g'" by (cases g) auto
    show ?case unfolding g
      by (intro parse_elems_agree allI impI conjI Suc.IH) (use 2 g in simp_all)
  next
    case 3
    then obtain g' where g: "g = Suc g'" by (cases g) auto
    show ?case unfolding g
      by (intro parse_members_agree allI impI conjI Suc.IH) (use 3 g in simp_all)
  }
qed simp_all

lemma parse_value_fuel:
  "2 * length s < f \<Longrightarrow> parse_value f s = parse_value (2 * length s + 1) s"
  by (rule parse_fuel_irrelevant) simp_all

lemma json_parse_fuel:
  assumes "2 * length s < f"
  shows "json_parse s =
     (case parse_value f s of None \<Rightarrow> None | Some (v, r) \<Rightarrow> if skip_ws r = [] then Some v else None)"
  using parse_value_fuel [OF assms] by (simp add: json_parse_def)

section \<open>Decoding into a struct\<close>

text \<open>
  An object member is stored in the field whose name it has, else in one whose name it has
  up to case; other members are ignored. A later member overwrites an earlier one, \<open>null\<close>
  leaves a field as it is, and a top-level \<open>null\<close> decodes to the initial struct. A
  member of the wrong type makes \<open>Unmarshal\<close> return an error, which every caller turns
  into a failure of the whole decode, so the first bad member ends the model's decode.
\<close>

definition lower_ascii :: "char \<Rightarrow> char" where
  "lower_ascii c =
     (let n = (of_char c :: nat) in if 65 \<le> n \<and> n \<le> 90 then char_of (n + 32) else c)"

definition match_field :: "string list \<Rightarrow> string \<Rightarrow> string option" where
  "match_field names key =
     (if key \<in> set names then Some key
      else find (\<lambda>n. map lower_ascii n = map lower_ascii key) names)"

fun decode_members ::
  "string list \<Rightarrow> (string \<Rightarrow> json \<Rightarrow> 'a \<Rightarrow> 'a option) \<Rightarrow> (string \<times> json) list \<Rightarrow> 'a \<Rightarrow> 'a option"
where
  "decode_members names setf [] x = Some x"
| "decode_members names setf ((k, v) # ms) x =
     (case match_field names k of
        None \<Rightarrow> decode_members names setf ms x
      | Some n \<Rightarrow>
          (case setf n v x of None \<Rightarrow> None | Some y \<Rightarrow> decode_members names setf ms y))"

definition decode_struct ::
  "string list \<Rightarrow> (string \<Rightarrow> json \<Rightarrow> 'a \<Rightarrow> 'a option) \<Rightarrow> 'a \<Rightarrow> json \<Rightarrow> 'a option"
where
  "decode_struct names setf x j =
     (case j of
        JNull \<Rightarrow> Some x
      | JObj ms \<Rightarrow> decode_members names setf ms x
      | _ \<Rightarrow> None)"

definition set_int64 :: "json \<Rightarrow> int \<Rightarrow> int option" where
  "set_int64 j old =
     (case j of JNull \<Rightarrow> Some old | JNum l \<Rightarrow> parse_int 64 l | _ \<Rightarrow> None)"

definition set_string :: "json \<Rightarrow> string \<Rightarrow> string option" where
  "set_string j old = (case j of JNull \<Rightarrow> Some old | JStr t \<Rightarrow> Some t | _ \<Rightarrow> None)"

lemma set_int64_range: "set_int64 j old = Some i \<Longrightarrow> i = old \<or> in_range 64 i"
  by (auto simp: set_int64_def split: json.splits dest: parse_int_range)

section \<open>Numbers as float64\<close>

text \<open>
  A finite float64 is \<open>m * 2 ^ e\<close> for integers \<open>m\<close> and \<open>e\<close>. \<open>round_f64 p q\<close> is the
  float64 nearest to \<open>p / q\<close>, ties to even; \<open>None\<close> where it overflows.
\<close>

datatype f64 = F64 (f64_man: int) (f64_exp: int)

definition round_half_even :: "nat \<Rightarrow> nat \<Rightarrow> nat" where
  "round_half_even a b =
     (let d = a div b; r = a mod b
      in if 2 * r < b then d else if b < 2 * r then d + 1 else if even d then d else d + 1)"

definition round_f64 :: "nat \<Rightarrow> nat \<Rightarrow> (nat \<times> int) option" where
  "round_f64 p q =
     (if p = 0 then Some (0, 0)
      else
        let b = int (floorlog 2 p) - int (floorlog 2 q);
            below = (if 0 \<le> b then p < q * 2 ^ nat b else p * 2 ^ nat (- b) < q);
            e = max (- 1074) (if below then b - 53 else b - 52);
            m = (if 0 \<le> e then round_half_even p (q * 2 ^ nat e)
                 else round_half_even (p * 2 ^ nat (- e)) q)
        in if 0 \<le> e \<and> 2 ^ 1024 \<le> m * 2 ^ nat e then None else Some (m, e))"

text \<open>The parts of a number literal: sign, digits with the point removed, decimal exponent.\<close>

definition literal_parts :: "string \<Rightarrow> bool \<times> string \<times> int" where
  "literal_parts l =
     (let (sg, s1) = scan_sign l;
          ip = takeWhile is_digit s1; s2 = dropWhile is_digit s1;
          fp = (case s2 of c # t \<Rightarrow> if c = CHR ''.'' then takeWhile is_digit t else [] | [] \<Rightarrow> []);
          s3 = (case s2 of c # t \<Rightarrow> if c = CHR ''.'' then dropWhile is_digit t else s2 | [] \<Rightarrow> []);
          ex = (case s3 of c # t \<Rightarrow> (case signed_value t of Some i \<Rightarrow> i | None \<Rightarrow> 0) | [] \<Rightarrow> 0)
      in (sg \<noteq> [], ip @ fp, ex - int (length fp)))"

definition parse_float :: "string \<Rightarrow> f64 option" where
  "parse_float l =
     (let (neg, ds, k) = literal_parts l; n = digits_val ds
      in map_option (\<lambda>(m, e). F64 (if neg then - int m else int m) e)
           (if 0 \<le> k then round_f64 (n * 10 ^ nat k) 1 else round_f64 n (10 ^ nat (- k))))"

text \<open>The integer part, towards zero.\<close>

definition f64_trunc :: "f64 \<Rightarrow> int" where
  "f64_trunc x =
     (let m = f64_man x; e = f64_exp x
      in if 0 \<le> e then m * 2 ^ nat e else sgn m * (\<bar>m\<bar> div 2 ^ nat (- e)))"

section \<open>Decoding into \<open>interface{}\<close>\<close>

text \<open>
  Dynamic values. \<open>json.Unmarshal\<close> produces the first six shapes only; the remaining
  numeric types are the other cases of the sources' type switches.
\<close>

datatype goval =
    GNil
  | GBool bool
  | GFloat64 f64
  | GString string
  | GSlice "goval list"
  | GMap "(string \<times> goval) list"
  | GInt int
  | GInt64 int
  | GUint64 "64 word"
  | GInt32 int
  | GUint32 "32 word"
  | GFloat32 f64

fun to_interface :: "json \<Rightarrow> goval option"
  and to_slice :: "json list \<Rightarrow> goval list option"
  and to_map :: "(string \<times> json) list \<Rightarrow> (string \<times> goval) list option" where
  "to_interface JNull = Some GNil"
| "to_interface (JBool b) = Some (GBool b)"
| "to_interface (JNum l) = map_option GFloat64 (parse_float l)"
| "to_interface (JStr t) = Some (GString t)"
| "to_interface (JArr vs) = map_option GSlice (to_slice vs)"
| "to_interface (JObj ms) = map_option GMap (to_map ms)"
| "to_slice [] = Some []"
| "to_slice (v # vs) =
     (case to_interface v of
        None \<Rightarrow> None
      | Some x \<Rightarrow> map_option (\<lambda>xs. x # xs) (to_slice vs))"
| "to_map [] = Some []"
| "to_map ((k, v) # ms) =
     (case to_interface v of
        None \<Rightarrow> None
      | Some x \<Rightarrow> map_option (\<lambda>xs. (k, x) # xs) (to_map ms))"

definition unmarshal_any :: "string \<Rightarrow> goval option" where
  "unmarshal_any s = Option.bind (json_parse s) to_interface"

text \<open>A member of a decoded object: of several with the same name the last one counts.\<close>

definition gmap_get :: "(string \<times> goval) list \<Rightarrow> string \<Rightarrow> goval option" where
  "gmap_get ms k = map_of (rev ms) k"

section \<open>Integers are exact below \<open>2 ^ 53\<close>\<close>

lemma floorlog_one: "floorlog 2 (Suc 0) = 1"
  by (simp add: floorlog_def)

lemma round_half_even_exact: "0 < b \<Longrightarrow> round_half_even (a * b) b = a"
  by (simp add: round_half_even_def)

lemma round_f64_nat:
  assumes "n < 2 ^ 53"
  shows "\<exists>m e. round_f64 n 1 = Some (m, e) \<and> e \<le> 0 \<and> m div 2 ^ nat (- e) = n"
proof (cases "n = 0")
  case True
  then show ?thesis by (simp add: round_f64_def)
next
  case False
  define L where "L = floorlog 2 n"
  have L: "2 ^ (L - 1) \<le> n" and n: "n < 2 ^ L" and Lp: "0 < L"
    using False floorlog_bounds [of n 2] by (simp_all add: L_def floorlog_def)
  have "L \<le> 53"
  proof (rule ccontr)
    assume "\<not> L \<le> 53"
    then have "(2::nat) ^ 53 \<le> 2 ^ (L - 1)" by (intro power_increasing) auto
    with L assms show False by simp
  qed
  have b: "int L - int (floorlog 2 (Suc 0)) = int (L - 1)"
    using Lp by (simp add: floorlog_one)
  have "\<not> n < 2 ^ (L - 1)" using L by simp
  moreover have nL: "nat (int L - 1) = L - 1" by simp
  ultimately have e: "max (- 1074) (if n < 1 * 2 ^ nat (int (L - 1)) then int (L - 1) - 53 else int (L - 1) - 52)
      = int L - 53"
    using Lp by auto
  have "(2::nat) ^ 53 \<le> 2 ^ 1024" by (rule power_increasing) simp_all
  with assms have "\<not> 2 ^ 1024 \<le> n" by linarith
  then have "round_f64 n 1 = Some (n * 2 ^ nat (53 - int L), int L - 53)"
    using False e b nL \<open>L \<le> 53\<close> \<open>\<not> n < 2 ^ (L - 1)\<close> Lp
    by (auto simp: round_f64_def Let_def L_def [symmetric] floorlog_one round_half_even_def
        of_nat_diff)
  then show ?thesis using \<open>L \<le> 53\<close> by auto
qed

lemma scan_sign_show_nat: "scan_sign (show_nat n) = ([], show_nat n)"
proof (cases "show_nat n")
  case (Cons c cs)
  then have "is_digit c" using show_nat_chars [of c n] by simp
  then show ?thesis using Cons by (auto simp: scan_sign_def)
qed simp

lemma takeWhile_show_nat:
  "takeWhile is_digit (show_nat n @ s) = show_nat n @ takeWhile is_digit s"
  "dropWhile is_digit (show_nat n @ s) = dropWhile is_digit s"
  by (simp_all add: takeWhile_append2 dropWhile_append2 show_nat_chars)

lemma digits_show_nat:
  "takeWhile is_digit (show_nat n) = show_nat n" "dropWhile is_digit (show_nat n) = []"
  by (simp_all add: show_nat_chars)

lemma literal_parts_show_nat: "literal_parts (show_nat n) = (False, show_nat n, 0)"
  by (simp add: literal_parts_def scan_sign_show_nat digits_show_nat Let_def)

lemma parse_float_show_nat:
  assumes "n < 2 ^ 53"
  shows "\<exists>x. parse_float (show_nat n) = Some x \<and> f64_trunc x = int n"
proof -
  obtain m e where me: "round_f64 n 1 = Some (m, e)" "e \<le> 0" "m div 2 ^ nat (- e) = n"
    using round_f64_nat [OF assms] by blast
  from me(3) have "int m div 2 ^ nat (- e) = int n"
    by (metis of_nat_numeral of_nat_power zdiv_int)
  moreover have "sgn (int m) * (int m div 2 ^ nat (- e)) = int m div 2 ^ nat (- e)"
    by (cases "m = 0") (simp_all add: sgn_if)
  ultimately have "f64_trunc (F64 (int m) e) = int n"
    using me(2) by (auto simp: f64_trunc_def Let_def)
  then show ?thesis
    using me(1) by (simp add: parse_float_def literal_parts_show_nat)
qed

section \<open>Parsing what the services print\<close>

text \<open>
  Strings without quotes, backslashes and control characters are their own JSON form, and
  a decimal number followed by a character that cannot continue it is read back.
\<close>

definition plain_char :: "char \<Rightarrow> bool" where
  "plain_char c \<longleftrightarrow> 32 \<le> (of_char c :: nat) \<and> (of_char c :: nat) < 128 \<and> c \<noteq> CHR 0x22 \<and> c \<noteq> CHR 0x5C"

lemma scan_str_plain:
  "list_all plain_char t \<Longrightarrow> scan_str (t @ CHR 0x22 # r) = Some (t, r)"
  by (induction t) (auto simp: plain_char_def utf8_tail_ascii)

lemma scan_mantissa_show_nat:
  assumes "r = [] \<or> \<not> is_digit (hd r)"
  shows "scan_mantissa (show_nat n @ r) = Some (show_nat n, r)"
proof (cases "n = 0")
  case True
  have "(of_char (digit_char 0) :: nat) = of_char (CHR ''0'')" by (simp add: of_char_digit)
  then have "digit_char 0 = CHR ''0''" by (simp only: of_char_eq_iff)
  then show ?thesis using True
    by (simp add: show_nat.simps [of 0] scan_mantissa_def)
next
  case False
  then have z: "hd (show_nat n) \<noteq> CHR ''0''"
  proof (induction n rule: show_nat.induct)
    case (1 n)
    show ?case
    proof (cases "n < 10")
      case True
      with 1 have "(of_char (digit_char n) :: nat) \<noteq> 48" by (simp add: of_char_digit)
      then have "digit_char n \<noteq> CHR ''0''" by auto
      with True show ?thesis by (simp add: show_nat.simps [of n])
    next
      case False
      with 1 show ?thesis by (simp add: show_nat.simps [of n])
    qed
  qed
  obtain c cs where s: "show_nat n = c # cs" by (cases "show_nat n") auto
  then have "is_digit c" using show_nat_chars [of c n] by simp
  moreover from s z have "c \<noteq> CHR ''0''" by simp
  moreover have "takeWhile is_digit r = []" "dropWhile is_digit r = r"
    using assms by (cases r; simp)+
  then have "takeWhile is_digit (show_nat n @ r) = show_nat n"
    "dropWhile is_digit (show_nat n @ r) = r"
    by (simp_all add: takeWhile_show_nat)
  ultimately show ?thesis using s by (simp add: scan_mantissa_def)
qed

lemma scan_num_show_nat:
  assumes "c \<noteq> CHR ''.''" "c \<noteq> CHR ''e''" "c \<noteq> CHR ''E''" "\<not> is_digit c"
  shows "scan_num (show_nat n @ c # r) = Some (show_nat n, c # r)"
proof -
  have "scan_sign (show_nat n @ c # r) = ([], show_nat n @ c # r)"
  proof (cases "show_nat n")
    case (Cons d ds)
    then have "is_digit d" using show_nat_chars [of d n] by simp
    then show ?thesis using Cons by (auto simp: scan_sign_def)
  qed simp
  then show ?thesis
    using assms scan_mantissa_show_nat [of "c # r" n]
    by (simp add: scan_num_def scan_frac_def scan_exp_def)
qed

end
