(* ===== verification/Ws_Router.thy ===== *)
theory Ws_Router
  imports Go_Json
begin

text \<open>
  The routing layer of the WebSocket gateway: \<open>atomic_router.go\<close> (immutable route
  snapshots behind an atomic pointer), \<open>router.go\<close> (the envelopes and the static router),
  \<open>wrapper.go\<close> (turning a gRPC method into a handler) and \<open>response_data.go\<close>, all in
  \<open>gateway/internal/ws\<close>.

  A handler runs against the outside world, an arbitrary state \<open>'w\<close>. A proto message is an
  opaque value \<open>'m\<close>; \<open>protojson\<close> and the gRPC client are third-party and so parameters,
  as is the wording of \<open>encoding/json\<close>'s errors (\<open>json_err\<close>, from the input).
\<close>

section \<open>Envelopes and handlers\<close>

record client_meta =
  cmt_connID :: "64 word"
  cmt_conn :: nat
  cmt_clientID :: string
  cmt_isAuthenticated :: bool
  cmt_userID :: int
  cmt_token :: string

record ws_request =
  wrq_method :: string
  wrq_payload :: string

record ws_response =
  wrs_method :: string
  wrs_code :: int
  wrs_msg :: string
  wrs_data :: goval

text \<open>
  An error is a gRPC status, as \<open>status.FromError\<close> finds it, or any other error with its
  text.
\<close>

datatype handler_error = Status_error int string | Plain_error string

record 'm ws_handler_result =
  whr_message :: "'m option"
  whr_json :: string

type_synonym ('w, 'm) ws_handler =
  "string \<Rightarrow> client_meta \<Rightarrow> 'w \<Rightarrow> 'w \<times> (handler_error, 'm ws_handler_result option) result"

definition set_request_field :: "string \<Rightarrow> json \<Rightarrow> ws_request \<Rightarrow> ws_request option" where
  "set_request_field n v r =
     (if n = ''method'' then map_option (\<lambda>x. r\<lparr>wrq_method := x\<rparr>) (set_string v (wrq_method r))
      else map_option (\<lambda>x. r\<lparr>wrq_payload := x\<rparr>) (set_string v (wrq_payload r)))"

definition decode_request :: "string \<Rightarrow> ws_request option" where
  "decode_request msg =
     Option.bind (json_parse msg)
       (decode_struct [''method'', ''payload''] set_request_field
          \<lparr>wrq_method = [], wrq_payload = []\<rparr>)"

section \<open>Route snapshots\<close>

record 'h route_binding =
  rb_handler :: 'h
  rb_public :: bool
  rb_establishSession :: bool

record 'h atomic_routes =
  by_method :: "string \<Rightarrow> 'h route_binding option"

definition newAtomicRoutes :: "(string \<Rightarrow> 'h route_binding option) option \<Rightarrow> 'h atomic_routes" where
  "newAtomicRoutes m = \<lparr>by_method = (case m of None \<Rightarrow> Map.empty | Some t \<Rightarrow> t)\<rparr>"

definition routes_get :: "'h atomic_routes option \<Rightarrow> string \<Rightarrow> 'h route_binding option" where
  "routes_get a method =
     (case a of None \<Rightarrow> None | Some r \<Rightarrow> by_method r method)"

record 'h atomic_router =
  ar_pointer :: "'h atomic_routes option"

definition newAtomicRouter :: "'h atomic_router" where
  "newAtomicRouter = \<lparr>ar_pointer = Some (newAtomicRoutes None)\<rparr>"

definition router_store :: "'h atomic_routes option \<Rightarrow> 'h atomic_router \<Rightarrow> 'h atomic_router" where
  "router_store next_routes a =
     a\<lparr>ar_pointer := Some (case next_routes of None \<Rightarrow> newAtomicRoutes None | Some r \<Rightarrow> r)\<rparr>"

definition router_get :: "'h atomic_router \<Rightarrow> string \<Rightarrow> 'h route_binding option" where
  "router_get a method = routes_get (ar_pointer a) method"

lemma router_get_store [simp]:
  "router_get (router_store (Some (newAtomicRoutes (Some t))) a) = t"
  by (simp add: fun_eq_iff router_get_def router_store_def routes_get_def newAtomicRoutes_def)

lemma router_get_store_nil [simp]: "router_get (router_store None a) m = None"
  by (simp add: router_get_def router_store_def routes_get_def newAtomicRoutes_def)

lemma router_get_new [simp]: "router_get newAtomicRouter m = None"
  by (simp add: router_get_def newAtomicRouter_def routes_get_def newAtomicRoutes_def)

section \<open>The static router\<close>

record 'h ws_router =
  wr_handlers :: "string \<Rightarrow> 'h option"

definition newWsRouter :: "'h ws_router" where
  "newWsRouter = \<lparr>wr_handlers = Map.empty\<rparr>"

definition ws_register :: "string \<Rightarrow> 'h \<Rightarrow> 'h ws_router \<Rightarrow> 'h ws_router" where
  "ws_register method h r = r\<lparr>wr_handlers := (wr_handlers r)(method \<mapsto> h)\<rparr>"

definition getHandler :: "'h ws_router \<Rightarrow> string \<Rightarrow> 'h option" where
  "getHandler r method = wr_handlers r method"

interpretation wsr: keyed_store getHandler ws_register
  by unfold_locales (simp add: fun_eq_iff getHandler_def ws_register_def)

lemma getHandler_new: "getHandler newWsRouter = Map.empty"
  by (rule ext) (simp add: getHandler_def newWsRouter_def)

text \<open>The router built by a sequence of registrations answers with the last one per method.\<close>

lemma registered_handlers:
  "getHandler (fold (\<lambda>(m, h). ws_register m h) regs newWsRouter) = map_of (rev regs)"
  using wsr.get_puts[of regs newWsRouter] by (simp add: getHandler_new)

section \<open>Handlers from gRPC methods\<close>

definition wrapUnary ::
  "(string \<Rightarrow> (string, 'req) result) \<Rightarrow> ('req \<Rightarrow> 'w \<Rightarrow> 'w \<times> (handler_error, 'm) result)
     \<Rightarrow> ('w, 'm) ws_handler"
where
  "wrapUnary unmarshal fn payload meta w =
     (case unmarshal payload of
        Inl e \<Rightarrow> (w, Inl (Plain_error e))
      | Inr req \<Rightarrow>
          (case fn req w of
             (w', Inl e) \<Rightarrow> (w', Inl e)
           | (w', Inr resp) \<Rightarrow> (w', Inr (Some \<lparr>whr_message = Some resp, whr_json = []\<rparr>))))"

definition wrapIngress ::
  "(string \<Rightarrow> string \<Rightarrow> 'w \<Rightarrow> 'w \<times> (handler_error, string) result) \<Rightarrow> string
     \<Rightarrow> ('w, 'm) ws_handler"
where
  "wrapIngress call route payload meta w =
     (case call route payload w of
        (w', Inl e) \<Rightarrow> (w', Inl e)
      | (w', Inr json) \<Rightarrow> (w', Inr (Some \<lparr>whr_message = None, whr_json = json\<rparr>)))"

section \<open>Response data\<close>

definition dataFromWsHandlerResult ::
  "('m \<Rightarrow> (string, string) result) \<Rightarrow> (string \<Rightarrow> string) \<Rightarrow> 'm ws_handler_result option
     \<Rightarrow> (string, goval) result"
where
  "dataFromWsHandlerResult marshal json_err resp =
     (case resp of
        None \<Rightarrow> Inr GNil
      | Some r \<Rightarrow>
          (case whr_message r of
             Some m \<Rightarrow>
               (case marshal m of
                  Inl e \<Rightarrow> Inl e
                | Inr bytes \<Rightarrow>
                    (case unmarshal_any bytes of
                       None \<Rightarrow> Inl (json_err bytes)
                     | Some d \<Rightarrow> Inr d))
           | None \<Rightarrow>
               if whr_json r \<noteq> []
               then (case unmarshal_any (whr_json r) of
                       None \<Rightarrow> Inl (json_err (whr_json r))
                     | Some d \<Rightarrow> Inr d)
               else Inr GNil))"

lemma ingress_data:
  assumes "call route payload w = (w', Inr json)"
  shows "\<exists>r. wrapIngress call route payload meta w = (w', Inr r) \<and>
    dataFromWsHandlerResult marshal json_err r =
      (if json = [] then Inr GNil
       else case unmarshal_any json of None \<Rightarrow> Inl (json_err json) | Some d \<Rightarrow> Inr d)"
  using assms by (simp add: wrapIngress_def dataFromWsHandlerResult_def split: option.split)

end
