(* ===== verification/Gateway_Bootstrap.thy ===== *)
theory Gateway_Bootstrap
  imports Ws_Router "HOL-Library.AList"
begin

text \<open>
  \<open>gateway/internal/bootstrap\<close>: \<open>validate.go\<close>, \<open>errors.go\<close> and \<open>build.go\<close>, the construction
  of a route snapshot from the meta data in etcd.

  etcd, \<open>protojson\<close> and gRPC are third-party. A range read is an error or the pairs under
  the prefix with the revision of the answer; decoding a value into a spec is a parameter;
  the n-th dial of a build succeeds or not as the parameter \<open>dial_ok\<close> says, a successful one
  giving a fresh connection handle; the ingress client of a connection is a parameter too.
  Go's map iterations are over association lists here, in the order of the first insertion;
  nothing depends on the order, as the lemma on the bindings shows.
\<close>

section \<open>Specifications\<close>

record discovery =
  dc_target :: string
  dc_loadBalancing :: string

record service_type_spec =
  sts_schemaVersion :: int
  sts_typeKey :: string
  sts_displayName :: string
  sts_routingMode :: int
  sts_discovery :: "discovery option"
  sts_ingress :: "bool option"
  sts_updatedAtUnix :: int

record gateway_route_spec =
  grs_schemaVersion :: int
  grs_routeId :: string
  grs_wsMethod :: string
  grs_serviceType :: string
  grs_ingressRoute :: string
  grs_public :: bool
  grs_displayName :: string
  grs_establishesSession :: bool

datatype spec_error =
    Nil_spec
  | Bad_schema_version int
  | Key_mismatch string string
  | Bad_routing_mode int
  | Target_required
  | Ingress_required
  | Method_required
  | Ingress_route_required
  | Service_type_required

definition keySuffix :: "string \<Rightarrow> string \<Rightarrow> string" where
  "keySuffix key pre =
     (if length key < length pre \<or> take (length pre) key \<noteq> pre then []
      else rev (dropWhile (\<lambda>c. c = CHR ''/'')
             (rev (dropWhile (\<lambda>c. c = CHR ''/'') (drop (length pre) key)))))"

definition validateServiceTypeSpec ::
  "service_type_spec option \<Rightarrow> string \<Rightarrow> spec_error option" where
  "validateServiceTypeSpec sp suf =
     (case sp of
        None \<Rightarrow> Some Nil_spec
      | Some s \<Rightarrow>
          if sts_schemaVersion s \<noteq> 1 then Some (Bad_schema_version (sts_schemaVersion s))
          else if sts_typeKey s = [] \<or> sts_typeKey s \<noteq> suf
          then Some (Key_mismatch (sts_typeKey s) suf)
          else if sts_routingMode s \<noteq> 1 then Some (Bad_routing_mode (sts_routingMode s))
          else if (case sts_discovery s of None \<Rightarrow> True | Some d \<Rightarrow> dc_target d = [])
          then Some Target_required
          else if sts_ingress s \<noteq> Some True then Some Ingress_required
          else None)"

definition validateGatewayRouteSpec ::
  "gateway_route_spec option \<Rightarrow> string \<Rightarrow> spec_error option" where
  "validateGatewayRouteSpec sp suf =
     (case sp of
        None \<Rightarrow> Some Nil_spec
      | Some s \<Rightarrow>
          if grs_schemaVersion s \<noteq> 1 then Some (Bad_schema_version (grs_schemaVersion s))
          else if grs_routeId s = [] \<or> grs_routeId s \<noteq> suf
          then Some (Key_mismatch (grs_routeId s) suf)
          else if grs_wsMethod s = [] then Some Method_required
          else if grs_ingressRoute s = [] then Some Ingress_route_required
          else if grs_serviceType s = [] then Some Service_type_required
          else None)"

definition round_robin_config :: string where
  "round_robin_config = ''{\"loadBalancingConfig\": [{\"round_robin\":{}}]}''"

definition defaultServiceConfigJSON :: "string \<Rightarrow> string" where
  "defaultServiceConfigJSON lb =
     (if lb = [] \<or> lb = ''round_robin'' then round_robin_config else round_robin_config)"

section \<open>The build\<close>

type_synonym kvs = "(string \<times> string) list"

datatype 'e build_error =
    Range_types_failed 'e
  | Empty_service_types
  | Range_routes_failed 'e
  | Empty_gateway_routes
  | No_valid_service_types

text \<open>
  The connections of a build: the next handle to give out, the number of dials made, the
  connection of every type key and the connections closed on the way.
\<close>

record dialing =
  dl_next :: nat
  dl_dials :: nat
  dl_conns :: "(string \<times> nat) list"
  dl_closed :: "nat list"

type_synonym dial_outcome = "nat \<Rightarrow> string \<Rightarrow> string \<Rightarrow> bool"

text \<open>One pair under the service-types prefix, with its \<open>continue\<close> branches.\<close>

definition add_type ::
  "(string \<Rightarrow> service_type_spec option) \<Rightarrow> dial_outcome \<Rightarrow> string \<Rightarrow> string \<times> string
     \<Rightarrow> dialing \<Rightarrow> dialing"
where
  "add_type decode dial_ok pre kv d =
     (let sfx = keySuffix (fst kv) pre
      in if sfx = [] then d
         else case decode (snd kv) of
                None \<Rightarrow> d
              | Some spec \<Rightarrow>
                  if validateServiceTypeSpec (Some spec) sfx \<noteq> None then d
                  else
                    (let tk = sts_typeKey spec;
                         lb = (case sts_discovery spec of Some x \<Rightarrow> dc_loadBalancing x | None \<Rightarrow> []);
                         target = (case sts_discovery spec of Some x \<Rightarrow> dc_target x | None \<Rightarrow> []);
                         ok = dial_ok (dl_dials d) target (defaultServiceConfigJSON lb);
                         d' = d\<lparr>dl_dials := dl_dials d + 1\<rparr>
                     in if \<not> ok then d'
                        else d'\<lparr>dl_next := dl_next d + 1,
                                dl_closed := (case map_of (dl_conns d) tk of
                                                Some old \<Rightarrow> old # dl_closed d
                                              | None \<Rightarrow> dl_closed d),
                                dl_conns := AList.update tk (dl_next d) (dl_conns d)\<rparr>))"

definition add_route ::
  "(string \<Rightarrow> gateway_route_spec option) \<Rightarrow> (string \<times> nat) list \<Rightarrow> string \<Rightarrow> string \<times> string
     \<Rightarrow> (string \<times> gateway_route_spec) list \<Rightarrow> (string \<times> gateway_route_spec) list"
where
  "add_route decode conns pre kv winners =
     (let sfx = keySuffix (fst kv) pre
      in if sfx = [] then winners
         else case decode (snd kv) of
                None \<Rightarrow> winners
              | Some spec \<Rightarrow>
                  if validateGatewayRouteSpec (Some spec) sfx \<noteq> None then winners
                  else if map_of conns (grs_serviceType spec) = None then winners
                  else case map_of winners (grs_wsMethod spec) of
                         None \<Rightarrow> AList.update (grs_wsMethod spec) spec winners
                       | Some old \<Rightarrow>
                           if grs_routeId old < grs_routeId spec
                           then AList.update (grs_wsMethod spec) spec winners
                           else winners)"

definition binding_of ::
  "(nat \<Rightarrow> string \<Rightarrow> string \<Rightarrow> 'w \<Rightarrow> 'w \<times> (handler_error, string) result)
     \<Rightarrow> (string \<times> nat) list \<Rightarrow> gateway_route_spec \<Rightarrow> ('w, 'm) ws_handler route_binding"
where
  "binding_of call conns spec =
     \<lparr>rb_handler = wrapIngress (call (the (map_of conns (grs_serviceType spec))))
                     (grs_ingressRoute spec),
      rb_public = grs_public spec,
      rb_establishSession = grs_establishesSession spec\<rparr>"

definition add_binding ::
  "(nat \<Rightarrow> string \<Rightarrow> string \<Rightarrow> 'w \<Rightarrow> 'w \<times> (handler_error, string) result)
     \<Rightarrow> (string \<times> nat) list \<Rightarrow> string \<times> gateway_route_spec
     \<Rightarrow> (string \<Rightarrow> ('w, 'm) ws_handler route_binding option)
     \<Rightarrow> (string \<Rightarrow> ('w, 'm) ws_handler route_binding option)"
where
  "add_binding call conns w b = b(grs_wsMethod (snd w) \<mapsto> binding_of call conns (snd w))"

record 'e etcd_meta =
  em_types :: "('e, kvs \<times> int) result"
  em_routes :: "('e, kvs \<times> int) result"

record 'w build_env =
  be_decode_type :: "string \<Rightarrow> service_type_spec option"
  be_decode_route :: "string \<Rightarrow> gateway_route_spec option"
  be_dial_ok :: dial_outcome
  be_call :: "nat \<Rightarrow> string \<Rightarrow> string \<Rightarrow> 'w \<Rightarrow> 'w \<times> (handler_error, string) result"

definition dial_types :: "'w build_env \<Rightarrow> string \<Rightarrow> kvs \<Rightarrow> nat \<Rightarrow> dialing" where
  "dial_types env pre kvs next =
     fold (add_type (be_decode_type env) (be_dial_ok env) pre) kvs
       \<lparr>dl_next = next, dl_dials = 0, dl_conns = [], dl_closed = []\<rparr>"

definition pick_winners ::
  "'w build_env \<Rightarrow> string \<Rightarrow> kvs \<Rightarrow> (string \<times> nat) list \<Rightarrow> (string \<times> gateway_route_spec) list" where
  "pick_winners env pre kvs conns = fold (add_route (be_decode_route env) conns pre) kvs []"

text \<open>The result of a build, with the handles and the closed connections it leaves.\<close>

definition build ::
  "'w build_env \<Rightarrow> string \<Rightarrow> string \<Rightarrow> 'e etcd_meta \<Rightarrow> nat
     \<Rightarrow> ('e build_error, ('w, 'm) ws_handler atomic_routes \<times> nat list \<times> int) result
        \<times> nat \<times> nat list"
where
  "build env tpre rpre meta next =
     (case em_types meta of
        Inl e \<Rightarrow> (Inl (Range_types_failed e), next, [])
      | Inr (tkvs, trev) \<Rightarrow>
          if tkvs = [] then (Inl Empty_service_types, next, [])
          else case em_routes meta of
                 Inl e \<Rightarrow> (Inl (Range_routes_failed e), next, [])
               | Inr (rkvs, rrev) \<Rightarrow>
                   if rkvs = [] then (Inl Empty_gateway_routes, next, [])
                   else
                     (let rev = (if trev < rrev then rrev else trev);
                          d = dial_types env tpre tkvs next
                      in if dl_conns d = []
                         then (Inl No_valid_service_types, dl_next d, dl_closed d)
                         else
                           (let winners = pick_winners env rpre rkvs (dl_conns d);
                                bindings = fold (add_binding (be_call env) (dl_conns d)) winners Map.empty
                            in (Inr (newAtomicRoutes (Some bindings), map snd (dl_conns d), rev + 1),
                                dl_next d, dl_closed d))))"

section \<open>Keys\<close>

definition unslashed :: "string \<Rightarrow> bool" where
  "unslashed s \<longleftrightarrow> s \<noteq> [] \<and> hd s \<noteq> CHR ''/'' \<and> last s \<noteq> CHR ''/''"

lemma dropWhile_replicate: "dropWhile (\<lambda>c. c = x) (replicate n x @ s) = dropWhile (\<lambda>c. c = x) s"
  by (induction n) auto

lemma dropWhile_hd: "s \<noteq> [] \<Longrightarrow> \<not> P (hd s) \<Longrightarrow> dropWhile P s = s"
  by (cases s) auto

lemma keySuffix_id:
  assumes "unslashed s"
  shows "keySuffix (pre @ replicate i (CHR ''/'') @ s @ replicate j (CHR ''/'')) pre = s"
proof -
  have "dropWhile (\<lambda>c. c = CHR ''/'') (s @ replicate j (CHR ''/'')) = s @ replicate j (CHR ''/'')"
    using assms by (intro dropWhile_hd) (auto simp: unslashed_def)
  moreover have "dropWhile (\<lambda>c. c = CHR ''/'') (rev s) = rev s"
    using assms by (intro dropWhile_hd) (auto simp: unslashed_def hd_rev)
  ultimately show ?thesis by (simp add: keySuffix_def dropWhile_replicate)
qed

lemma keySuffix_unslashed: "keySuffix key pre = [] \<or> unslashed (keySuffix key pre)"
proof -
  let ?P = "\<lambda>c. c = CHR ''/''"
  define t where "t = dropWhile ?P (drop (length pre) key)"
  define u where "u = dropWhile ?P (rev t)"
  have "rev u = [] \<or> unslashed (rev u)"
  proof (cases "u = []")
    case False
    have "\<not> ?P (hd u)" using False unfolding u_def by (rule hd_dropWhile)
    moreover have "hd (rev u) = hd t"
    proof -
      obtain p where p: "rev t = p @ u" unfolding u_def by (metis takeWhile_dropWhile_id)
      then have "t = rev u @ rev p" by (metis rev_append rev_rev_ident)
      with False show ?thesis by simp
    qed
    moreover have "t \<noteq> []" using False by (auto simp: u_def)
    then have "\<not> ?P (hd t)" unfolding t_def by (rule hd_dropWhile)
    ultimately show ?thesis using False by (simp add: unslashed_def last_rev)
  qed simp
  then show ?thesis by (auto simp: keySuffix_def t_def u_def)
qed

section \<open>Dialled connections\<close>

text \<open>Every handle given out since \<open>n0\<close> is the connection of one type or closed.\<close>

definition dialing_ok :: "nat \<Rightarrow> dialing \<Rightarrow> bool" where
  "dialing_ok n0 d \<longleftrightarrow>
     n0 \<le> dl_next d \<and> distinct (map fst (dl_conns d)) \<and>
     inj_on (map_of (dl_conns d)) (dom (map_of (dl_conns d))) \<and>
     ran (map_of (dl_conns d)) \<inter> set (dl_closed d) = {} \<and>
     ran (map_of (dl_conns d)) \<union> set (dl_closed d) = {n0 ..< dl_next d}"

lemma inj_on_map_upd:
  assumes "inj_on m (dom m)" and "v \<notin> ran m"
  shows "inj_on (m(k \<mapsto> v)) (dom (m(k \<mapsto> v)))"
  using assms by (auto simp: inj_on_def ran_def domIff)

lemma ran_map_upd_inj:
  assumes "inj_on m (dom m)"
  shows "ran (m(k \<mapsto> v)) = insert v (ran m - set_option (m k))"
proof
  show "ran (m(k \<mapsto> v)) \<subseteq> insert v (ran m - set_option (m k))"
  proof
    fix x
    assume "x \<in> ran (m(k \<mapsto> v))"
    then obtain a where a: "(m(k \<mapsto> v)) a = Some x" by (auto simp: ran_def)
    show "x \<in> insert v (ran m - set_option (m k))"
    proof (cases "a = k")
      case False
      then have "m a = Some x" using a by simp
      moreover have "m k \<noteq> Some x"
        using False assms calculation by (metis domI inj_onD)
      ultimately show ?thesis by (auto simp: ran_def)
    qed (use a in simp)
  qed
  show "insert v (ran m - set_option (m k)) \<subseteq> ran (m(k \<mapsto> v))"
    by (auto simp: ran_def)
qed

lemma dialing_ok_connect:
  assumes "dialing_ok n0 d"
  shows "dialing_ok n0 (d\<lparr>dl_dials := i, dl_next := dl_next d + 1,
    dl_closed := (case map_of (dl_conns d) tk of Some old \<Rightarrow> old # dl_closed d | None \<Rightarrow> dl_closed d),
    dl_conns := AList.update tk (dl_next d) (dl_conns d)\<rparr>)"
proof -
  let ?m = "map_of (dl_conns d)"
  let ?closed = "case ?m tk of Some old \<Rightarrow> old # dl_closed d | None \<Rightarrow> dl_closed d"
  have inj: "inj_on ?m (dom ?m)" and disj: "ran ?m \<inter> set (dl_closed d) = {}"
    and all: "ran ?m \<union> set (dl_closed d) = {n0 ..< dl_next d}"
    and le: "n0 \<le> dl_next d" and keys: "distinct (map fst (dl_conns d))"
    using assms by (auto simp: dialing_ok_def)
  have fresh: "dl_next d \<notin> ran ?m" "dl_next d \<notin> set (dl_closed d)" using all by force+
  have closed: "set ?closed = set_option (?m tk) \<union> set (dl_closed d)" by (auto split: option.split)
  have old: "set_option (?m tk) \<subseteq> ran ?m" by (auto simp: ran_def)
  have "insert (dl_next d) (ran ?m - set_option (?m tk)) \<inter>
      (set_option (?m tk) \<union> set (dl_closed d)) = {}"
    using disj fresh old by blast
  moreover have "insert (dl_next d) (ran ?m - set_option (?m tk)) \<union>
      (set_option (?m tk) \<union> set (dl_closed d)) = insert (dl_next d) {n0 ..< dl_next d}"
    using all old by blast
  moreover have "insert (dl_next d) {n0 ..< dl_next d} = {n0 ..< dl_next d + 1}"
    using le by (simp add: atLeastLessThanSuc)
  ultimately show ?thesis
    using le keys inj_on_map_upd[OF inj fresh(1), of tk] unfolding dialing_ok_def
    by (simp add: update_conv' ran_map_upd_inj[OF inj] closed distinct_update del: fun_upd_apply)
qed

lemma dialing_ok_dials: "dialing_ok n0 (d\<lparr>dl_dials := i\<rparr>) = dialing_ok n0 d"
  by (simp add: dialing_ok_def)

lemma dialing_ok_add_type:
  assumes "dialing_ok n0 d"
  shows "dialing_ok n0 (add_type decode dial_ok pre kv d)"
  using assms dialing_ok_connect[OF assms]
  by (simp add: add_type_def Let_def dialing_ok_dials split: option.split)

lemma dial_types_ok: "dialing_ok n0 (dial_types env pre kvs n0)"
proof -
  have "dialing_ok n0 d \<Longrightarrow>
    dialing_ok n0 (fold (add_type (be_decode_type env) (be_dial_ok env) pre) kvs d)" for d
    by (induction kvs arbitrary: d) (auto intro: dialing_ok_add_type)
  moreover have "dialing_ok n0 \<lparr>dl_next = n0, dl_dials = 0, dl_conns = [], dl_closed = []\<rparr>"
    by (simp add: dialing_ok_def)
  ultimately show ?thesis by (simp add: dial_types_def)
qed

lemma dialled_handles:
  assumes "dialing_ok n0 d"
  shows "set (map snd (dl_conns d)) = ran (map_of (dl_conns d))"
  using assms by (simp add: dialing_ok_def ran_distinct)

section \<open>Winning routes\<close>

text \<open>The specs that take part: those whose pair passes every check.\<close>

definition route_candidate ::
  "(string \<Rightarrow> gateway_route_spec option) \<Rightarrow> (string \<times> nat) list \<Rightarrow> string \<Rightarrow> string \<times> string
     \<Rightarrow> gateway_route_spec option"
where
  "route_candidate decode conns pre kv =
     (let sfx = keySuffix (fst kv) pre
      in case decode (snd kv) of
           None \<Rightarrow> None
         | Some spec \<Rightarrow>
             if sfx \<noteq> [] \<and> validateGatewayRouteSpec (Some spec) sfx = None \<and>
                map_of conns (grs_serviceType spec) \<noteq> None
             then Some spec else None)"

definition route_candidates ::
  "'w build_env \<Rightarrow> string \<Rightarrow> kvs \<Rightarrow> (string \<times> nat) list \<Rightarrow> gateway_route_spec list" where
  "route_candidates env pre kvs conns =
     List.map_filter (route_candidate (be_decode_route env) conns pre) kvs"

definition challenge ::
  "gateway_route_spec \<Rightarrow> (string \<times> gateway_route_spec) list \<Rightarrow> (string \<times> gateway_route_spec) list"
where
  "challenge spec winners =
     (case map_of winners (grs_wsMethod spec) of
        None \<Rightarrow> AList.update (grs_wsMethod spec) spec winners
      | Some old \<Rightarrow>
          if grs_routeId old < grs_routeId spec
          then AList.update (grs_wsMethod spec) spec winners else winners)"

lemma add_route_challenge:
  "add_route decode conns pre kv winners =
     (case route_candidate decode conns pre kv of
        None \<Rightarrow> winners | Some spec \<Rightarrow> challenge spec winners)"
  by (cases "decode (snd kv)") (auto simp: add_route_def route_candidate_def challenge_def Let_def)

lemma pick_winners_fold:
  "pick_winners env pre kvs conns = fold challenge (route_candidates env pre kvs conns) []"
proof -
  have "fold (add_route (be_decode_route env) conns pre) kvs w =
      fold challenge (route_candidates env pre kvs conns) w" for w
    by (induction kvs arbitrary: w)
       (simp_all add: route_candidates_def add_route_challenge List.map_filter_simps split: option.split)
  then show ?thesis by (simp add: pick_winners_def)
qed

definition wins_in :: "gateway_route_spec set \<Rightarrow> gateway_route_spec \<Rightarrow> bool" where
  "wins_in cs s \<longleftrightarrow>
     s \<in> cs \<and> (\<forall>s' \<in> cs. grs_wsMethod s' = grs_wsMethod s \<longrightarrow> grs_routeId s' \<le> grs_routeId s)"

definition winner_map_ok ::
  "gateway_route_spec set \<Rightarrow> (string \<Rightarrow> gateway_route_spec option) \<Rightarrow> bool" where
  "winner_map_ok cs w \<longleftrightarrow>
     (\<forall>m s. w m = Some s \<longrightarrow> grs_wsMethod s = m \<and> wins_in cs s) \<and>
     (\<forall>s \<in> cs. w (grs_wsMethod s) \<noteq> None)"

definition winners_ok ::
  "gateway_route_spec set \<Rightarrow> (string \<times> gateway_route_spec) list \<Rightarrow> bool" where
  "winners_ok cs w \<longleftrightarrow> distinct (map fst w) \<and> winner_map_ok cs (map_of w)"

lemma winner_map_ok_wins:
  assumes "winner_map_ok cs w" and "wins_in (insert s cs) s"
  shows "winner_map_ok (insert s cs) (w(grs_wsMethod s \<mapsto> s))"
  using assms by (auto simp: winner_map_ok_def wins_in_def)

lemma winner_map_ok_loses:
  assumes "winner_map_ok cs w" and "w (grs_wsMethod s) = Some old"
    and "grs_routeId s \<le> grs_routeId old"
  shows "winner_map_ok (insert s cs) w"
proof -
  have "wins_in (insert s cs) x" if "w m = Some x" for m x
  proof -
    have "grs_wsMethod x = m" "wins_in cs x" using assms(1) that by (auto simp: winner_map_ok_def)
    moreover have "grs_routeId s \<le> grs_routeId x" if "grs_wsMethod s = grs_wsMethod x"
      using assms(2,3) that \<open>w m = Some x\<close> calculation(1) by simp
    ultimately show ?thesis by (simp add: wins_in_def)
  qed
  then show ?thesis using assms(1,2) by (simp add: winner_map_ok_def)
qed

lemma winners_ok_challenge:
  assumes "winners_ok cs w"
  shows "winners_ok (insert s cs) (challenge s w)"
proof -
  have keys: "distinct (map fst w)" and ok: "winner_map_ok cs (map_of w)"
    using assms by (simp_all add: winners_ok_def)
  show ?thesis
  proof (cases "map_of w (grs_wsMethod s)")
    case None
    have "grs_wsMethod x \<noteq> grs_wsMethod s" if "x \<in> cs" for x
    proof
      assume "grs_wsMethod x = grs_wsMethod s"
      with ok that None show False by (auto simp: winner_map_ok_def)
    qed
    then have "wins_in (insert s cs) s" by (auto simp: wins_in_def)
    with ok have "winner_map_ok (insert s cs) ((map_of w)(grs_wsMethod s \<mapsto> s))"
      by (rule winner_map_ok_wins)
    with keys show ?thesis
      by (simp add: winners_ok_def challenge_def None update_conv' distinct_update del: fun_upd_apply)
  next
    case (Some old)
    then have old: "grs_wsMethod old = grs_wsMethod s" "wins_in cs old"
      using ok by (auto simp: winner_map_ok_def)
    show ?thesis
    proof (cases "grs_routeId old < grs_routeId s")
      case True
      have "grs_routeId x \<le> grs_routeId s" if "x \<in> cs" "grs_wsMethod x = grs_wsMethod s" for x
      proof -
        have "grs_routeId x \<le> grs_routeId old" using old that by (simp add: wins_in_def)
        with True show ?thesis by simp
      qed
      then have "wins_in (insert s cs) s" by (simp add: wins_in_def)
      with ok have "winner_map_ok (insert s cs) ((map_of w)(grs_wsMethod s \<mapsto> s))"
        by (rule winner_map_ok_wins)
      with keys True show ?thesis
        by (simp add: winners_ok_def challenge_def Some update_conv' distinct_update del: fun_upd_apply)
    next
      case False
      then have "grs_routeId s \<le> grs_routeId old" by simp
      with ok Some have "winner_map_ok (insert s cs) (map_of w)" by (rule winner_map_ok_loses)
      with keys False show ?thesis by (simp add: winners_ok_def challenge_def Some)
    qed
  qed
qed

lemma fold_challenge_ok:
  "winners_ok cs w \<Longrightarrow> winners_ok (set xs \<union> cs) (fold challenge xs w)"
proof (induction xs arbitrary: cs w)
  case Nil
  then show ?case by simp
next
  case (Cons x xs)
  from Cons.IH[OF winners_ok_challenge[OF Cons.prems, of x]] show ?case by simp
qed

lemma pick_winners_ok:
  "winners_ok (set (route_candidates env pre kvs conns)) (pick_winners env pre kvs conns)"
proof -
  have "winners_ok {} []" by (simp add: winners_ok_def winner_map_ok_def)
  from fold_challenge_ok[OF this] show ?thesis by (simp add: pick_winners_fold)
qed

text \<open>Of the candidates of a method the first one with the greatest route id wins.\<close>

definition first_greatest :: "gateway_route_spec list \<Rightarrow> gateway_route_spec \<Rightarrow> bool" where
  "first_greatest xs s \<longleftrightarrow>
     (\<exists>before after. xs = before @ s # after \<and>
        (\<forall>s' \<in> set before. grs_routeId s' < grs_routeId s) \<and>
        (\<forall>s' \<in> set after. grs_routeId s' \<le> grs_routeId s))"

lemma challenge_lookup:
  "map_of (challenge s w) m =
     (if grs_wsMethod s = m
      then Some (case map_of w m of
                   None \<Rightarrow> s | Some old \<Rightarrow> if grs_routeId old < grs_routeId s then s else old)
      else map_of w m)"
  by (auto simp: challenge_def update_conv split: option.split)

lemma first_greatest_snoc:
  "first_greatest (xs @ [s]) s" if "first_greatest xs old" "grs_routeId old < grs_routeId s"
proof -
  have "grs_routeId s' \<le> grs_routeId old" if "s' \<in> set xs" for s'
    using that \<open>first_greatest xs old\<close> by (auto simp: first_greatest_def less_imp_le)
  then have "grs_routeId s' < grs_routeId s" if "s' \<in> set xs" for s'
    using le_less_trans that \<open>grs_routeId old < grs_routeId s\<close> by blast
  then show ?thesis unfolding first_greatest_def by (intro exI[of _ xs] exI[of _ "[]"]) simp
qed

lemma first_greatest_keeps:
  "first_greatest xs old \<Longrightarrow> \<not> grs_routeId old < grs_routeId s \<Longrightarrow> first_greatest (xs @ [s]) old"
  unfolding first_greatest_def by (elim exE conjE, rule exI, rule exI) auto

lemma first_winner:
  "case map_of (fold challenge xs []) m of
     None \<Rightarrow> filter (\<lambda>s. grs_wsMethod s = m) xs = []
   | Some s \<Rightarrow> first_greatest (filter (\<lambda>s. grs_wsMethod s = m) xs) s"
proof (induction xs rule: rev_induct)
  case (snoc s xs)
  have "first_greatest [s] s" by (simp add: first_greatest_def Cons_eq_append_conv)
  with snoc show ?case
    by (auto simp: challenge_lookup first_greatest_snoc first_greatest_keeps split: option.splits)
qed simp

lemma add_binding_apply:
  "add_binding call conns p b m =
     (if m = grs_wsMethod (snd p) then Some (binding_of call conns (snd p)) else b m)"
  by (simp add: add_binding_def)

lemma fold_bindings:
  assumes "distinct (map fst v)" and "\<And>p. p \<in> set v \<Longrightarrow> grs_wsMethod (snd p) = fst p"
  shows "fold (add_binding call conns) v b m =
    (case map_of v m of Some s \<Rightarrow> Some (binding_of call conns s) | None \<Rightarrow> b m)"
  using assms
proof (induction v arbitrary: b)
  case (Cons p v)
  have d: "distinct (map fst v)" using Cons.prems(1) by simp
  have me: "\<And>p. p \<in> set v \<Longrightarrow> grs_wsMethod (snd p) = fst p" using Cons.prems(2) by simp
  note IH = Cons.IH[OF d me, of "add_binding call conns p b"]
  show ?case
  proof (cases "fst p = m")
    case True
    then have "map_of v m = None" using Cons.prems(1) by (auto simp: map_of_eq_None_iff)
    with True Cons.prems(2)[of p] show ?thesis
      using IH by (cases p) (simp add: add_binding_apply)
  next
    case False
    with Cons.prems(2)[of p] show ?thesis
      using IH by (cases p) (simp add: add_binding_apply split: option.split)
  qed
qed simp

lemma bindings_map:
  assumes "winners_ok cs w"
  shows "fold (add_binding call conns) w Map.empty m = map_option (binding_of call conns) (map_of w m)"
proof -
  have keys: "distinct (map fst w)" using assms by (simp add: winners_ok_def)
  have "grs_wsMethod (snd p) = fst p" if "p \<in> set w" for p
    using assms that keys by (cases p) (auto simp: winners_ok_def winner_map_ok_def)
  then show ?thesis using keys by (cases "map_of w m") (simp_all add: fold_bindings)
qed

lemma candidate_service:
  "s \<in> set (route_candidates env pre kvs conns) \<Longrightarrow> map_of conns (grs_serviceType s) \<noteq> None"
  by (auto simp: route_candidates_def List.map_filter_def route_candidate_def Let_def
      split: option.splits if_splits)

section \<open>Builds\<close>

lemma build_success:
  assumes "build env tpre rpre meta n0 = (Inr (routes, conns, rv), n1, cl)"
    and "em_types meta = Inr (tkvs, trev)" and "em_routes meta = Inr (rkvs, rrev)"
  defines "d \<equiv> dial_types env tpre tkvs n0"
  shows "dl_conns d \<noteq> []" and "conns = map snd (dl_conns d)" and "n1 = dl_next d"
    and "cl = dl_closed d" and "rv = max trev rrev + 1"
    and "routes_get (Some routes) m =
      map_option (binding_of (be_call env) (dl_conns d))
        (map_of (pick_winners env rpre rkvs (dl_conns d)) m)"
proof -
  have "dl_conns d \<noteq> [] \<and> conns = map snd (dl_conns d) \<and> n1 = dl_next d \<and> cl = dl_closed d \<and>
      rv = max trev rrev + 1 \<and>
      routes = newAtomicRoutes (Some (fold (add_binding (be_call env) (dl_conns d))
        (pick_winners env rpre rkvs (dl_conns d)) Map.empty))"
    using assms(1-3) by (auto simp: build_def Let_def d_def[symmetric] max_def split: if_splits)
  then show "dl_conns d \<noteq> []" and "conns = map snd (dl_conns d)" and "n1 = dl_next d"
    and "cl = dl_closed d" and "rv = max trev rrev + 1"
    and "routes_get (Some routes) m =
      map_option (binding_of (be_call env) (dl_conns d))
        (map_of (pick_winners env rpre rkvs (dl_conns d)) m)"
    by (auto simp: routes_get_def newAtomicRoutes_def bindings_map[OF pick_winners_ok])
qed

lemma build_inputs:
  assumes "build env tpre rpre meta n0 = (Inr r, n1, cl)"
  obtains tkvs trev rkvs rrev
  where "em_types meta = Inr (tkvs, trev)" "em_routes meta = Inr (rkvs, rrev)"
    "tkvs \<noteq> []" "rkvs \<noteq> []"
  using assms by (auto simp: build_def split: sum.splits if_splits)

lemma build_failure:
  assumes "build env tpre rpre meta n0 = (Inl e, n1, cl)"
  shows "set cl = {n0 ..< n1}" and "n0 \<le> n1"
proof -
  have "set cl = {n0 ..< n1} \<and> n0 \<le> n1"
  proof (cases "n1 = n0 \<and> cl = []")
    case False
    then obtain tkvs trev where t: "em_types meta = Inr (tkvs, trev)"
      "dl_conns (dial_types env tpre tkvs n0) = []"
      "n1 = dl_next (dial_types env tpre tkvs n0)" "cl = dl_closed (dial_types env tpre tkvs n0)"
    using assms by (auto simp: build_def Let_def split: sum.splits if_splits)
  then show ?thesis using dial_types_ok[of n0 env tpre tkvs] by (simp add: dialing_ok_def)
  qed simp
  then show "set cl = {n0 ..< n1}" and "n0 \<le> n1" by auto
qed

lemma build_handles:
  assumes "build env tpre rpre meta n0 = (Inr (routes, conns, rv), n1, cl)"
  shows "conns \<noteq> []" and "set conns \<inter> set cl = {}"
    and "set conns \<union> set cl = {n0 ..< n1}" and "n0 \<le> n1"
proof -
  obtain tkvs trev rkvs rrev where
    i: "em_types meta = Inr (tkvs, trev)" "em_routes meta = Inr (rkvs, rrev)"
    using build_inputs[OF assms] by metis
  note b = build_success[OF assms i]
  have ok: "dialing_ok n0 (dial_types env tpre tkvs n0)" by (rule dial_types_ok)
  show "conns \<noteq> []" using b(1,2) by simp
  show "set conns \<inter> set cl = {}" and "set conns \<union> set cl = {n0 ..< n1}" and "n0 \<le> n1"
    using ok dialled_handles[OF ok] b(2-4) by (simp_all add: dialing_ok_def)
qed

lemma build_bindings_live:
  assumes "build env tpre rpre meta n0 = (Inr (routes, conns, rv), n1, cl)"
    and "routes_get (Some routes) m = Some b"
  shows "\<exists>c \<in> set conns. \<exists>r. rb_handler b = wrapIngress (be_call env c) r"
proof -
  obtain tkvs trev rkvs rrev where
    i: "em_types meta = Inr (tkvs, trev)" "em_routes meta = Inr (rkvs, rrev)"
    using build_inputs[OF assms(1)] by metis
  note bs = build_success[OF assms(1) i]
  let ?conns = "dl_conns (dial_types env tpre tkvs n0)"
  obtain s where s: "map_of (pick_winners env rpre rkvs ?conns) m = Some s"
      "b = binding_of (be_call env) ?conns s"
    using trans[OF bs(6)[of m, symmetric] assms(2)] by auto
  have "s \<in> set (route_candidates env rpre rkvs ?conns)"
    using pick_winners_ok[of env rpre rkvs ?conns] s(1)
    by (auto simp: winners_ok_def winner_map_ok_def wins_in_def)
  then obtain c where c: "map_of ?conns (grs_serviceType s) = Some c"
    using candidate_service by blast
  then have "c \<in> set conns" using bs(2) by (force dest: map_of_SomeD)
  with c show ?thesis by (auto simp: s(2) binding_of_def)
qed

section \<open>Properties\<close>

text \<open>
  C27. After a successful build the snapshot answers a method exactly when some valid route
  spec names it and its service type was dialled; it then serves the spec with the greatest
  route id among those, the first one read when several have it (two keys can have one
  suffix), through the connection dialled for the spec's service type, with the spec's flags.
\<close>

theorem build_routes_greatest_id:
  assumes "build env tpre rpre meta n0 = (Inr (routes, conns, rv), n1, cl)"
    and "em_types meta = Inr (tkvs, trev)" and "em_routes meta = Inr (rkvs, rrev)"
    and "cands = filter (\<lambda>s. grs_wsMethod s = m)
                   (route_candidates env rpre rkvs (dl_conns (dial_types env tpre tkvs n0)))"
  shows "(routes_get (Some routes) m = None \<longleftrightarrow> cands = []) \<and>
    (\<forall>b. routes_get (Some routes) m = Some b \<longrightarrow>
       (\<exists>before s after. \<exists>c \<in> set conns.
          cands = before @ s # after \<and>
          (\<forall>s' \<in> set before. grs_routeId s' < grs_routeId s) \<and>
          (\<forall>s' \<in> set after. grs_routeId s' \<le> grs_routeId s) \<and>
          map_of (dl_conns (dial_types env tpre tkvs n0)) (grs_serviceType s) = Some c \<and>
          b = \<lparr>rb_handler = wrapIngress (be_call env c) (grs_ingressRoute s),
               rb_public = grs_public s, rb_establishSession = grs_establishesSession s\<rparr>))"
proof -
  let ?conns = "dl_conns (dial_types env tpre tkvs n0)"
  note bs = build_success[OF assms(1-3)]
  have served: "\<exists>c \<in> set conns. map_of ?conns (grs_serviceType s) = Some c" if s: "s \<in> set cands" for s
  proof -
    obtain c where c: "map_of ?conns (grs_serviceType s) = Some c"
      using s candidate_service[of s env rpre rkvs ?conns] by (auto simp: assms(4))
    then have "c \<in> set conns" using bs(2) by (force dest: map_of_SomeD)
    with c show ?thesis by blast
  qed
  show ?thesis
  proof (cases "map_of (pick_winners env rpre rkvs ?conns) m")
    case None
    then show ?thesis
      using first_winner[of m "route_candidates env rpre rkvs ?conns"] by (auto simp: bs(6) assms(4) pick_winners_fold split: option.splits)
  next
    case (Some s)
    then have f: "first_greatest cands s"
      using first_winner[of m "route_candidates env rpre rkvs ?conns"] by (auto simp: assms(4) pick_winners_fold split: option.splits)
    then obtain before after where p: "cands = before @ s # after"
      "\<forall>s' \<in> set before. grs_routeId s' < grs_routeId s"
      "\<forall>s' \<in> set after. grs_routeId s' \<le> grs_routeId s"
      by (auto simp: first_greatest_def)
    moreover obtain c where "c \<in> set conns" "map_of ?conns (grs_serviceType s) = Some c"
      using served[of s] p(1) by auto
    ultimately show ?thesis by (auto simp: bs(6) Some binding_of_def)
  qed
qed

text \<open>
  A build never leaks a connection: each one it dials is either handed to the caller,
  or (replaced by a later pair with the same type key) closed, never both; a build that
  fails leaves no open connection behind.
\<close>

theorem build_leaks_no_connection:
  "case build env tpre rpre meta n0 of
     (Inr (routes, conns, rv), n1, cl) \<Rightarrow>
       conns \<noteq> [] \<and> set conns \<inter> set cl = {} \<and> set conns \<union> set cl = {n0 ..< n1}
   | (Inl e, n1, cl) \<Rightarrow> set cl = {n0 ..< n1}"
  by (simp split: prod.split sum.split, intro conjI allI impI)
     (hypsubst, (erule build_failure(1) | erule build_handles))+

text \<open>
  The watch resumes after the later of the two range reads. A change of the service
  types is therefore seen, by the read or by the watch, at every revision only if the routes
  were not read later than the types: a change between the two reads is in neither, and the
  gateway keeps the old types until something else changes.
\<close>

theorem watch_covers_types_iff:
  assumes "build env tpre rpre meta n0 = (Inr (routes, conns, next_rev), n1, cl)"
    and "em_types meta = Inr (tkvs, trev)" and "em_routes meta = Inr (rkvs, rrev)"
  shows "(\<forall>r. r \<le> trev \<or> next_rev \<le> r) \<longleftrightarrow> rrev \<le> trev"
proof -
  have "next_rev = max trev rrev + 1" using build_success(5)[OF assms] .
  then have n: "next_rev = (if rrev \<le> trev then trev + 1 else rrev + 1)" by (simp add: max_def)
  show ?thesis
  proof
    assume cov: "\<forall>r. r \<le> trev \<or> next_rev \<le> r"
    show "rrev \<le> trev"
      using cov[rule_format, of "trev + 1"] n by (auto split: if_splits)
  qed (use n in auto)
qed

text \<open>Two routes for one method of one service, the types read at revision 10, the routes at 12.\<close>

definition demo_type :: service_type_spec where
  "demo_type =
     \<lparr>sts_schemaVersion = 1, sts_typeKey = ''user'', sts_displayName = [], sts_routingMode = 1,
      sts_discovery = Some \<lparr>dc_target = ''etcd:///kd48/user-service'', dc_loadBalancing = []\<rparr>,
      sts_ingress = Some True, sts_updatedAtUnix = 0\<rparr>"

definition demo_route :: "string \<Rightarrow> gateway_route_spec" where
  "demo_route rid =
     \<lparr>grs_schemaVersion = 1, grs_routeId = rid, grs_wsMethod = ''/Login'', grs_serviceType = ''user'',
      grs_ingressRoute = ''/'' @ rid, grs_public = True, grs_displayName = [],
      grs_establishesSession = True\<rparr>"

definition demo_env :: "nat build_env" where
  "demo_env =
     \<lparr>be_decode_type = (\<lambda>v. Some demo_type), be_decode_route = (\<lambda>v. Some (demo_route v)),
      be_dial_ok = (\<lambda>i target cfg. True), be_call = (\<lambda>c route payload w. (w + c, Inr payload))\<rparr>"

definition demo_meta_kvs :: "string etcd_meta" where
  "demo_meta_kvs =
     \<lparr>em_types = Inr ([(''t/user'', ''{}'')], 10),
      em_routes = Inr ([(''r/login'', ''login''), (''r/alogin'', ''alogin'')], 12)\<rparr>"

lemmas build_eval = dial_types_def pick_winners_def add_type_def add_route_def keySuffix_def
  validateServiceTypeSpec_def validateGatewayRouteSpec_def demo_env_def demo_type_def demo_route_def
  Let_def

lemma demo_build:
  "\<exists>routes. build demo_env ''t/'' ''r/'' demo_meta_kvs 5 = (Inr (routes, [5], 13), 6, [])"
  by (simp add: build_def demo_meta_kvs_def build_eval)

lemma demo_candidates:
  "route_candidates demo_env ''r/'' [(''r/login'', ''login''), (''r/alogin'', ''alogin'')]
     (dl_conns (dial_types demo_env ''t/'' [(''t/user'', ''{}'')] 5)) =
   [demo_route ''login'', demo_route ''alogin'']"
  by (simp add: route_candidates_def List.map_filter_simps route_candidate_def build_eval)

lemma build_routes_greatest_id_witness:
  "\<exists>(routes :: (nat, unit) ws_handler atomic_routes) b.
     build demo_env ''t/'' ''r/'' demo_meta_kvs 5 = (Inr (routes, [5], 13), 6, []) \<and>
     routes_get (Some routes) ''/Login'' = Some b \<and>
     rb_handler b = wrapIngress (be_call demo_env 5) ''/login''"
proof -
  obtain routes :: "(nat, unit) ws_handler atomic_routes"
    where b: "build demo_env ''t/'' ''r/'' demo_meta_kvs 5 = (Inr (routes, [5], 13), 6, [])"
    using demo_build by blast
  let ?conns = "dl_conns (dial_types demo_env ''t/'' [(''t/user'', ''{}'')] 5)"
  have cands: "[demo_route ''login'', demo_route ''alogin''] =
      filter (\<lambda>s. grs_wsMethod s = ''/Login'')
        (route_candidates demo_env ''r/'' [(''r/login'', ''login''), (''r/alogin'', ''alogin'')] ?conns)"
    by (simp add: demo_candidates) (simp add: demo_route_def)
  note th = build_routes_greatest_id[OF b _ _ cands, of 10 12]
  have "routes_get (Some routes) ''/Login'' \<noteq> None"
    using th by (simp add: demo_meta_kvs_def)
  then obtain x where x: "routes_get (Some routes) ''/Login'' = Some x" by blast
  have "\<exists>before s after. \<exists>c \<in> set [5].
      [demo_route ''login'', demo_route ''alogin''] = before @ s # after \<and>
      (\<forall>s' \<in> set before. grs_routeId s' < grs_routeId s) \<and>
      (\<forall>s' \<in> set after. grs_routeId s' \<le> grs_routeId s) \<and>
      map_of ?conns (grs_serviceType s) = Some c \<and>
      x = \<lparr>rb_handler = wrapIngress (be_call demo_env c) (grs_ingressRoute s),
           rb_public = grs_public s, rb_establishSession = grs_establishesSession s\<rparr>"
    using th x by (simp add: demo_meta_kvs_def)
  moreover have "\<not> grs_routeId (demo_route ''login'') < grs_routeId (demo_route ''alogin'')"
    by (simp add: demo_route_def)
  ultimately have "rb_handler x = wrapIngress (be_call demo_env 5) (grs_ingressRoute (demo_route ''login''))"
    by (auto simp: Cons_eq_append_conv)
  then show ?thesis using b x by (auto simp: demo_route_def)
qed

lemma watch_covers_types_iff_witness:
  "\<exists>routes :: (nat, unit) ws_handler atomic_routes.
     build demo_env ''t/'' ''r/'' demo_meta_kvs 5 = (Inr (routes, [5], 13), 6, []) \<and>
     \<not> (\<forall>r :: int. r \<le> 10 \<or> 13 \<le> r)"
proof -
  obtain routes :: "(nat, unit) ws_handler atomic_routes"
    where b: "build demo_env ''t/'' ''r/'' demo_meta_kvs 5 = (Inr (routes, [5], 13), 6, [])"
    using demo_build by blast
  show ?thesis
    using watch_covers_types_iff[OF b, of _ 10 _ 12] b by (auto simp: demo_meta_kvs_def)
qed

end
