(* ===== verification/Gateway_Manager.thy ===== *)
theory Gateway_Manager
  imports Gateway_Bootstrap
begin

text \<open>
  \<open>gateway/internal/bootstrap/manager.go\<close>: the manager that keeps the gateway's routes up to
  date. A bootstrap builds a snapshot, publishes it and retires the connections of the
  previous one, which a goroutine closes after the drain delay; watch events arm a debounce
  timer whose firing bootstraps again.

  Times are nanoseconds. \<open>m_next\<close> counts the connection handles given out; \<open>m_closed\<close> is
  the set of the connections closed so far. A bootstrap holds \<open>buildMu\<close> throughout and is
  one step, given what the two range reads return.
\<close>

section \<open>State\<close>

record ('w, 'm) manager =
  m_router :: "('w, 'm) ws_handler atomic_router"
  m_typesPrefix :: string
  m_routesPrefix :: string
  m_watchPrefix :: string
  m_debounce :: int
  m_drainDelay :: int
  m_nextWatchRev :: int
  m_activeConns :: "nat list"
  m_reloadTimer :: "int option"
  m_draining :: "(int \<times> nat list) list"
  m_next :: nat
  m_closed :: "nat set"

definition defaultWatchPrefix :: string where
  "defaultWatchPrefix = ''kd48/meta/''"

definition newManager ::
  "('w, 'm) ws_handler atomic_router \<Rightarrow> string \<Rightarrow> string \<Rightarrow> ('w, 'm) manager" where
  "newManager router tpre rpre =
     \<lparr>m_router = router, m_typesPrefix = tpre, m_routesPrefix = rpre,
      m_watchPrefix = defaultWatchPrefix, m_debounce = 200 * 10 ^ 6, m_drainDelay = 30 * 10 ^ 9,
      m_nextWatchRev = 0, m_activeConns = [], m_reloadTimer = None, m_draining = [],
      m_next = 0, m_closed = {}\<rparr>"

section \<open>Operations\<close>

definition bootstrap ::
  "'w build_env \<Rightarrow> int \<Rightarrow> 'e etcd_meta \<Rightarrow> ('w, 'm) manager
     \<Rightarrow> 'e build_error option \<times> ('w, 'm) manager"
where
  "bootstrap env now meta m =
     (case build env (m_typesPrefix m) (m_routesPrefix m) meta (m_next m) of
        (Inl e, n, cl) \<Rightarrow>
          (Some e, m\<lparr>m_next := n, m_closed := m_closed m \<union> set cl\<rparr>)
      | (Inr (routes, conns, next_rev), n, cl) \<Rightarrow>
          (None,
           m\<lparr>m_next := n, m_closed := m_closed m \<union> set cl,
             m_nextWatchRev := next_rev,
             m_router := router_store (Some routes) (m_router m),
             m_activeConns := conns,
             m_draining := (if m_activeConns m = [] then m_draining m
                            else (now + m_drainDelay m, m_activeConns m) # m_draining m)\<rparr>))"

text \<open>A drain goroutine that wakes up closes its connections.\<close>

definition drain :: "int \<times> nat list \<Rightarrow> ('w, 'm) manager \<Rightarrow> ('w, 'm) manager" where
  "drain d m =
     m\<lparr>m_draining := remove1 d (m_draining m), m_closed := m_closed m \<union> set (snd d)\<rparr>"

definition scheduleReload :: "int \<Rightarrow> ('w, 'm) manager \<Rightarrow> ('w, 'm) manager" where
  "scheduleReload now m = m\<lparr>m_reloadTimer := Some (now + m_debounce m)\<rparr>"

definition timer_fires ::
  "'w build_env \<Rightarrow> int \<Rightarrow> 'e etcd_meta \<Rightarrow> ('w, 'm) manager \<Rightarrow> ('w, 'm) manager" where
  "timer_fires env now meta m = snd (bootstrap env now meta (m\<lparr>m_reloadTimer := None\<rparr>))"

definition m_close :: "('w, 'm) manager \<Rightarrow> ('w, 'm) manager" where
  "m_close m = m\<lparr>m_closed := m_closed m \<union> set (m_activeConns m), m_activeConns := []\<rparr>"

text \<open>
  What the watch loop of \<open>Run\<close> meets next: the context done, a response of the watch, or
  its end (an error or a closed channel), after which it waits, bootstraps and watches
  again. The result says whether \<open>Run\<close> returns.
\<close>

datatype 'e run_event = Run_cancelled | Watch_response | Watch_ended "'e etcd_meta"

fun run_turn ::
  "'w build_env \<Rightarrow> int \<Rightarrow> 'e run_event \<Rightarrow> ('w, 'm) manager \<Rightarrow> bool \<times> ('w, 'm) manager" where
  "run_turn env now Run_cancelled m = (True, m)"
| "run_turn env now Watch_response m = (False, scheduleReload now m)"
| "run_turn env now (Watch_ended meta) m = (False, snd (bootstrap env now meta m))"

section \<open>Steps\<close>

text \<open>A step at an instant, and at some instant.\<close>

inductive m_step_at :: "'w build_env \<Rightarrow> int \<Rightarrow> ('w, 'm) manager \<Rightarrow> ('w, 'm) manager \<Rightarrow> bool"
  for env now where
  at_bootstrap: "m_step_at env now m (snd (bootstrap env now (meta :: string etcd_meta) m))"
| at_run: "m_step_at env now m (snd (run_turn env now (ev :: string run_event) m))"
| at_timer:
    "m_reloadTimer m = Some t \<Longrightarrow> t \<le> now \<Longrightarrow>
     m_step_at env now m (timer_fires env now (meta :: string etcd_meta) m)"
| at_drain: "d \<in> set (m_draining m) \<Longrightarrow> fst d \<le> now \<Longrightarrow> m_step_at env now m (drain d m)"

inductive m_step :: "'w build_env \<Rightarrow> ('w, 'm) manager \<Rightarrow> ('w, 'm) manager \<Rightarrow> bool" for env where
  m_at: "m_step_at env now m m' \<Longrightarrow> m_step env m m'"

text \<open>A run along a clock that does not go back, from one time to another.\<close>

inductive timed_run ::
  "'w build_env \<Rightarrow> int \<Rightarrow> ('w, 'm) manager \<Rightarrow> int \<Rightarrow> ('w, 'm) manager \<Rightarrow> bool" for env t m where
  run_here: "timed_run env t m t m"
| run_on: "timed_run env t m t1 m1 \<Longrightarrow> t1 \<le> t2 \<Longrightarrow> m_step_at env t2 m1 m2 \<Longrightarrow> timed_run env t m t2 m2"

lemma m_bootstrap: "m_step env m (snd (bootstrap env now (meta :: string etcd_meta) m))"
  by (rule m_at, rule at_bootstrap)

inductive_cases m_stepE: "m_step env m m'"

definition m_start :: "('w, 'm) manager \<Rightarrow> bool" where
  "m_start m \<longleftrightarrow> (\<exists>tpre rpre. m = newManager newAtomicRouter tpre rpre)"

text \<open>
  Every connection given out is active, draining or closed, and only one of them; the
  published routes use active connections only.
\<close>

definition drained :: "('w, 'm) manager \<Rightarrow> nat list" where
  "drained m = concat (map snd (m_draining m))"

definition accounted :: "nat set \<Rightarrow> nat set \<Rightarrow> nat set \<Rightarrow> nat \<Rightarrow> bool" where
  "accounted act drn cl n \<longleftrightarrow> act \<inter> cl = {} \<and> act \<inter> drn = {} \<and> act \<union> drn \<union> cl = {..< n}"

lemma accounted_new:
  assumes "accounted act drn cl n" and "new \<inter> gone = {}" and "new \<union> gone = {n ..< k}" and "n \<le> k"
  shows "accounted new (act \<union> drn) (cl \<union> gone) k"
proof -
  have old: "act \<union> drn \<union> cl = {..< n}" using assms(1) by (simp add: accounted_def)
  have "new \<subseteq> {n ..< k}" using assms(3) by (metis Un_upper1)
  then have disj: "new \<inter> (act \<union> drn \<union> cl) = {}" unfolding old by auto
  have "{..< n} \<union> {n ..< k} = {..< k}" using assms(4) by auto
  then have "(act \<union> drn \<union> cl) \<union> (new \<union> gone) = {..< k}" by (simp only: old assms(3))
  then have "new \<union> (act \<union> drn) \<union> (cl \<union> gone) = {..< k}" by (simp only: Un_ac)
  moreover have "new \<inter> (cl \<union> gone) = {}" "new \<inter> (act \<union> drn) = {}"
    using disj assms(2) by (simp_all add: Int_Un_distrib)
  ultimately show ?thesis by (simp add: accounted_def)
qed

lemma accounted_gone:
  assumes "accounted act drn cl n" and "gone = {n ..< k}" and "n \<le> k"
  shows "accounted act drn (cl \<union> gone) k"
proof -
  have old: "act \<union> drn \<union> cl = {..< n}" using assms(1) by (simp add: accounted_def)
  then have "act \<subseteq> {..< n}" by (metis Un_upper1 Un_assoc)
  then have "act \<inter> gone = {}" by (auto simp: assms(2))
  moreover have "{..< n} \<union> {n ..< k} = {..< k}" using assms(3) by auto
  then have "(act \<union> drn \<union> cl) \<union> gone = {..< k}" by (simp only: old assms(2))
  then have "act \<union> drn \<union> (cl \<union> gone) = {..< k}" by (simp only: Un_ac)
  ultimately show ?thesis using assms(1) by (simp add: accounted_def Int_Un_distrib)
qed

lemma accounted_drained:
  assumes "accounted act (gone \<union> drn) cl n"
  shows "accounted act drn (cl \<union> gone) n"
proof -
  have "act \<union> drn \<union> (cl \<union> gone) = {..< n}"
    using assms by (simp add: accounted_def Un_ac)
  with assms show ?thesis by (simp add: accounted_def Int_Un_distrib)
qed

definition conns_ok :: "('w, 'm) manager \<Rightarrow> bool" where
  "conns_ok m \<longleftrightarrow> accounted (set (m_activeConns m)) (set (drained m)) (m_closed m) (m_next m)"

definition routes_live :: "'w build_env \<Rightarrow> ('w, 'm) manager \<Rightarrow> bool" where
  "routes_live env m \<longleftrightarrow>
     (\<forall>method b. router_get (m_router m) method = Some b \<longrightarrow>
        (\<exists>c \<in> set (m_activeConns m). \<exists>r. rb_handler b = wrapIngress (be_call env c) r))"

definition m_inv :: "'w build_env \<Rightarrow> ('w, 'm) manager \<Rightarrow> bool" where
  "m_inv env m \<longleftrightarrow> conns_ok m \<and> routes_live env m"

lemma m_inv_start: "m_start m \<Longrightarrow> m_inv env m"
  by (auto simp: m_start_def newManager_def m_inv_def conns_ok_def accounted_def routes_live_def
      drained_def)

lemma router_get_store_routes: "router_get (router_store (Some r) a) m = routes_get (Some r) m"
  by (simp add: router_get_def router_store_def)

lemma m_inv_failed:
  assumes "m_inv env m" and "set cl = {m_next m ..< n}" and "m_next m \<le> n"
  shows "m_inv env (m\<lparr>m_next := n, m_closed := m_closed m \<union> set cl\<rparr>)"
  using assms accounted_gone[OF _ assms(2,3)]
  by (simp add: m_inv_def conns_ok_def routes_live_def drained_def)

lemma m_inv_adopt:
  assumes inv: "m_inv env m"
    and handles: "set conns \<inter> set cl = {}" "set conns \<union> set cl = {m_next m ..< n}" "m_next m \<le> n"
    and live: "\<And>x b. routes_get (Some routes) x = Some b \<Longrightarrow>
      \<exists>c \<in> set conns. \<exists>r. rb_handler b = wrapIngress (be_call env c) r"
  shows "m_inv env (m\<lparr>m_next := n, m_closed := m_closed m \<union> set cl, m_nextWatchRev := next_rev,
    m_router := router_store (Some routes) (m_router m), m_activeConns := conns,
    m_draining := (if m_activeConns m = [] then m_draining m
                   else (now + m_drainDelay m, m_activeConns m) # m_draining m)\<rparr>)"
    (is "m_inv env ?m")
proof -
  have drained: "set (drained ?m) = set (m_activeConns m) \<union> set (drained m)"
    by (simp add: drained_def)
  have "conns_ok ?m"
    using accounted_new[OF _ handles] inv unfolding conns_ok_def drained m_inv_def by simp
  moreover have "routes_live env ?m"
    using live by (simp add: routes_live_def router_get_store_routes)
  ultimately show ?thesis by (simp add: m_inv_def)
qed

lemma m_inv_bootstrap:
  fixes m :: "('w, 'm) manager" and meta :: "'e etcd_meta"
  assumes inv: "m_inv env m"
  shows "m_inv env (snd (bootstrap env now meta m))"
proof -
  obtain r n cl where b: "(build env (m_typesPrefix m) (m_routesPrefix m) meta (m_next m)
      :: ('e build_error, ('w, 'm) ws_handler atomic_routes \<times> nat list \<times> int) result \<times> nat \<times> nat list)
      = (r, n, cl)"
    by (metis prod.exhaust)
  show ?thesis
  proof (cases r)
    case (Inl e)
    then show ?thesis
      using m_inv_failed[OF inv build_failure[OF b[unfolded Inl]]] by (simp add: bootstrap_def b)
  next
    case (Inr x)
    obtain routes conns next_rev where x: "x = (routes, conns, next_rev)" by (cases x)
    note b' = b[unfolded Inr x]
    show ?thesis
      using m_inv_adopt[OF inv build_handles(2-4)[OF b'] build_bindings_live[OF b']]
      by (simp add: bootstrap_def b' split: if_splits)
  qed
qed

lemma set_remove1_insert: "x \<in> set xs \<Longrightarrow> set xs = insert x (set (remove1 x xs))"
  by (induction xs) auto

lemma m_inv_drain:
  assumes "m_inv env m" and "d \<in> set (m_draining m)"
  shows "m_inv env (drain d m)"
proof -
  have "set (m_draining m) = insert d (set (remove1 d (m_draining m)))"
    using assms(2) by (rule set_remove1_insert)
  then have perm: "set (drained m) = set (snd d) \<union> set (drained (drain d m))"
    by (simp add: drained_def drain_def)
  have "conns_ok (drain d m)"
    using assms(1) accounted_drained[of "set (m_activeConns m)" "set (snd d)"]
    by (simp add: m_inv_def conns_ok_def perm) (simp add: drain_def)
  moreover have "routes_live env (drain d m)"
    using assms(1) by (simp add: m_inv_def routes_live_def drain_def)
  ultimately show ?thesis by (simp add: m_inv_def)
qed

lemma m_inv_step:
  assumes "m_inv env m" and "m_step env m m'"
  shows "m_inv env m'"
proof -
  obtain now where "m_step_at env now m m'" using assms(2) by (cases rule: m_step.cases)
  then show ?thesis
  proof (cases rule: m_step_at.cases)
    case (at_bootstrap meta)
    with assms(1) show ?thesis by (simp add: m_inv_bootstrap)
  next
    case (at_run ev)
    have "m_inv env (scheduleReload now m)"
      using assms(1)
      by (simp add: scheduleReload_def m_inv_def conns_ok_def routes_live_def drained_def)
    with at_run assms(1) show ?thesis by (cases ev) (simp_all add: m_inv_bootstrap)
  next
    case (at_timer t meta)
    have "m_inv env (m\<lparr>m_reloadTimer := None\<rparr>)"
      using assms(1) by (simp add: m_inv_def conns_ok_def routes_live_def drained_def)
    with at_timer show ?thesis by (simp add: timer_fires_def m_inv_bootstrap)
  next
    case (at_drain d)
    with assms(1) show ?thesis by (simp add: m_inv_drain)
  qed
qed

interpretation mgr: safe_system m_start "m_step env" "m_inv env" for env
  by unfold_locales (auto intro: m_inv_start m_inv_step)

section \<open>Properties\<close>

text \<open>
  At every moment before shutdown, whatever the interleaving of bootstraps, watch
  events, debounce timers and drains, every published route forwards over a connection that
  is active: not closed, and not handed to a drain goroutine that will close it.
\<close>

theorem published_routes_use_open_connections:
  assumes "reachable m_start (m_step env) m"
    and "router_get (m_router m) method = Some b"
  shows "\<exists>c \<in> set (m_activeConns m). \<exists>r. rb_handler b = wrapIngress (be_call env c) r \<and>
    c \<notin> m_closed m \<and> c \<notin> set (drained m)"
proof -
  have inv: "m_inv env m" using mgr.reachable_inv[OF assms(1)] .
  then obtain c r where c: "c \<in> set (m_activeConns m)" "rb_handler b = wrapIngress (be_call env c) r"
    using assms(2) unfolding m_inv_def routes_live_def by blast
  have "set (m_activeConns m) \<inter> m_closed m = {}" "set (m_activeConns m) \<inter> set (drained m) = {}"
    using inv by (simp_all add: m_inv_def conns_ok_def accounted_def)
  then have "c \<notin> m_closed m" "c \<notin> set (drained m)" using c(1) by auto
  with c show ?thesis by auto
qed

lemma m_bootstrap_eq: "m_step env m m'" if "m' = snd (bootstrap env now (meta :: string etcd_meta) m)"
  unfolding that by (rule m_bootstrap)

definition demo_manager :: "(nat, unit) manager" where
  "demo_manager = snd (bootstrap demo_env 5 demo_meta_kvs (newManager newAtomicRouter ''t/'' ''r/''))"

lemma demo_manager_reachable: "reachable m_start (m_step demo_env) demo_manager"
proof -
  have "reachable m_start (m_step demo_env) (newManager newAtomicRouter ''t/'' ''r/'')"
    by (rule reachable_start) (auto simp: m_start_def)
  then show ?thesis
    by (rule reachable_step) (rule m_bootstrap_eq[OF demo_manager_def])
qed

lemma demo_manager_build:
  "\<exists>routes :: (nat, unit) ws_handler atomic_routes.
     build demo_env ''t/'' ''r/'' demo_meta_kvs 0 = (Inr (routes, [0], 13), 1, []) \<and>
     routes_get (Some routes) ''/Login'' \<noteq> None"
  by (simp add: build_def demo_meta_kvs_def build_eval newAtomicRoutes_def routes_get_def
      add_binding_def)

lemma published_routes_use_open_connections_witness:
  "\<exists>b. router_get (m_router demo_manager) ''/Login'' = Some b \<and>
     (\<exists>c \<in> {0}. \<exists>r. rb_handler b = wrapIngress (be_call demo_env c) r)"
proof -
  obtain routes :: "(nat, unit) ws_handler atomic_routes" where
    b: "build demo_env ''t/'' ''r/'' demo_meta_kvs 0 = (Inr (routes, [0], 13), 1, [])"
    and some: "routes_get (Some routes) ''/Login'' \<noteq> None"
    using demo_manager_build by blast
  have m: "m_activeConns demo_manager = [0]"
    "router_get (m_router demo_manager) ''/Login'' = routes_get (Some routes) ''/Login''"
    by (simp_all add: demo_manager_def bootstrap_def newManager_def b router_get_store_routes)
  obtain x where x: "router_get (m_router demo_manager) ''/Login'' = Some x" using some m(2) by auto
  show ?thesis
    using published_routes_use_open_connections[OF demo_manager_reachable x] x m(1) by auto
qed

text \<open>
  C26. A bootstrap that fails, for whatever reason, changes nothing the gateway serves with:
  the published routes, the active connections, the connections being drained and the watch
  revision stay, and whatever it dialled is closed again.
\<close>

theorem failed_bootstrap_keeps_serving:
  assumes "bootstrap env now meta m = (Some e, m')"
  shows "m_router m' = m_router m \<and> m_activeConns m' = m_activeConns m \<and>
    m_draining m' = m_draining m \<and> m_nextWatchRev m' = m_nextWatchRev m \<and>
    m_closed m' = m_closed m \<union> {m_next m ..< m_next m'}"
  using assms
  by (auto simp: bootstrap_def split: prod.splits sum.splits dest!: build_failure(1))

lemma failed_bootstrap_keeps_serving_witness:
  "m_router (snd (bootstrap demo_env 9 \<lparr>em_types = Inr ([], 4), em_routes = Inl ''timeout''\<rparr>
     demo_manager)) = m_router demo_manager"
proof -
  let ?meta = "\<lparr>em_types = Inr ([], 4), em_routes = Inl ''timeout''\<rparr> :: string etcd_meta"
  have "bootstrap demo_env 9 ?meta demo_manager =
      (Some Empty_service_types, snd (bootstrap demo_env 9 ?meta demo_manager))"
    by (simp add: bootstrap_def build_def)
  from failed_bootstrap_keeps_serving[OF this] show ?thesis by simp
qed

text \<open>The delay never changes.\<close>

lemma bootstrap_delay: "m_drainDelay (snd (bootstrap env now meta m)) = m_drainDelay m"
  by (simp add: bootstrap_def split: prod.split sum.split)

lemma run_turn_delay: "m_drainDelay (snd (run_turn env now ev m)) = m_drainDelay m"
  by (cases ev) (simp_all add: bootstrap_delay scheduleReload_def)

lemma step_at_delay: "m_step_at env now m m' \<Longrightarrow> m_drainDelay m' = m_drainDelay m"
  by (auto elim!: m_step_at.cases simp: bootstrap_delay run_turn_delay timer_fires_def drain_def)

lemma reachable_delay: "reachable m_start (m_step env) m \<Longrightarrow> m_drainDelay m = 30 * 10 ^ 9"
  by (induction rule: reachable.induct)
     (auto simp: m_start_def newManager_def step_at_delay elim!: m_step.cases)

text \<open>A connection that stays open until the delay after \<open>t0\<close> is over.\<close>

definition kept_open :: "int \<Rightarrow> nat \<Rightarrow> ('w, 'm) manager \<Rightarrow> bool" where
  "kept_open t0 c m \<longleftrightarrow> c \<notin> m_closed m \<and> c < m_next m \<and>
     (\<forall>d \<in> set (m_draining m). c \<in> set (snd d) \<longrightarrow> t0 + m_drainDelay m \<le> fst d)"

lemma kept_open_bootstrap:
  fixes m :: "('w, 'm) manager" and meta :: "'e etcd_meta"
  assumes "kept_open t0 c m" and "t0 \<le> now"
  shows "kept_open t0 c (snd (bootstrap env now meta m))"
proof -
  obtain r n cl where b: "(build env (m_typesPrefix m) (m_routesPrefix m) meta (m_next m)
      :: ('e build_error, ('w, 'm) ws_handler atomic_routes \<times> nat list \<times> int) result \<times> nat \<times> nat list)
      = (r, n, cl)"
    by (metis prod.exhaust)
  have "set cl \<subseteq> {m_next m ..< n} \<and> m_next m \<le> n"
  proof (cases r)
    case (Inl e)
    then show ?thesis using build_failure[OF b[unfolded Inl]] by simp
  next
    case (Inr x)
    obtain routes conns next_rev where x: "x = (routes, conns, next_rev)" by (cases x)
    show ?thesis using build_handles(2-4)[OF b[unfolded Inr x]] by blast
  qed
  then have new: "c \<notin> set cl" "c < n" using assms(1) by (auto simp: kept_open_def)
  show ?thesis using assms new
    by (auto simp: kept_open_def bootstrap_def b split: sum.split prod.split)
qed

lemma kept_open_step:
  assumes "kept_open t0 c m" and "m_step_at env now m m'" and "t0 \<le> now" and "now < t0 + m_drainDelay m"
  shows "kept_open t0 c m'"
  using assms(2)
proof (cases rule: m_step_at.cases)
  case (at_bootstrap meta)
  then show ?thesis using kept_open_bootstrap[OF assms(1,3)] by simp
next
  case (at_run ev)
  then show ?thesis using assms(1) kept_open_bootstrap[OF assms(1,3)]
    by (cases ev) (simp_all add: scheduleReload_def kept_open_def)
next
  case (at_timer t meta)
  have "kept_open t0 c (m\<lparr>m_reloadTimer := None\<rparr>)" using assms(1) by (simp add: kept_open_def)
  then show ?thesis using kept_open_bootstrap[OF _ assms(3)] at_timer by (simp add: timer_fires_def)
next
  case (at_drain d)
  then show ?thesis using assms(1,4) by (force simp: kept_open_def drain_def dest: notin_set_remove1)
qed

lemma kept_open_run:
  assumes "timed_run env t m t' m'" and "kept_open t c m" and "t' < t + m_drainDelay m"
  shows "t \<le> t' \<and> m_drainDelay m' = m_drainDelay m \<and> kept_open t c m'"
  using assms
proof (induction rule: timed_run.induct)
  case (run_on t1 m1 t2 m2)
  then have "t \<le> t1" "m_drainDelay m1 = m_drainDelay m" "kept_open t c m1" by simp_all
  then show ?case using run_on kept_open_step[OF _ run_on(3)] step_at_delay[OF run_on(3)] by simp
qed simp

text \<open>
  C5. A call outlives a reload: the connection of a route that was looked up at some time is
  not closed during the 30 seconds that follow, however often the routes are rebuilt, the
  watch ends or drains run in between, on any clock that does not go back.
\<close>

theorem calls_outlive_reloads:
  assumes "reachable m_start (m_step env) m" and "router_get (m_router m) method = Some b"
    and "timed_run env t m t' m'" and "t' < t + 30 * 10 ^ 9"
  shows "\<exists>c \<in> set (m_activeConns m). \<exists>r. rb_handler b = wrapIngress (be_call env c) r \<and> c \<notin> m_closed m'"
proof -
  have inv: "m_inv env m" using mgr.reachable_inv[OF assms(1)] .
  then obtain c r where c: "c \<in> set (m_activeConns m)" "rb_handler b = wrapIngress (be_call env c) r"
    using assms(2) unfolding m_inv_def routes_live_def by blast
  have "c \<notin> m_closed m" "c \<notin> set (drained m)" "c < m_next m"
    using inv c(1) by (auto simp: m_inv_def conns_ok_def accounted_def)
  then have "kept_open t c m" by (auto simp: kept_open_def drained_def)
  then have "c \<notin> m_closed m'"
    using kept_open_run[OF assms(3)] assms(4) reachable_delay[OF assms(1)] by (simp add: kept_open_def)
  with c show ?thesis by blast
qed

lemma calls_outlive_reloads_witness:
  "\<exists>m'. timed_run demo_env 5 demo_manager 9 m' \<and> m_draining m' = [(9 + 30 * 10 ^ 9, [0])] \<and> 0 \<notin> m_closed m'"
proof -
  let ?m = "snd (bootstrap demo_env 9 demo_meta_kvs demo_manager)"
  obtain routes :: "(nat, unit) ws_handler atomic_routes" where
    b: "build demo_env ''t/'' ''r/'' demo_meta_kvs 0 = (Inr (routes, [0], 13), 1, [])"
    and some: "routes_get (Some routes) ''/Login'' \<noteq> None"
    using demo_manager_build by blast
  obtain routes' :: "(nat, unit) ws_handler atomic_routes" where
    b': "build demo_env ''t/'' ''r/'' demo_meta_kvs (Suc 0) = (Inr (routes', [Suc 0], 13), 2, [])"
    by (simp add: build_def demo_meta_kvs_def build_eval)
  have m: "m_activeConns demo_manager = [0]" "m_next demo_manager = Suc 0" "m_draining demo_manager = []"
    "m_typesPrefix demo_manager = ''t/''" "m_routesPrefix demo_manager = ''r/''" "m_drainDelay demo_manager = 30 * 10 ^ 9"
    "router_get (m_router demo_manager) ''/Login'' = routes_get (Some routes) ''/Login''"
    by (simp_all add: demo_manager_def bootstrap_def newManager_def b router_get_store_routes)
  obtain x where x: "router_get (m_router demo_manager) ''/Login'' = Some x" using some m(7) by auto
  have run: "timed_run demo_env 5 demo_manager 9 ?m"
    by (rule run_on[OF run_here _ at_bootstrap]) simp
  have "m_draining ?m = [(9 + 30 * 10 ^ 9, [0])]" by (simp add: bootstrap_def m(1-6) b')
  then show ?thesis
    using calls_outlive_reloads[OF demo_manager_reachable x run] run m(1) by auto
qed

text \<open>
  No connection is ever lost: every connection a bootstrap dialled is active, waiting to
  be drained, or closed.
\<close>

theorem every_connection_accounted:
  assumes "reachable m_start (m_step env) m"
  shows "{..< m_next m} = set (m_activeConns m) \<union> set (drained m) \<union> m_closed m"
  using mgr.reachable_inv[OF assms] by (simp add: m_inv_def conns_ok_def accounted_def)

lemma every_connection_accounted_witness:
  "{..< m_next demo_manager} =
     set (m_activeConns demo_manager) \<union> set (drained demo_manager) \<union> m_closed demo_manager"
  using every_connection_accounted[OF demo_manager_reachable] by blast

section \<open>After \<open>Close\<close>\<close>

text \<open>
  \<open>Close\<close> stops nothing: the timer and the watch loop may still rebuild. What is left open from
  then on: \<open>gone\<close> are the connections \<open>Close\<close> closed, \<open>waiting\<close> those that waited for a drain
  goroutine, \<open>n\<close> is how many had been dialled.
\<close>

definition after_close :: "nat set \<Rightarrow> nat set \<Rightarrow> nat \<Rightarrow> ('w, 'm) manager \<Rightarrow> bool" where
  "after_close gone waiting n m \<longleftrightarrow>
     n \<le> m_next m \<and> gone \<subseteq> m_closed m \<and> set (m_activeConns m) \<subseteq> {n ..< m_next m} \<and>
     set (drained m) \<subseteq> waiting \<union> {n ..< m_next m} \<and>
     {..< m_next m} \<subseteq> set (m_activeConns m) \<union> set (drained m) \<union> m_closed m"

lemma after_close_start:
  "m_inv env m \<Longrightarrow> after_close (set (m_activeConns m)) (set (drained m)) (m_next m) (m_close m)"
  by (auto simp: m_inv_def conns_ok_def accounted_def after_close_def m_close_def drained_def)

lemma after_close_again: "after_close gone waiting n m \<Longrightarrow> after_close gone waiting n (m_close m)"
  by (auto simp: after_close_def m_close_def drained_def)

lemma after_close_bootstrap:
  fixes m :: "('w, 'm) manager" and meta :: "'e etcd_meta"
  assumes "after_close gone waiting n m"
  shows "after_close gone waiting n (snd (bootstrap env now meta m))"
proof -
  obtain r k cl where b: "(build env (m_typesPrefix m) (m_routesPrefix m) meta (m_next m)
      :: ('e build_error, ('w, 'm) ws_handler atomic_routes \<times> nat list \<times> int) result \<times> nat \<times> nat list)
      = (r, k, cl)"
    by (metis prod.exhaust)
  show ?thesis
  proof (cases r)
    case (Inl e)
    note h = build_failure[OF b[unfolded Inl]]
    have "{..< k} \<subseteq> {..< m_next m} \<union> {m_next m ..< k}" by auto
    moreover have "{n ..< m_next m} \<subseteq> {n ..< k}" using h(2) by auto
    moreover have "n \<le> k" using assms h(2) by (simp add: after_close_def)
    moreover let ?m = "snd (bootstrap env now meta m)"
    have "m_next ?m = k" "m_activeConns ?m = m_activeConns m" "m_closed ?m = m_closed m \<union> {m_next m ..< k}"
      "drained ?m = drained m"
      by (simp_all add: bootstrap_def b Inl h(1) drained_def)
    ultimately show ?thesis using assms unfolding after_close_def by (simp only:) blast
  next
    case (Inr x)
    obtain routes conns next_rev where x: "x = (routes, conns, next_rev)" by (cases x)
    note h = build_handles(2-4)[OF b[unfolded Inr x]]
    have n: "n \<le> m_next m" using assms by (simp add: after_close_def)
    have "set conns \<subseteq> {m_next m ..< k}" using h(2) by blast
    moreover have "{m_next m ..< k} \<subseteq> {n ..< k}" using n by auto
    ultimately have new: "set conns \<subseteq> {n ..< k}" by (rule order_trans)
    have old: "{n ..< m_next m} \<subseteq> {n ..< k}" using h(3) by auto
    have all: "{..< k} \<subseteq> {..< m_next m} \<union> (set conns \<union> set cl)" unfolding h(2) by auto
    let ?m = "snd (bootstrap env now meta m)"
    have m: "m_next ?m = k" "m_activeConns ?m = conns" "m_closed ?m = m_closed m \<union> set cl"
      "set (drained ?m) = set (drained m) \<union> set (m_activeConns m)"
      by (auto simp: bootstrap_def b Inr x drained_def)
    have "n \<le> k" using n h(3) by (rule order_trans)
    then show ?thesis using assms new old all unfolding after_close_def m by (simp only:) blast
  qed
qed

lemma after_close_step:
  assumes "after_close gone waiting n m" and "m_step env m m'"
  shows "after_close gone waiting n m'"
proof -
  obtain now where "m_step_at env now m m'" using assms(2) by (cases rule: m_step.cases)
  then show ?thesis
  proof (cases rule: m_step_at.cases)
    case (at_bootstrap meta)
    then show ?thesis using after_close_bootstrap[OF assms(1)] by simp
  next
    case (at_run ev)
    then show ?thesis using assms(1) after_close_bootstrap[OF assms(1)]
      by (cases ev) (simp_all add: scheduleReload_def after_close_def drained_def)
  next
    case (at_timer t meta)
    have "after_close gone waiting n (m\<lparr>m_reloadTimer := None\<rparr>)"
      using assms(1) by (simp add: after_close_def drained_def)
    then show ?thesis using after_close_bootstrap at_timer by (simp add: timer_fires_def)
  next
    case (at_drain d)
    have "set (m_draining m) = insert d (set (remove1 d (m_draining m)))"
      by (rule set_remove1_insert[OF at_drain(2)])
    then have "set (drained m) = set (snd d) \<union> set (drained m')"
      by (simp add: drained_def at_drain(1) drain_def)
    then show ?thesis using assms(1) by (auto simp: after_close_def at_drain(1) drain_def)
  qed
qed

end
