(* ===== verification/Dsroute.thy ===== *)
theory Dsroute
  imports Go_Json
begin

text \<open>
  Package \<open>pkg/dsroute\<close>: routing keys to named connection pools by longest prefix.
  \<open>lpm.go\<close> (the match and the duplicate check), \<open>config.go\<close> and \<open>build.go\<close> (the
  configuration and its validation), \<open>router.go\<close> (the router and its hot update) and
  \<open>loader.go\<close> (rules from etcd). The match is shown equal to a declarative
  longest-prefix specification; the locale \<open>pool_router\<close> is the interface the services
  use, interpreted for the MySQL and the Redis side.
\<close>

section \<open>Longest prefix match (\<open>lpm.go\<close>)\<close>

record route_rule =
  rr_prefix :: string
  rr_pool :: string

datatype route_error =
    NoMatchingRoute string
  | DuplicatePrefix string nat nat string string
  | PoolNotFound nat string

text \<open>The loop of \<open>ResolvePoolName\<close>: the best candidate so far and its length, -1 for none.\<close>

definition resolve_step ::
  "string \<Rightarrow> route_rule option \<times> int \<Rightarrow> route_rule \<Rightarrow> route_rule option \<times> int" where
  "resolve_step key st rule =
     (let (best, best_len) = st; effective_len = int (length (rr_prefix rule))
      in if rr_prefix rule = []
         then (if best_len < 0 then (Some rule, 0) else (best, best_len))
         else if prefix (rr_prefix rule) key
         then (if best_len < effective_len then (Some rule, effective_len) else (best, best_len))
         else (best, best_len))"

definition resolvePoolName ::
  "route_rule list \<Rightarrow> string \<Rightarrow> (route_error, string \<times> string) result" where
  "resolvePoolName rules key =
     (case foldl (resolve_step key) (None, - 1) rules of
        (None, _) \<Rightarrow> Inl (NoMatchingRoute key)
      | (Some r, _) \<Rightarrow> Inr (rr_pool r, rr_prefix r))"

text \<open>\<open>ValidateRoutes\<close>: the index at which each prefix was seen first.\<close>

fun validate_from ::
  "route_rule list \<Rightarrow> (string \<Rightarrow> nat option) \<Rightarrow> nat \<Rightarrow> route_rule list \<Rightarrow> route_error option" where
  "validate_from rules seen i [] = None"
| "validate_from rules seen i (r # rs) =
     (case seen (rr_prefix r) of
        Some first_idx \<Rightarrow>
          Some (DuplicatePrefix (rr_prefix r) first_idx i (rr_pool (rules ! first_idx)) (rr_pool r))
      | None \<Rightarrow> validate_from rules (seen(rr_prefix r \<mapsto> i)) (Suc i) rs)"

definition validateRoutes :: "route_rule list \<Rightarrow> route_error option" where
  "validateRoutes rules = validate_from rules Map.empty 0 rules"

subsection \<open>The specification\<close>

text \<open>
  The rules whose prefix the key has (the empty prefix is every key's), in table order. A
  rule is the match when it is one of them, no earlier one is as long and no later one is
  longer.
\<close>

definition candidates :: "route_rule list \<Rightarrow> string \<Rightarrow> route_rule list" where
  "candidates rules key = filter (\<lambda>r. prefix (rr_prefix r) key) rules"

definition first_longest :: "route_rule list \<Rightarrow> route_rule \<Rightarrow> bool" where
  "first_longest cs r \<longleftrightarrow>
     (\<exists>ys zs. cs = ys @ r # zs \<and>
        (\<forall>y \<in> set ys. length (rr_prefix y) < length (rr_prefix r)) \<and>
        (\<forall>z \<in> set zs. length (rr_prefix z) \<le> length (rr_prefix r)))"

definition is_lpm :: "route_rule list \<Rightarrow> string \<Rightarrow> route_rule \<Rightarrow> bool" where
  "is_lpm rules key r \<longleftrightarrow> first_longest (candidates rules key) r"

lemma candidates_snoc:
  "candidates (rules @ [x]) key =
     (if prefix (rr_prefix x) key then candidates rules key @ [x] else candidates rules key)"
  by (simp add: candidates_def)

lemma first_longest_single: "first_longest [r] r"
  unfolding first_longest_def by fastforce

lemma first_longest_snoc_longer:
  "first_longest cs r \<Longrightarrow> length (rr_prefix r) < length (rr_prefix x) \<Longrightarrow> first_longest (cs @ [x]) x"
  unfolding first_longest_def by (rule exI [of _ cs], rule exI [of _ "[]"]) fastforce

lemma first_longest_snoc_shorter:
  assumes "first_longest cs r" and "length (rr_prefix x) \<le> length (rr_prefix r)"
  shows "first_longest (cs @ [x]) r"
proof -
  obtain ys zs where "cs = ys @ r # zs"
    and "\<forall>y \<in> set ys. length (rr_prefix y) < length (rr_prefix r)"
    and "\<forall>z \<in> set zs. length (rr_prefix z) \<le> length (rr_prefix r)"
    using assms(1) unfolding first_longest_def by blast
  with assms(2) show ?thesis
    unfolding first_longest_def by (intro exI [of _ ys] exI [of _ "zs @ [x]"]) auto
qed

lemma first_longest_in_set: "first_longest cs r \<Longrightarrow> r \<in> set cs"
  by (auto simp: first_longest_def)

lemma first_longest_max:
  "first_longest cs r \<Longrightarrow> x \<in> set cs \<Longrightarrow> length (rr_prefix x) \<le> length (rr_prefix r)"
  by (fastforce simp: first_longest_def)

lemma resolve_step_Pair:
  "resolve_step key (best, n) x =
     (if prefix (rr_prefix x) key \<and> n < int (length (rr_prefix x))
      then (Some x, int (length (rr_prefix x))) else (best, n))"
  by (auto simp: resolve_step_def Let_def)

text \<open>The loop's state: no candidate yet, or the first of the longest so far.\<close>

lemma resolve_loop_state:
  "case foldl (resolve_step key) (None, - 1) rules of
     (None, n) \<Rightarrow> n = - 1 \<and> candidates rules key = []
   | (Some r, n) \<Rightarrow> n = int (length (rr_prefix r)) \<and> is_lpm rules key r"
proof (induction rules rule: rev_induct)
  case Nil
  then show ?case by (simp add: candidates_def)
next
  case (snoc x rules)
  show ?case
  proof (cases "foldl (resolve_step key) (None, - 1) rules")
    case (Pair best n)
    then show ?thesis
      using snoc.IH first_longest_snoc_longer [of "candidates rules key" _ x]
        first_longest_snoc_shorter [of "candidates rules key" _ x]
      by (cases best)
         (auto simp: resolve_step_Pair is_lpm_def candidates_snoc first_longest_single)
  qed
qed

lemma is_lpm_unique:
  assumes "is_lpm rules key r" and "is_lpm rules key r'"
  shows "r = r'"
proof -
  obtain ys zs ys' zs' where *: "candidates rules key = ys @ r # zs"
    "\<forall>y \<in> set ys. length (rr_prefix y) < length (rr_prefix r)"
    "\<forall>z \<in> set zs. length (rr_prefix z) \<le> length (rr_prefix r)"
    and **: "candidates rules key = ys' @ r' # zs'"
    "\<forall>y \<in> set ys'. length (rr_prefix y) < length (rr_prefix r')"
    "\<forall>z \<in> set zs'. length (rr_prefix z) \<le> length (rr_prefix r')"
    using assms unfolding is_lpm_def first_longest_def by metis
  have "ys @ r # zs = ys' @ r' # zs'" using * ** by simp
  then have "(\<exists>us. ys = ys' @ us \<and> us @ r # zs = r' # zs') \<or>
      (\<exists>us. ys @ us = ys' \<and> r # zs = us @ r' # zs')"
    unfolding append_eq_append_conv2 by blast
  then show ?thesis
  proof
    assume "\<exists>us. ys = ys' @ us \<and> us @ r # zs = r' # zs'"
    then obtain us where us: "ys = ys' @ us" "us @ r # zs = r' # zs'" by blast
    show ?thesis
    proof (cases us)
      case (Cons u vs)
      with us have "r' \<in> set ys" and "r \<in> set zs'" by auto
      with *(2) **(3) show ?thesis by fastforce
    qed (use us in simp)
  next
    assume "\<exists>us. ys @ us = ys' \<and> r # zs = us @ r' # zs'"
    then obtain us where us: "ys @ us = ys'" "r # zs = us @ r' # zs'" by blast
    show ?thesis
    proof (cases us)
      case (Cons u vs)
      with us have "r \<in> set ys'" and "r' \<in> set zs" by auto
      with **(2) *(3) show ?thesis by fastforce
    qed (use us in simp)
  qed
qed

lemma resolvePoolName_Inr:
  "resolvePoolName rules key = Inr (pool, pfx) \<longleftrightarrow>
     (\<exists>r. is_lpm rules key r \<and> rr_pool r = pool \<and> rr_prefix r = pfx)"
proof -
  obtain best n where st: "foldl (resolve_step key) (None, - 1) rules = (best, n)"
    by (cases "foldl (resolve_step key) (None, - 1) rules")
  show ?thesis
  proof (cases best)
    case None
    with st resolve_loop_state [where key = key and rules = rules] have "candidates rules key = []" by simp
    then have "\<not> is_lpm rules key r" for r by (simp add: is_lpm_def first_longest_def)
    with st None show ?thesis by (simp add: resolvePoolName_def)
  next
    case (Some r)
    with st resolve_loop_state [where key = key and rules = rules] have "is_lpm rules key r" by simp
    with st Some show ?thesis
      by (auto simp: resolvePoolName_def dest: is_lpm_unique)
  qed
qed

lemma resolvePoolName_Inl:
  "resolvePoolName rules key = Inl e \<longleftrightarrow>
     e = NoMatchingRoute key \<and> (\<forall>r \<in> set rules. \<not> prefix (rr_prefix r) key)"
proof -
  obtain best n where st: "foldl (resolve_step key) (None, - 1) rules = (best, n)"
    by (cases "foldl (resolve_step key) (None, - 1) rules")
  show ?thesis
    using st resolve_loop_state [where key = key and rules = rules]
    by (cases best)
       (auto simp: resolvePoolName_def is_lpm_def candidates_def filter_empty_conv
        dest!: first_longest_in_set)
qed

lemma is_lpm_candidate:
  assumes "is_lpm rules key r"
  shows "r \<in> set rules" and "prefix (rr_prefix r) key"
    and "\<And>r'. r' \<in> set rules \<Longrightarrow> prefix (rr_prefix r') key \<Longrightarrow>
           length (rr_prefix r') \<le> length (rr_prefix r)"
  using assms first_longest_in_set [of "candidates rules key" r]
    first_longest_max [of "candidates rules key" r]
  by (auto simp: is_lpm_def candidates_def)

subsection \<open>Duplicate prefixes\<close>

lemma prefixes_same_length:
  "prefix (a :: 'a list) key \<Longrightarrow> prefix b key \<Longrightarrow> length a = length b \<Longrightarrow> a = b"
  by (metis append_eq_append_conv prefix_def)

text \<open>Without duplicates the match does not depend on the order of the table.\<close>

lemma is_lpm_distinct:
  assumes "distinct (map rr_prefix rules)"
  shows "is_lpm rules key r \<longleftrightarrow>
     r \<in> set rules \<and> prefix (rr_prefix r) key \<and>
     (\<forall>r' \<in> set rules. prefix (rr_prefix r') key \<longrightarrow> length (rr_prefix r') \<le> length (rr_prefix r))"
    (is "_ \<longleftrightarrow> ?R r")
proof
  assume "is_lpm rules key r"
  then show "?R r" using is_lpm_candidate by blast
next
  assume R: "?R r"
  then have "resolvePoolName rules key \<noteq> Inl e" for e
    using resolvePoolName_Inl by blast
  then obtain pool pfx where "resolvePoolName rules key = Inr (pool, pfx)"
    by (cases "resolvePoolName rules key") auto
  then obtain m where m: "is_lpm rules key m"
    using resolvePoolName_Inr by blast
  have "length (rr_prefix m) = length (rr_prefix r)"
    using R is_lpm_candidate [OF m] by (simp add: order_antisym)
  then have "rr_prefix m = rr_prefix r"
    using R is_lpm_candidate(2) [OF m] prefixes_same_length by blast
  then have "m = r"
    using assms R is_lpm_candidate(1) [OF m] by (auto simp: distinct_map inj_on_def)
  with m show "is_lpm rules key r" by simp
qed

definition seen_upto :: "route_rule list \<Rightarrow> nat \<Rightarrow> (string \<Rightarrow> nat option) \<Rightarrow> bool" where
  "seen_upto rules i seen \<longleftrightarrow>
     distinct (map rr_prefix (take i rules)) \<and>
     (\<forall>p j. seen p = Some j \<longleftrightarrow> j < i \<and> j < length rules \<and> rr_prefix (rules ! j) = p)"

lemma seen_upto_step:
  assumes "seen_upto rules i seen" and "i < length rules" and "seen (rr_prefix (rules ! i)) = None"
  shows "seen_upto rules (Suc i) (seen(rr_prefix (rules ! i) \<mapsto> i))"
proof -
  have new: "rr_prefix (rules ! j) \<noteq> rr_prefix (rules ! i)" if "j < i" for j
  proof
    assume "rr_prefix (rules ! j) = rr_prefix (rules ! i)"
    then have "seen (rr_prefix (rules ! i)) = Some j"
      using assms(1,2) that unfolding seen_upto_def by simp
    with assms(3) show False by simp
  qed
  then have "rr_prefix (rules ! i) \<notin> rr_prefix ` set (take i rules)"
    using assms(2) by (force simp: in_set_conv_nth)
  with assms new show ?thesis
    by (auto simp: seen_upto_def take_Suc_conv_app_nth less_Suc_eq split: if_splits)
qed

lemma validate_from_spec:
  assumes "seen_upto rules i seen" and "rs = drop i rules" and "i \<le> length rules"
  shows "case validate_from rules seen i rs of
      None \<Rightarrow> distinct (map rr_prefix rules)
    | Some (DuplicatePrefix p a b pa pb) \<Rightarrow>
        a < b \<and> b < length rules \<and> rr_prefix (rules ! a) = p \<and> rr_prefix (rules ! b) = p \<and>
        pa = rr_pool (rules ! a) \<and> pb = rr_pool (rules ! b) \<and>
        distinct (map rr_prefix (take b rules))
    | Some _ \<Rightarrow> False"
  using assms
proof (induction rs arbitrary: i seen)
  case Nil
  then show ?case by (simp add: seen_upto_def)
next
  case (Cons r rs)
  from Cons.prems(2) have i: "i < length rules" by (metis drop_all leI list.distinct(1))
  with Cons.prems(2) have r: "r = rules ! i" and rs: "rs = drop (Suc i) rules"
    by (simp_all add: Cons_nth_drop_Suc [symmetric])
  show ?case
  proof (cases "seen (rr_prefix r)")
    case (Some a)
    then have "a < i" and "rr_prefix (rules ! a) = rr_prefix r"
      and "distinct (map rr_prefix (take i rules))"
      using Cons.prems(1) unfolding seen_upto_def by blast+
    with i r Some show ?thesis by simp
  next
    case None
    have "seen_upto rules (Suc i) (seen(rr_prefix r \<mapsto> i))"
      using seen_upto_step [OF Cons.prems(1) i] None r by simp
    from Cons.IH [OF this rs] i have "case validate_from rules (seen(rr_prefix r \<mapsto> i)) (Suc i) rs of
        None \<Rightarrow> distinct (map rr_prefix rules)
      | Some (DuplicatePrefix p a b pa pb) \<Rightarrow>
          a < b \<and> b < length rules \<and> rr_prefix (rules ! a) = p \<and> rr_prefix (rules ! b) = p \<and>
          pa = rr_pool (rules ! a) \<and> pb = rr_pool (rules ! b) \<and>
          distinct (map rr_prefix (take b rules))
      | Some _ \<Rightarrow> False" by (simp only: Suc_le_eq)
    with None show ?thesis by (simp only: validate_from.simps option.case)
  qed
qed

lemma validateRoutes_spec:
  "case validateRoutes rules of
      None \<Rightarrow> distinct (map rr_prefix rules)
    | Some (DuplicatePrefix p a b pa pb) \<Rightarrow>
        a < b \<and> b < length rules \<and> rr_prefix (rules ! a) = p \<and> rr_prefix (rules ! b) = p \<and>
        pa = rr_pool (rules ! a) \<and> pb = rr_pool (rules ! b) \<and>
        distinct (map rr_prefix (take b rules))
    | Some _ \<Rightarrow> False"
  unfolding validateRoutes_def by (rule validate_from_spec) (simp_all add: seen_upto_def)

lemma not_distinct_witness:
  assumes "a < b" "b < length rules" "rr_prefix (rules ! a) = rr_prefix (rules ! b)"
  shows "\<not> distinct (map rr_prefix rules)"
proof -
  have "map rr_prefix rules ! a = map rr_prefix rules ! b" using assms by simp
  then show ?thesis using assms(1,2) unfolding distinct_conv_nth by fastforce
qed

lemma validateRoutes_None: "validateRoutes rules = None \<longleftrightarrow> distinct (map rr_prefix rules)"
  using validateRoutes_spec [of rules]
  by (auto split: option.splits route_error.splits dest: not_distinct_witness)

section \<open>The router (\<open>router.go\<close>)\<close>

text \<open>
  The pools are Go maps to handles; a missing key reads as the nil handle \<open>None\<close>. The two
  rule tables are separate atomic values.
\<close>

record ('db, 'rd) router =
  mysqlPools :: "string \<Rightarrow> 'db option"
  redisPools :: "string \<Rightarrow> 'rd option"
  mysqlRoutes :: "route_rule list"
  redisRoutes :: "route_rule list"

datatype router_error =
    MySQLPoolMissing nat string
  | RedisPoolMissing nat string
  | MySQLRoutesInvalid route_error
  | RedisRoutesInvalid route_error

text \<open>The first rule, if any, whose pool is not among the pools.\<close>

fun missing_pool :: "(string \<Rightarrow> 'h option) \<Rightarrow> nat \<Rightarrow> route_rule list \<Rightarrow> (nat \<times> string) option" where
  "missing_pool pools i [] = None"
| "missing_pool pools i (r # rs) =
     (if pools (rr_pool r) = None then Some (i, rr_pool r) else missing_pool pools (Suc i) rs)"

definition newRouter ::
  "(string \<Rightarrow> 'db option) \<Rightarrow> (string \<Rightarrow> 'rd option) \<Rightarrow> route_rule list \<Rightarrow> route_rule list \<Rightarrow>
   (router_error, ('db, 'rd) router) result" where
  "newRouter mpools rpools mroutes rroutes =
     (case missing_pool mpools 0 mroutes of
        Some (i, p) \<Rightarrow> Inl (MySQLPoolMissing i p)
      | None \<Rightarrow>
          (case missing_pool rpools 0 rroutes of
             Some (i, p) \<Rightarrow> Inl (RedisPoolMissing i p)
           | None \<Rightarrow>
               (case validateRoutes mroutes of
                  Some e \<Rightarrow> Inl (MySQLRoutesInvalid e)
                | None \<Rightarrow>
                    (case validateRoutes rroutes of
                       Some e \<Rightarrow> Inl (RedisRoutesInvalid e)
                     | None \<Rightarrow>
                         Inr \<lparr>mysqlPools = mpools, redisPools = rpools,
                              mysqlRoutes = mroutes, redisRoutes = rroutes\<rparr>))))"

definition updateRoutes ::
  "route_rule list \<Rightarrow> route_rule list \<Rightarrow> ('db, 'rd) router \<Rightarrow> ('db, 'rd) router" where
  "updateRoutes mroutes rroutes r = r\<lparr>mysqlRoutes := mroutes, redisRoutes := rroutes\<rparr>"

definition resolveDB ::
  "('db, 'rd) router \<Rightarrow> string \<Rightarrow> (route_error, 'db option \<times> string) result" where
  "resolveDB r key =
     (case resolvePoolName (mysqlRoutes r) key of
        Inl e \<Rightarrow> Inl e
      | Inr (pool, _) \<Rightarrow> Inr (mysqlPools r pool, pool))"

definition resolveRedis ::
  "('db, 'rd) router \<Rightarrow> string \<Rightarrow> (route_error, 'rd option \<times> string) result" where
  "resolveRedis r key =
     (case resolvePoolName (redisRoutes r) key of
        Inl e \<Rightarrow> Inl e
      | Inr (pool, _) \<Rightarrow> Inr (redisPools r pool, pool))"

definition pools_cover :: "(string \<Rightarrow> 'h option) \<Rightarrow> route_rule list \<Rightarrow> bool" where
  "pools_cover pools rules \<longleftrightarrow> (\<forall>r \<in> set rules. pools (rr_pool r) \<noteq> None)"

lemma missing_pool_None: "missing_pool pools i rules = None \<longleftrightarrow> pools_cover pools rules"
  by (induction rules arbitrary: i) (auto simp: pools_cover_def)

lemma missing_pool_Some:
  "missing_pool pools i rules = Some (j, p) \<Longrightarrow>
     i \<le> j \<and> j < i + length rules \<and> p = rr_pool (rules ! (j - i)) \<and> pools p = None \<and>
     pools_cover pools (take (j - i) rules)"
proof (induction rules arbitrary: i)
  case (Cons r rs)
  show ?case
  proof (cases "pools (rr_pool r) = None")
    case False
    with Cons.prems have "missing_pool pools (Suc i) rs = Some (j, p)" by simp
    note IH = Cons.IH [OF this]
    then have "Suc i \<le> j" by blast
    then have j: "j - i = Suc (j - Suc i)" by simp
    from IH False \<open>Suc i \<le> j\<close> show ?thesis unfolding j pools_cover_def by auto
  qed (use Cons.prems in \<open>auto simp: pools_cover_def\<close>)
qed simp

definition valid_router :: "('db, 'rd) router \<Rightarrow> bool" where
  "valid_router r \<longleftrightarrow>
     pools_cover (mysqlPools r) (mysqlRoutes r) \<and> pools_cover (redisPools r) (redisRoutes r) \<and>
     distinct (map rr_prefix (mysqlRoutes r)) \<and> distinct (map rr_prefix (redisRoutes r))"

lemma newRouter_Inr:
  "newRouter mp rp mr rr = Inr r \<longleftrightarrow>
     r = \<lparr>mysqlPools = mp, redisPools = rp, mysqlRoutes = mr, redisRoutes = rr\<rparr> \<and> valid_router r"
  by (auto simp: newRouter_def valid_router_def missing_pool_None [of _ 0, symmetric]
      validateRoutes_None [symmetric] split: option.splits)

section \<open>The interface of the services\<close>

text \<open>
  A side of the router: a resolve operation, its rule table and its pools. What the client
  relies on is that a resolved key comes from the table's longest match and carries that
  pool's handle, and that a failure means no rule matched.
\<close>

locale pool_router =
  fixes resolve :: "'r \<Rightarrow> string \<Rightarrow> (route_error, 'h option \<times> string) result"
    and rules :: "'r \<Rightarrow> route_rule list"
    and pools :: "'r \<Rightarrow> string \<Rightarrow> 'h option"
  assumes resolve_Inr: "resolve r key = Inr (h, n) \<longleftrightarrow>
      (\<exists>m. is_lpm (rules r) key m \<and> rr_pool m = n \<and> h = pools r n)"
    and resolve_Inl: "resolve r key = Inl e \<longleftrightarrow>
      e = NoMatchingRoute key \<and> (\<forall>m \<in> set (rules r). \<not> prefix (rr_prefix m) key)"
begin

lemma resolved_handle:
  assumes "pools_cover (pools r) (rules r)" and "resolve r key = Inr (h, n)"
  shows "\<exists>x. h = Some x \<and> pools r n = Some x"
  using assms is_lpm_candidate(1) [of "rules r" key]
  by (fastforce simp: resolve_Inr pools_cover_def)

lemma catch_all_total:
  assumes "m \<in> set (rules r)" and "rr_prefix m = []"
  shows "\<exists>h n. resolve r key = Inr (h, n)"
proof (cases "resolve r key")
  case (Inl e)
  then have "\<forall>m \<in> set (rules r). \<not> prefix (rr_prefix m) key" using resolve_Inl by blast
  with assms show ?thesis by auto
next
  case (Inr x)
  then show ?thesis by (cases x) auto
qed

lemma only_catch_all:
  assumes "rules r = [m]" and "rr_prefix m = []"
  shows "resolve r key = Inr (pools r (rr_pool m), rr_pool m)"
  using catch_all_total [of m r key] assms is_lpm_candidate(1) [of "rules r" key]
  by (auto simp: resolve_Inr)

lemma missing_pool_resolves_nil:
  assumes "is_lpm (rules r) key m" and "pools r (rr_pool m) = None"
  shows "resolve r key = Inr (None, rr_pool m)"
  using assms by (auto simp: resolve_Inr)

lemma same_table_same_result:
  assumes "set (rules r) = set (rules r')" and "pools r = pools r'"
    and "distinct (map rr_prefix (rules r))" and "distinct (map rr_prefix (rules r'))"
  shows "resolve r key = resolve r' key"
proof (cases "resolve r key")
  case (Inl e)
  then show ?thesis using assms(1) resolve_Inl by metis
next
  case (Inr x)
  then obtain h n where x: "resolve r key = Inr (h, n)" by (cases x) auto
  have "is_lpm (rules r) key = is_lpm (rules r') key"
    using assms(1,3,4) by (simp add: fun_eq_iff is_lpm_distinct)
  then have "resolve r' key = Inr (h, n)"
    using x assms(2) by (simp add: resolve_Inr)
  with x show ?thesis by simp
qed

end

lemma resolve_side:
  fixes rules :: "route_rule list" and pools :: "string \<Rightarrow> 'h option" and key :: string
  defines "res \<equiv> (case resolvePoolName rules key of
        Inl e \<Rightarrow> Inl e
      | Inr (pool, _) \<Rightarrow> Inr (pools pool, pool))"
  shows "res = Inr (h, n) \<longleftrightarrow> (\<exists>m. is_lpm rules key m \<and> rr_pool m = n \<and> h = pools n)"
    and "res = Inl e \<longleftrightarrow>
      e = NoMatchingRoute key \<and> (\<forall>m \<in> set rules. \<not> prefix (rr_prefix m) key)"
proof -
  have "res = Inr (h, n) \<longleftrightarrow> (\<exists>pfx. resolvePoolName rules key = Inr (n, pfx)) \<and> h = pools n"
    by (cases "resolvePoolName rules key") (auto simp: res_def)
  then show "res = Inr (h, n) \<longleftrightarrow> (\<exists>m. is_lpm rules key m \<and> rr_pool m = n \<and> h = pools n)"
    by (auto simp: resolvePoolName_Inr)
  have "res = Inl e \<longleftrightarrow> resolvePoolName rules key = Inl e"
    by (cases "resolvePoolName rules key") (auto simp: res_def)
  then show "res = Inl e \<longleftrightarrow>
      e = NoMatchingRoute key \<and> (\<forall>m \<in> set rules. \<not> prefix (rr_prefix m) key)"
    by (simp add: resolvePoolName_Inl)
qed

interpretation mysql_side: pool_router resolveDB mysqlRoutes mysqlPools
  by unfold_locales (simp_all only: resolveDB_def resolve_side)

interpretation redis_side: pool_router resolveRedis redisRoutes redisPools
  by unfold_locales (simp_all only: resolveRedis_def resolve_side)

section \<open>Properties\<close>

text \<open>
  C28. \<open>ResolvePoolName\<close> returns the pool of the longest rule whose prefix the key has, the
  first of them in table order when several are as long, and reports \<open>NoMatchingRoute\<close>
  exactly when no rule's prefix fits; the empty prefix fits every key.
\<close>

theorem resolve_longest_prefix:
  "(resolvePoolName rules key = Inr (pool, pfx) \<longleftrightarrow>
      (\<exists>r. is_lpm rules key r \<and> rr_pool r = pool \<and> rr_prefix r = pfx)) \<and>
   (resolvePoolName rules key = Inl e \<longleftrightarrow> e = NoMatchingRoute key \<and> candidates rules key = [])"
  using resolvePoolName_Inr resolvePoolName_Inl by (auto simp: candidates_def filter_empty_conv)

text \<open>
  \<open>ValidateRoutes\<close> accepts exactly the tables without a repeated prefix; otherwise it
  reports the first position that repeats an earlier one, with that earlier position, the
  prefix and the two pools.
\<close>

theorem validate_first_duplicate:
  "case validateRoutes rules of
      None \<Rightarrow> distinct (map rr_prefix rules)
    | Some (DuplicatePrefix p a b pa pb) \<Rightarrow>
        a < b \<and> b < length rules \<and> rr_prefix (rules ! a) = p \<and> rr_prefix (rules ! b) = p \<and>
        pa = rr_pool (rules ! a) \<and> pb = rr_pool (rules ! b) \<and>
        distinct (map rr_prefix (take b rules))
    | Some _ \<Rightarrow> False"
  by (rule validateRoutes_spec)

text \<open>
  A router that \<open>NewRouter\<close> accepts never resolves a key to a nil handle: whatever key
  resolves on either side, the result is the handle its pool was registered with; and the
  constructor accepts exactly when every rule's pool exists and no prefix is repeated.
\<close>

theorem accepted_router_resolves_handles:
  assumes "newRouter mp rp mr rr = Inr r"
    and "resolveDB r mkey = Inr (db, m)" and "resolveRedis r rkey = Inr (rd, n)"
  shows "(\<exists>x. db = Some x \<and> mp m = Some x) \<and> (\<exists>y. rd = Some y \<and> rp n = Some y) \<and> valid_router r"
proof -
  have r: "mysqlPools r = mp" "redisPools r = rp" "valid_router r" using assms(1) by (auto simp: newRouter_Inr)
  show ?thesis
    using mysql_side.resolved_handle[OF _ assms(2)] redis_side.resolved_handle[OF _ assms(3)] r
    by (simp add: valid_router_def)
qed

definition demo_router :: "(nat, nat) router" where
  "demo_router =
     \<lparr>mysqlPools = [''default'' \<mapsto> 0, ''lobby'' \<mapsto> 1], redisPools = [''default'' \<mapsto> 7],
      mysqlRoutes = [\<lparr>rr_prefix = [], rr_pool = ''default''\<rparr>, \<lparr>rr_prefix = ''lobby:'', rr_pool = ''lobby''\<rparr>],
      redisRoutes = [\<lparr>rr_prefix = [], rr_pool = ''default''\<rparr>]\<rparr>"

lemma accepted_router_resolves_handles_witness:
  "newRouter (mysqlPools demo_router) (redisPools demo_router) (mysqlRoutes demo_router)
     (redisRoutes demo_router) = Inr demo_router \<and>
   resolveDB demo_router ''lobby:config-data'' = Inr (Some 1, ''lobby'') \<and> valid_router demo_router"
proof -
  have n: "newRouter (mysqlPools demo_router) (redisPools demo_router) (mysqlRoutes demo_router)
     (redisRoutes demo_router) = Inr demo_router"
    by (simp add: newRouter_def demo_router_def validateRoutes_def)
  have d: "resolveDB demo_router ''lobby:config-data'' = Inr (Some 1, ''lobby'')"
    by (simp add: resolveDB_def resolvePoolName_def demo_router_def resolve_step_def)
  have e: "resolveRedis demo_router ''sess:1'' = Inr (Some 7, ''default'')"
    by (simp add: resolveRedis_def resolvePoolName_def demo_router_def resolve_step_def)
  show ?thesis using accepted_router_resolves_handles[OF n d e] n d by simp
qed

text \<open>
  For tables that pass validation the order of the rules is irrelevant: two routers with
  the same pools and the same rules in any order resolve every key alike.
\<close>

theorem resolution_ignores_order:
  fixes r r' :: "('db, 'rd) router"
  assumes "validateRoutes (mysqlRoutes r) = None" and "validateRoutes (mysqlRoutes r') = None"
    and "mysqlPools r = mysqlPools r'" and "set (mysqlRoutes r) = set (mysqlRoutes r')"
  shows "resolveDB r key = resolveDB r' key"
  using assms by (intro mysql_side.same_table_same_result) (simp_all add: validateRoutes_None)

lemma resolution_ignores_order_witness:
  "resolveDB demo_router key =
   resolveDB (demo_router\<lparr>mysqlRoutes := [\<lparr>rr_prefix = ''lobby:'', rr_pool = ''lobby''\<rparr>,
     \<lparr>rr_prefix = [], rr_pool = ''default''\<rparr>]\<rparr>) key"
  by (rule resolution_ignores_order) (auto simp: demo_router_def validateRoutes_def)

end
