(* ===== verification/Dsroute_Loader.thy ===== *)
theory Dsroute_Loader
  imports Dsroute
begin

text \<open>
  The rest of package \<open>pkg/dsroute\<close>: the configuration types and their validation
  (\<open>config.go\<close>, \<open>build.go\<close>) and the loader that reads both rule tables from etcd and
  watches them (\<open>loader.go\<close>). The etcd client is a parameter: the values it returns for
  a key, or an error. A watch is the sequence of responses received until its channel
  closes, each with the etcd contents that the reload it triggers would read.
\<close>

section \<open>Configuration (\<open>config.go\<close>, \<open>build.go\<close>)\<close>

record mysql_pool_spec =
  mp_dsn :: string
  mp_max_open :: int
  mp_max_idle :: int
  mp_conn_max_lifetime :: int
  mp_conn_max_idle_time :: int

record redis_pool_spec =
  rp_addr :: string
  rp_db :: int
  rp_password :: string
  rp_pool_size :: int
  rp_min_idle_conns :: int
  rp_dial_timeout :: int
  rp_read_timeout :: int
  rp_write_timeout :: int

record data_sources_config =
  dc_mysql_pools :: "string \<Rightarrow> mysql_pool_spec option"
  dc_redis_pools :: "string \<Rightarrow> redis_pool_spec option"
  dc_mysql_routes :: "route_rule list"
  dc_redis_routes :: "route_rule list"

datatype config_error =
    ConfigNil
  | ConfigInvalid router_error
  | RouterInvalid router_error

text \<open>\<open>ValidateConfig\<close>; the argument is a pointer, \<open>None\<close> for nil.\<close>

definition validateConfig :: "data_sources_config option \<Rightarrow> config_error option" where
  "validateConfig cfg =
     (case cfg of
        None \<Rightarrow> Some ConfigNil
      | Some c \<Rightarrow>
          (case missing_pool (dc_mysql_pools c) 0 (dc_mysql_routes c) of
             Some (i, p) \<Rightarrow> Some (ConfigInvalid (MySQLPoolMissing i p))
           | None \<Rightarrow>
               (case missing_pool (dc_redis_pools c) 0 (dc_redis_routes c) of
                  Some (i, p) \<Rightarrow> Some (ConfigInvalid (RedisPoolMissing i p))
                | None \<Rightarrow>
                    (case validateRoutes (dc_mysql_routes c) of
                       Some e \<Rightarrow> Some (ConfigInvalid (MySQLRoutesInvalid e))
                     | None \<Rightarrow>
                         (case validateRoutes (dc_redis_routes c) of
                            Some e \<Rightarrow> Some (ConfigInvalid (RedisRoutesInvalid e))
                          | None \<Rightarrow> None)))))"

definition newRouterFromConfig ::
  "data_sources_config option \<Rightarrow> (string \<Rightarrow> 'db option) \<Rightarrow> (string \<Rightarrow> 'rd option) \<Rightarrow>
   (config_error, ('db, 'rd) router) result" where
  "newRouterFromConfig cfg mpools rpools =
     (case validateConfig cfg of
        Some e \<Rightarrow> Inl e
      | None \<Rightarrow>
          (case cfg of
             None \<Rightarrow> Inl ConfigNil
           | Some c \<Rightarrow>
               map_error RouterInvalid
                 (newRouter mpools rpools (dc_mysql_routes c) (dc_redis_routes c))))"

definition valid_config :: "data_sources_config \<Rightarrow> bool" where
  "valid_config c \<longleftrightarrow>
     pools_cover (dc_mysql_pools c) (dc_mysql_routes c) \<and>
     pools_cover (dc_redis_pools c) (dc_redis_routes c) \<and>
     distinct (map rr_prefix (dc_mysql_routes c)) \<and> distinct (map rr_prefix (dc_redis_routes c))"

lemma validateConfig_None: "validateConfig cfg = None \<longleftrightarrow> (\<exists>c. cfg = Some c \<and> valid_config c)"
  by (auto simp: validateConfig_def valid_config_def missing_pool_None [of _ 0, symmetric]
      validateRoutes_None [symmetric] split: option.splits)

lemma pools_cover_dom: "dom pools = dom pools' \<Longrightarrow> pools_cover pools rules = pools_cover pools' rules"
  by (auto simp: pools_cover_def)

lemma newRouterFromConfig_ok:
  assumes "validateConfig (Some c) = None"
    and "dom mp = dom (dc_mysql_pools c)" and "dom rp = dom (dc_redis_pools c)"
  shows "newRouterFromConfig (Some c) mp rp =
    Inr \<lparr>mysqlPools = mp, redisPools = rp,
         mysqlRoutes = dc_mysql_routes c, redisRoutes = dc_redis_routes c\<rparr>"
proof -
  from assms(1) have "valid_config c" by (simp add: validateConfig_None)
  then have "newRouter mp rp (dc_mysql_routes c) (dc_redis_routes c) =
    Inr \<lparr>mysqlPools = mp, redisPools = rp,
         mysqlRoutes = dc_mysql_routes c, redisRoutes = dc_redis_routes c\<rparr>"
    using pools_cover_dom [OF assms(2)] pools_cover_dom [OF assms(3)]
    by (simp add: newRouter_Inr valid_config_def valid_router_def)
  with assms(1) show ?thesis by (simp add: newRouterFromConfig_def)
qed

section \<open>The loader (\<open>loader.go\<close>)\<close>

record routing_config =
  rc_mysql_routes :: "route_rule list"
  rc_redis_routes :: "route_rule list"

record 'c route_loader =
  rl_client :: "'c option"
  rl_prefix :: string

type_synonym ('c, 'x) etcd_get = "'c \<Rightarrow> string \<Rightarrow> ('x, string list) result"

datatype 'x routes_error = EtcdFailed 'x | KeyNotFound string | BadRoutes
datatype 'x load_error = ClientNil | LoadMySQL "'x routes_error" | LoadRedis "'x routes_error"

definition newRouteLoader :: "'c option \<Rightarrow> string \<Rightarrow> 'c route_loader" where
  "newRouteLoader client pfx =
     \<lparr>rl_client = client, rl_prefix = (if pfx = [] then ''kd48/routing'' else pfx)\<rparr>"

text \<open>\<open>json.Unmarshal\<close> into \<open>[]RouteRule\<close>; the fields have no tags.\<close>

definition set_rule_field :: "string \<Rightarrow> json \<Rightarrow> route_rule \<Rightarrow> route_rule option" where
  "set_rule_field n j r =
     (if n = ''Prefix'' then map_option (\<lambda>t. r\<lparr>rr_prefix := t\<rparr>) (set_string j (rr_prefix r))
      else if n = ''Pool'' then map_option (\<lambda>t. r\<lparr>rr_pool := t\<rparr>) (set_string j (rr_pool r))
      else Some r)"

definition decode_rule :: "json \<Rightarrow> route_rule option" where
  "decode_rule j = decode_struct [''Prefix'', ''Pool''] set_rule_field \<lparr>rr_prefix = [], rr_pool = []\<rparr> j"

definition decode_rules :: "json \<Rightarrow> route_rule list option" where
  "decode_rules j =
     (case j of JNull \<Rightarrow> Some [] | JArr vs \<Rightarrow> those (map decode_rule vs) | _ \<Rightarrow> None)"

definition getRoutes ::
  "('c, 'x) etcd_get \<Rightarrow> 'c \<Rightarrow> string \<Rightarrow> ('x routes_error, route_rule list) result" where
  "getRoutes etcd c key =
     (case etcd c key of
        Inl x \<Rightarrow> Inl (EtcdFailed x)
      | Inr kvs \<Rightarrow>
          (case kvs of
             [] \<Rightarrow> Inl (KeyNotFound key)
           | v # _ \<Rightarrow>
               (case Option.bind (json_parse v) decode_rules of
                  None \<Rightarrow> Inl BadRoutes
                | Some rules \<Rightarrow> Inr rules)))"

definition mysql_key :: "'c route_loader \<Rightarrow> string" where
  "mysql_key l = rl_prefix l @ ''/mysql_routes''"

definition redis_key :: "'c route_loader \<Rightarrow> string" where
  "redis_key l = rl_prefix l @ ''/redis_routes''"

definition loader_get ::
  "('c, 'x) etcd_get \<Rightarrow> 'c route_loader \<Rightarrow> ('x load_error, routing_config) result" where
  "loader_get etcd l =
     (case rl_client l of
        None \<Rightarrow> Inl ClientNil
      | Some c \<Rightarrow>
          (case getRoutes etcd c (mysql_key l) of
             Inl e \<Rightarrow> Inl (LoadMySQL e)
           | Inr mroutes \<Rightarrow>
               (case getRoutes etcd c (redis_key l) of
                  Inl e \<Rightarrow> Inl (LoadRedis e)
                | Inr rroutes \<Rightarrow>
                    Inr \<lparr>rc_mysql_routes = mroutes, rc_redis_routes = rroutes\<rparr>)))"

datatype 'x watch_response = WatchFailed 'x | WatchKeys "string list"

text \<open>One iteration of the watch loop: the configuration handed to \<open>onChange\<close>, if any.\<close>

definition watch_one ::
  "'c route_loader \<Rightarrow> ('c, 'x) etcd_get \<times> 'x watch_response \<Rightarrow> routing_config option" where
  "watch_one l p =
     (case snd p of
        WatchFailed x \<Rightarrow> None
      | WatchKeys keys \<Rightarrow>
          if list_ex (\<lambda>key. key = mysql_key l \<or> key = redis_key l) keys
          then (case loader_get (fst p) l of Inl e \<Rightarrow> None | Inr cfg \<Rightarrow> Some cfg)
          else None)"

fun watch_loop ::
  "'c route_loader \<Rightarrow> (routing_config \<Rightarrow> 's \<Rightarrow> 's) \<Rightarrow>
   (('c, 'x) etcd_get \<times> 'x watch_response) list \<Rightarrow> 's \<Rightarrow> 's" where
  "watch_loop l onChange [] s = s"
| "watch_loop l onChange (p # ps) s =
     watch_loop l onChange ps
       (case watch_one l p of None \<Rightarrow> s | Some cfg \<Rightarrow> onChange cfg s)"

text \<open>What the services do: the watch updates the router.\<close>

definition watch_router ::
  "'c route_loader \<Rightarrow> (('c, 'x) etcd_get \<times> 'x watch_response) list \<Rightarrow>
   ('db, 'rd) router \<Rightarrow> ('db, 'rd) router" where
  "watch_router l =
     watch_loop l (\<lambda>cfg. updateRoutes (rc_mysql_routes cfg) (rc_redis_routes cfg))"

lemma watch_loop_fold:
  "watch_loop l onChange ps s = fold onChange (List.map_filter (watch_one l) ps) s"
  by (induction ps arbitrary: s) (simp_all add: List.map_filter_simps split: option.split)

lemma fold_updateRoutes_last:
  "fold (\<lambda>cfg. updateRoutes (rc_mysql_routes cfg) (rc_redis_routes cfg)) cfgs r =
     (if cfgs = [] then r
      else updateRoutes (rc_mysql_routes (last cfgs)) (rc_redis_routes (last cfgs)) r)"
  by (induction cfgs arbitrary: r) (auto simp: updateRoutes_def)

lemma watch_router_last:
  "watch_router l ps r =
     (let cfgs = List.map_filter (watch_one l) ps
      in if cfgs = [] then r
         else updateRoutes (rc_mysql_routes (last cfgs)) (rc_redis_routes (last cfgs)) r)"
  by (simp add: watch_router_def watch_loop_fold fold_updateRoutes_last Let_def)

lemma updateRoutes_valid:
  assumes "valid_router r"
    and "pools_cover (mysqlPools r) m" and "pools_cover (redisPools r) n"
    and "distinct (map rr_prefix m)" and "distinct (map rr_prefix n)"
  shows "valid_router (updateRoutes m n r)"
  using assms by (simp add: valid_router_def updateRoutes_def)

section \<open>Properties\<close>

text \<open>
  Hot reload: after any sequence of watch responses, failed reloads and foreign keys
  included, the router serves exactly the tables of the last successful reload, unchanged
  when there was none, with its pools untouched.
\<close>

theorem watch_serves_last_reload:
  "watch_router l ps r =
     (let cfgs = List.map_filter (watch_one l) ps
      in if cfgs = [] then r
         else r\<lparr>mysqlRoutes := rc_mysql_routes (last cfgs), redisRoutes := rc_redis_routes (last cfgs)\<rparr>)"
  by (simp add: watch_router_last updateRoutes_def Let_def)

text \<open>
  A hot reload is not validated: when the last published MySQL table sends a key to a
  pool the router does not have, the router, valid before, resolves that key without an
  error to a nil handle.
\<close>

theorem reload_unknown_pool_resolves_nil:
  assumes "valid_router r" and "List.map_filter (watch_one l) ps = cfgs @ [c]"
    and "is_lpm (rc_mysql_routes c) key m" and "mysqlPools r (rr_pool m) = None"
  shows "resolveDB (watch_router l ps r) key = Inr (None, rr_pool m)"
  using assms(3,4)
  by (intro mysql_side.missing_pool_resolves_nil) (simp_all add: watch_router_last assms(2) updateRoutes_def)

definition demo_etcd :: "(nat, string) etcd_get" where
  "demo_etcd c key =
     (if key = ''kd48/routing/mysql_routes'' then Inr [''[{\"Prefix\":\"\",\"Pool\":\"gone\"}]'']
      else if key = ''kd48/routing/redis_routes'' then Inr [''[]'']
      else Inr [])"

lemma demo_reload:
  "watch_one (newRouteLoader (Some (0 :: nat)) []) (demo_etcd, WatchKeys [''kd48/routing/mysql_routes'']) =
     Some \<lparr>rc_mysql_routes = [\<lparr>rr_prefix = [], rr_pool = ''gone''\<rparr>], rc_redis_routes = []\<rparr>"
  by code_simp

lemma reload_unknown_pool_resolves_nil_witness:
  "resolveDB (watch_router (newRouteLoader (Some 0) [])
     [(demo_etcd, WatchKeys [''kd48/routing/mysql_routes''])] demo_router) ''any'' = Inr (None, ''gone'')"
proof -
  have v: "valid_router demo_router" by (simp add: valid_router_def demo_router_def pools_cover_def)
  have c: "List.map_filter (watch_one (newRouteLoader (Some 0) []))
      [(demo_etcd, WatchKeys [''kd48/routing/mysql_routes''])] =
    [] @ [\<lparr>rc_mysql_routes = [\<lparr>rr_prefix = [], rr_pool = ''gone''\<rparr>], rc_redis_routes = []\<rparr>]"
    using demo_reload by (simp add: List.map_filter_simps)
  have m: "is_lpm (rc_mysql_routes \<lparr>rc_mysql_routes = [\<lparr>rr_prefix = [], rr_pool = ''gone''\<rparr>], rc_redis_routes = []\<rparr>)
      ''any'' \<lparr>rr_prefix = [], rr_pool = ''gone''\<rparr>"
    by (simp add: is_lpm_def candidates_def first_longest_single)
  show ?thesis using reload_unknown_pool_resolves_nil[OF v c m] by (simp add: demo_router_def)
qed

end
