(* ===== verification/Conf.thy ===== *)
theory Conf
  imports Dsroute_Loader
begin

text \<open>
  Package \<open>pkg/conf\<close>: the configuration file's structure, the defaults \<open>Load\<close> fills
  in, the data sources synthesised for a configuration that has none, and the conversion
  to the routing package's form. Reading and decoding the YAML file is viper's; both steps
  are parameters of \<open>conf_load\<close>.
\<close>

section \<open>The structure\<close>

record server_conf =
  sc_name :: string
  sc_env :: string

record gateway_conf =
  gc_port :: int
  gc_types_prefix :: string
  gc_routes_prefix :: string

record user_service_conf =
  usc_port :: int

record lobby_service_conf =
  lsc_port :: int

record log_conf =
  lc_level :: string
  lc_file_path :: string

record redis_conf =
  rdc_addr :: string
  rdc_password :: string
  rdc_db :: int

record etcd_conf =
  ec_endpoints :: "string list"

record mysql_conf =
  mc_dsn :: string

record session_conf =
  ssc_expire_hours :: int

record mysql_pool_conf =
  mpc_dsn :: string
  mpc_max_open :: int
  mpc_max_idle :: int
  mpc_conn_max_lifetime :: int
  mpc_conn_max_idle_time :: int

record redis_pool_conf =
  rpc_addr :: string
  rpc_db :: int
  rpc_password :: string
  rpc_pool_size :: int
  rpc_min_idle_conns :: int
  rpc_dial_timeout :: int
  rpc_read_timeout :: int
  rpc_write_timeout :: int

record route_rule_conf =
  rrc_prefix :: string
  rrc_pool :: string

record data_sources_conf =
  dsc_mysql_pools :: "string \<Rightarrow> mysql_pool_conf option"
  dsc_redis_pools :: "string \<Rightarrow> redis_pool_conf option"
  dsc_mysql_routes :: "route_rule_conf list"
  dsc_redis_routes :: "route_rule_conf list"

record config =
  cf_server :: server_conf
  cf_gateway :: gateway_conf
  cf_user_service :: user_service_conf
  cf_lobby_service :: lobby_service_conf
  cf_log :: log_conf
  cf_redis :: redis_conf
  cf_etcd :: etcd_conf
  cf_mysql :: mysql_conf
  cf_session :: session_conf
  cf_data_sources :: "data_sources_conf option"

section \<open>Loading\<close>

datatype 'x conf_error = ReadConfigFailed 'x | UnmarshalConfigFailed 'x

definition with_default :: "string \<Rightarrow> string \<Rightarrow> string" where
  "with_default d s = (if s = [] then d else s)"

definition fill_prefixes :: "config \<Rightarrow> config" where
  "fill_prefixes c =
     c\<lparr>cf_gateway := (cf_gateway c)
         \<lparr>gc_types_prefix := with_default ''kd48/meta/service-types/'' (gc_types_prefix (cf_gateway c)),
          gc_routes_prefix := with_default ''kd48/meta/gateway-routes/'' (gc_routes_prefix (cf_gateway c))\<rparr>\<rparr>"

definition conf_load ::
  "(string \<Rightarrow> ('x, 'v) result) \<Rightarrow> ('v \<Rightarrow> ('x, config) result) \<Rightarrow> string \<Rightarrow>
   ('x conf_error, config) result" where
  "conf_load read_in unmarshal path =
     (case read_in path of
        Inl x \<Rightarrow> Inl (ReadConfigFailed x)
      | Inr v \<Rightarrow>
          (case unmarshal v of
             Inl x \<Rightarrow> Inl (UnmarshalConfigFailed x)
           | Inr c \<Rightarrow> Inr (fill_prefixes c)))"

section \<open>Data sources\<close>

definition getDataSourcesOrSynthesize :: "config \<Rightarrow> data_sources_conf" where
  "getDataSourcesOrSynthesize c =
     (case cf_data_sources c of
        Some d \<Rightarrow> d
      | None \<Rightarrow>
          \<lparr>dsc_mysql_pools = [''default'' \<mapsto>
             \<lparr>mpc_dsn = mc_dsn (cf_mysql c), mpc_max_open = 20, mpc_max_idle = 5,
              mpc_conn_max_lifetime = 0, mpc_conn_max_idle_time = 0\<rparr>],
           dsc_redis_pools = [''default'' \<mapsto>
             \<lparr>rpc_addr = rdc_addr (cf_redis c), rpc_db = rdc_db (cf_redis c),
              rpc_password = rdc_password (cf_redis c), rpc_pool_size = 0,
              rpc_min_idle_conns = 0, rpc_dial_timeout = 0, rpc_read_timeout = 0,
              rpc_write_timeout = 0\<rparr>],
           dsc_mysql_routes = [\<lparr>rrc_prefix = [], rrc_pool = ''default''\<rparr>],
           dsc_redis_routes = [\<lparr>rrc_prefix = [], rrc_pool = ''default''\<rparr>]\<rparr>)"

text \<open>
  \<open>conf.DSRouteConfig\<close> and its parts repeat the types of \<open>dsroute.DataSourcesConfig\<close> field by
  field; the model has one record for both.
\<close>

type_synonym mysql_pool_spec_conf = mysql_pool_spec
type_synonym redis_pool_spec_conf = redis_pool_spec
type_synonym route_rule_spec_conf = route_rule
type_synonym dsroute_config = data_sources_config

definition to_mysql_spec :: "mysql_pool_conf \<Rightarrow> mysql_pool_spec_conf" where
  "to_mysql_spec v =
     \<lparr>mp_dsn = mpc_dsn v, mp_max_open = mpc_max_open v, mp_max_idle = mpc_max_idle v,
      mp_conn_max_lifetime = mpc_conn_max_lifetime v,
      mp_conn_max_idle_time = mpc_conn_max_idle_time v\<rparr>"

definition to_redis_spec :: "redis_pool_conf \<Rightarrow> redis_pool_spec_conf" where
  "to_redis_spec v =
     \<lparr>rp_addr = rpc_addr v, rp_db = rpc_db v, rp_password = rpc_password v,
      rp_pool_size = rpc_pool_size v, rp_min_idle_conns = rpc_min_idle_conns v,
      rp_dial_timeout = rpc_dial_timeout v, rp_read_timeout = rpc_read_timeout v,
      rp_write_timeout = rpc_write_timeout v\<rparr>"

definition to_rule :: "route_rule_conf \<Rightarrow> route_rule_spec_conf" where
  "to_rule r = \<lparr>rr_prefix = rrc_prefix r, rr_pool = rrc_pool r\<rparr>"

definition toDSRouteConfig :: "data_sources_conf option \<Rightarrow> dsroute_config option" where
  "toDSRouteConfig d =
     (case d of
        None \<Rightarrow> None
      | Some x \<Rightarrow>
          Some \<lparr>dc_mysql_pools = (\<lambda>k. map_option to_mysql_spec (dsc_mysql_pools x k)),
                dc_redis_pools = (\<lambda>k. map_option to_redis_spec (dsc_redis_pools x k)),
                dc_mysql_routes = map to_rule (dsc_mysql_routes x),
                dc_redis_routes = map to_rule (dsc_redis_routes x)\<rparr>)"

lemma to_rule_inj: "to_rule r = to_rule r' \<longleftrightarrow> r = r'"
  by (cases r; cases r') (simp add: to_rule_def)

lemma to_mysql_spec_inj: "to_mysql_spec v = to_mysql_spec v' \<longleftrightarrow> v = v'"
  by (cases v; cases v') (auto simp: to_mysql_spec_def)

lemma to_redis_spec_inj: "to_redis_spec v = to_redis_spec v' \<longleftrightarrow> v = v'"
  by (cases v; cases v') (auto simp: to_redis_spec_def)

lemma map_option_inj_fun:
  assumes "\<And>x y. f x = f y \<longleftrightarrow> x = y" and "(\<lambda>k. map_option f (m k)) = (\<lambda>k. map_option f (m' k))"
  shows "m = m'"
proof
  fix k
  from assms(2) have "map_option f (m k) = map_option f (m' k)" by (rule fun_cong)
  then show "m k = m' k" by (cases "m k"; cases "m' k") (simp_all add: assms(1))
qed

text \<open>The conversion loses nothing.\<close>

lemma toDSRouteConfig_inj: "toDSRouteConfig d = toDSRouteConfig d' \<Longrightarrow> d = d'"
proof (cases d; cases d')
  fix x y
  assume eq: "toDSRouteConfig d = toDSRouteConfig d'" and d: "d = Some x" "d' = Some y"
  have inj: "inj to_rule" by (simp add: inj_def to_rule_inj)
  from eq d have "dsc_mysql_pools x = dsc_mysql_pools y"
    by (intro map_option_inj_fun [OF to_mysql_spec_inj]) (simp add: toDSRouteConfig_def)
  moreover from eq d have "dsc_redis_pools x = dsc_redis_pools y"
    by (intro map_option_inj_fun [OF to_redis_spec_inj]) (simp add: toDSRouteConfig_def)
  moreover from eq d have "dsc_mysql_routes x = dsc_mysql_routes y"
    and "dsc_redis_routes x = dsc_redis_routes y"
    using inj by (simp_all add: toDSRouteConfig_def inj_map_eq_map)
  ultimately show "d = d'" using d by (cases x; cases y) simp
qed (simp_all add: toDSRouteConfig_def)

lemma synthesized_valid:
  assumes "cf_data_sources c = None"
    and "toDSRouteConfig (Some (getDataSourcesOrSynthesize c)) = Some d"
  shows "valid_config d" and "dc_mysql_routes d = [\<lparr>rr_prefix = [], rr_pool = ''default''\<rparr>]"
    and "dc_redis_routes d = [\<lparr>rr_prefix = [], rr_pool = ''default''\<rparr>]"
    and "dom (dc_mysql_pools d) = {''default''}" and "dom (dc_redis_pools d) = {''default''}"
proof -
  let ?r = "\<lparr>rr_prefix = [], rr_pool = ''default''\<rparr> :: route_rule"
  have d: "dc_mysql_routes d = [?r]" "dc_redis_routes d = [?r]"
    "dom (dc_mysql_pools d) = {''default''}" "dom (dc_redis_pools d) = {''default''}"
    using assms by (auto simp: toDSRouteConfig_def getDataSourcesOrSynthesize_def to_rule_def dom_def
        split: if_splits)
  then have "pools_cover (dc_mysql_pools d) [?r]" and "pools_cover (dc_redis_pools d) [?r]"
    by (auto simp: pools_cover_def)
  with d show "valid_config d" and "dc_mysql_routes d = [?r]" and "dc_redis_routes d = [?r]"
    and "dom (dc_mysql_pools d) = {''default''}" and "dom (dc_redis_pools d) = {''default''}"
    by (simp_all add: valid_config_def)
qed

section \<open>Properties\<close>

text \<open>
  A configuration file without data sources still gives a working router: the synthesised
  configuration, converted, is accepted for the pools it names, and the router built from it
  sends every key on both sides to the pool \<open>default\<close>.
\<close>

theorem synthesized_routes_default:
  assumes "cf_data_sources c = None" and "dom mp = {''default''}" and "dom rp = {''default''}"
  shows "\<exists>r. newRouterFromConfig (toDSRouteConfig (Some (getDataSourcesOrSynthesize c))) mp rp = Inr r \<and>
    (\<forall>key. resolveDB r key = Inr (mp ''default'', ''default'') \<and>
           resolveRedis r key = Inr (rp ''default'', ''default''))"
proof -
  obtain d where d: "toDSRouteConfig (Some (getDataSourcesOrSynthesize c)) = Some d"
    by (simp add: toDSRouteConfig_def)
  note s = synthesized_valid[OF assms(1) d]
  have "validateConfig (Some d) = None" using s(1) by (simp add: validateConfig_None)
  from newRouterFromConfig_ok[OF this] have
    "newRouterFromConfig (Some d) mp rp = Inr \<lparr>mysqlPools = mp, redisPools = rp,
       mysqlRoutes = [\<lparr>rr_prefix = [], rr_pool = ''default''\<rparr>],
       redisRoutes = [\<lparr>rr_prefix = [], rr_pool = ''default''\<rparr>]\<rparr>"
    using s assms(2,3) by simp
  then show ?thesis by (simp add: d mysql_side.only_catch_all redis_side.only_catch_all)
qed

definition demo_config :: config where
  "demo_config =
     \<lparr>cf_server = \<lparr>sc_name = ''kd48'', sc_env = ''dev''\<rparr>,
      cf_gateway = \<lparr>gc_port = 8080, gc_types_prefix = [], gc_routes_prefix = []\<rparr>,
      cf_user_service = \<lparr>usc_port = 9000\<rparr>, cf_lobby_service = \<lparr>lsc_port = 9001\<rparr>,
      cf_log = \<lparr>lc_level = ''info'', lc_file_path = []\<rparr>,
      cf_redis = \<lparr>rdc_addr = ''localhost:6379'', rdc_password = [], rdc_db = 0\<rparr>,
      cf_etcd = \<lparr>ec_endpoints = [''localhost:2379'']\<rparr>, cf_mysql = \<lparr>mc_dsn = ''dsn''\<rparr>,
      cf_session = \<lparr>ssc_expire_hours = 24\<rparr>, cf_data_sources = None\<rparr>"

lemma synthesized_routes_default_witness:
  "\<exists>r. newRouterFromConfig (toDSRouteConfig (Some (getDataSourcesOrSynthesize demo_config)))
     [''default'' \<mapsto> (0 :: nat)] [''default'' \<mapsto> (1 :: nat)] = Inr r \<and>
     resolveDB r ''sys:user'' = Inr (Some 0, ''default'')"
  using synthesized_routes_default[of demo_config "[''default'' \<mapsto> (0 :: nat)]" "[''default'' \<mapsto> (1 :: nat)]"]
  by (auto simp: demo_config_def)

end
