(* ===== verification/Json_Print.thy ===== *)
theory Json_Print
  imports Go_Json
begin

text \<open>
  The flat JSON objects the program prints (\<open>fmt.Sprintf\<close> of one member, gRPC replies,
  pub/sub notifications) read back by the decoder of \<open>Go_Json\<close>: \<open>print_obj\<close> puts member
  texts together, \<open>scalar_text v j\<close> says that the text \<open>v\<close> reads as \<open>j\<close> wherever an
  object member may stand.
\<close>

definition print_string :: "string \<Rightarrow> string" where
  "print_string t = CHR 0x22 # t @ [CHR 0x22]"

fun print_members :: "(string \<times> string) list \<Rightarrow> string" where
  "print_members [] = []"
| "print_members [(k, v)] = print_string k @ CHR '':'' # v"
| "print_members ((k, v) # ms) = print_string k @ CHR '':'' # v @ CHR '','' # print_members ms"

definition print_obj :: "(string \<times> string) list \<Rightarrow> string" where
  "print_obj ms = CHR 0x7B # print_members ms @ [CHR 0x7D]"

definition scalar_text :: "string \<Rightarrow> json \<Rightarrow> bool" where
  "scalar_text v j \<longleftrightarrow>
     (\<forall>f c r. c = CHR '','' \<or> c = CHR 0x7D \<longrightarrow>
        parse_value (Suc f) (v @ c # r) = Some (j, c # r))"

lemma scalar_string: "list_all plain_char t \<Longrightarrow> scalar_text (print_string t) (JStr t)"
  by (auto simp: scalar_text_def print_string_def scan_scalar_def scan_str_plain)

lemma scalar_words:
  "scalar_text ''true'' (JBool True)" "scalar_text ''false'' (JBool False)"
  "scalar_text ''null'' JNull"
  by (auto simp: scalar_text_def scan_scalar_def)

lemma digit_first:
  assumes "is_digit c"
  shows "c \<notin> {CHR 0x20, CHR 0x09, CHR 0x0A, CHR 0x0D, CHR 0x7B, CHR 0x5B, CHR 0x22}"
    and "c \<noteq> CHR ''t''" "c \<noteq> CHR ''f''" "c \<noteq> CHR ''n''"
  using assms by (auto simp: is_digit_def)

lemma scalar_nat: "scalar_text (show_nat n) (JNum (show_nat n))"
  unfolding scalar_text_def
proof (intro allI impI)
  fix f r and c :: char
  assume c: "c = CHR '','' \<or> c = CHR 0x7D"
  then have sep: "c \<noteq> CHR ''.''" "c \<noteq> CHR ''e''" "c \<noteq> CHR ''E''" "\<not> is_digit c"
    by (auto simp: is_digit_def)
  obtain d ds where d: "show_nat n = d # ds" by (cases "show_nat n") auto
  then have "is_digit d" using show_nat_chars[of d n] by simp
  then show "parse_value (Suc f) (show_nat n @ c # r) = Some (JNum (show_nat n), c # r)"
    using scan_num_show_nat[OF sep, of n r] digit_first[of d] d by (auto simp: scan_scalar_def)
qed

lemma print_members_Cons:
  "print_members ((k, v) # ms) @ CHR 0x7D # r =
     print_string k @ CHR '':'' # v @
       (if ms = [] then CHR 0x7D # r else CHR '','' # print_members ms @ CHR 0x7D # r)"
  by (cases ms) auto

lemma parse_members_print:
  assumes "ms \<noteq> []" and "length ms < f"
    and "list_all (\<lambda>(k, v, j). list_all plain_char k \<and> scalar_text v j) ms"
  shows "parse_members f (print_members (map (\<lambda>(k, v, j). (k, v)) ms) @ CHR 0x7D # r) =
    Some (map (\<lambda>(k, v, j). (k, j)) ms, r)"
  using assms
proof (induction ms arbitrary: f)
  case Nil
  then show ?case by simp
next
  case (Cons m ms)
  obtain k v j where m: "m = (k, v, j)" by (cases m) auto
  obtain g where f: "f = Suc (Suc g)" using Cons.prems(2) by (cases f; cases "f - 1") auto
  have k: "list_all plain_char k" and v: "scalar_text v j" using Cons.prems(3) by (simp_all add: m)
  have val: "parse_value (Suc g) (v @ c # t) = Some (j, c # t)"
    if "c = CHR '','' \<or> c = CHR 0x7D" for c t
    using v that unfolding scalar_text_def by blast
  show ?case
  proof (cases "ms = []")
    case True
    then show ?thesis
      using k val by (simp add: m f print_string_def scan_str_plain del: parse_value.simps)
  next
    case False
    have "parse_members (Suc g) (print_members (map (\<lambda>(k, v, j). (k, v)) ms) @ CHR 0x7D # r) =
        Some (map (\<lambda>(k, v, j). (k, j)) ms, r)"
      using Cons.IH[OF False] Cons.prems by (simp add: f del: parse_members.simps)
    then show ?thesis
      using False k val
      by (simp add: m f print_members_Cons print_string_def scan_str_plain
          del: parse_value.simps print_members.simps parse_members.simps(2)
          add: parse_members.simps(2)[of "Suc g"])
  qed
qed

lemma print_members_length: "ms \<noteq> [] \<Longrightarrow> 4 * length ms \<le> length (print_members ms) + 1"
  by (induction ms rule: print_members.induct) (auto simp: print_string_def)

theorem json_parse_print:
  assumes "list_all (\<lambda>(k, v, j). list_all plain_char k \<and> scalar_text v j) ms" and "ms \<noteq> []"
  shows "json_parse (print_obj (map (\<lambda>(k, v, j). (k, v)) ms)) =
    Some (JObj (map (\<lambda>(k, v, j). (k, j)) ms))"
proof -
  let ?body = "print_members (map (\<lambda>(k, v, j). (k, v)) ms) @ [CHR 0x7D]"
  obtain k v j ms' where ms: "ms = (k, v, j) # ms'" using assms(2) by (cases ms) auto
  have first: "\<exists>t. ?body = CHR 0x22 # t"
    using print_members_Cons[of k v "map (\<lambda>(k, v, j). (k, v)) ms'" "[]"]
    by (simp add: ms print_string_def)
  have "length ms < 2 * length (print_obj (map (\<lambda>(k, v, j). (k, v)) ms))"
    using print_members_length[of "map (\<lambda>(k, v, j). (k, v)) ms"] assms(2)
    by (simp add: print_obj_def)
  then have "parse_members (2 * length (print_obj (map (\<lambda>(k, v, j). (k, v)) ms))) ?body =
      Some (map (\<lambda>(k, v, j). (k, j)) ms, [])"
    using parse_members_print[OF assms(2) _ assms(1)] by simp
  then show ?thesis
    using first by (auto simp: json_parse_def print_obj_def)
qed

section \<open>\<open>json.Marshal\<close> of strings and integers\<close>

text \<open>
  Marshalling escapes quotes, backslashes, control characters, the HTML characters and the
  two line separators U+2028 and U+2029, and prints \<open>\ufffd\<close> for a byte that starts no
  UTF-8 character.
\<close>

definition hex_char :: "nat \<Rightarrow> char" where
  "hex_char n = (if n < 10 then char_of (48 + n) else char_of (87 + n))"

definition escape_char :: "char \<Rightarrow> string" where
  "escape_char c =
     (if c = CHR 0x22 \<or> c = CHR 0x5C then [CHR 0x5C, c]
      else if c = CHR 0x08 then [CHR 0x5C, CHR ''b'']
      else if c = CHR 0x0C then [CHR 0x5C, CHR ''f'']
      else if c = CHR 0x0A then [CHR 0x5C, CHR ''n'']
      else if c = CHR 0x0D then [CHR 0x5C, CHR ''r'']
      else if c = CHR 0x09 then [CHR 0x5C, CHR ''t'']
      else if (of_char c :: nat) < 32 \<or> c = CHR ''<'' \<or> c = CHR ''>'' \<or> c = CHR ''&''
      then [CHR 0x5C, CHR ''u'', CHR ''0'', CHR ''0'', hex_char (of_char c div 16), hex_char (of_char c mod 16)]
      else [c])"

function json_escape :: "string \<Rightarrow> string" where
  "json_escape [] = []"
| "json_escape (c # cs) =
     (if (of_char c :: nat) < 128 then escape_char c @ json_escape cs
      else (case utf8_tail c cs of
              None \<Rightarrow> [CHR 0x5C, CHR ''u'', CHR ''f'', CHR ''f'', CHR ''f'', CHR ''d''] @ json_escape cs
            | Some k \<Rightarrow>
                (if c # take k cs = [CHR 0xE2, CHR 0x80, CHR 0xA8]
                 then [CHR 0x5C, CHR ''u'', CHR ''2'', CHR ''0'', CHR ''2'', CHR ''8'']
                 else if c # take k cs = [CHR 0xE2, CHR 0x80, CHR 0xA9]
                 then [CHR 0x5C, CHR ''u'', CHR ''2'', CHR ''0'', CHR ''2'', CHR ''9'']
                 else c # take k cs) @ json_escape (drop k cs)))"
  by pat_completeness auto
termination
  by (relation "measure length") auto

definition json_quote :: "string \<Rightarrow> string" where
  "json_quote t = print_string (json_escape t)"

lemma hex_digits_ascii:
  "n < 128 \<Longrightarrow> hex_val (hex_char (n div 16)) = Some (n div 16) \<and> hex_val (hex_char (n mod 16)) = Some (n mod 16)"
proof -
  have h: "hex_val (hex_char d) = Some d" if "d < 16" for d
    using that by (auto simp: hex_val_def hex_char_def Let_def)
  assume "n < 128"
  then have "n div 16 < 16" "n mod 16 < 16" by (auto simp: less_mult_imp_div_less)
  then show ?thesis using h by blast
qed

lemma unicode_escape_ascii:
  assumes "n < 128"
  shows "unicode_escape (CHR ''0'' # CHR ''0'' # hex_char (n div 16) # hex_char (n mod 16) # t) =
    Some ([char_of n], 4)"
proof -
  have z: "hex_val (CHR ''0'') = Some 0" by code_simp
  show ?thesis using hex_digits_ascii[OF assms] assms by (simp add: unicode_escape_def z utf8_def)
qed

lemma unicode_escape_separators:
  "unicode_escape (CHR ''2'' # CHR ''0'' # CHR ''2'' # CHR ''8'' # t) = Some ([CHR 0xE2, CHR 0x80, CHR 0xA8], 4)"
  "unicode_escape (CHR ''2'' # CHR ''0'' # CHR ''2'' # CHR ''9'' # t) = Some ([CHR 0xE2, CHR 0x80, CHR 0xA9], 4)"
proof -
  have h: "hex_val (CHR ''0'') = Some 0" "hex_val (CHR ''2'') = Some 2" "hex_val (CHR ''8'') = Some 8"
    "hex_val (CHR ''9'') = Some 9" by code_simp+
  have u: "utf8 8232 = [CHR 0xE2, CHR 0x80, CHR 0xA8]" "utf8 8233 = [CHR 0xE2, CHR 0x80, CHR 0xA9]"
    using char_of_char[where 'a = nat, of "CHR 0xE2"] char_of_char[where 'a = nat, of "CHR 0x80"]
      char_of_char[where 'a = nat, of "CHR 0xA8"] char_of_char[where 'a = nat, of "CHR 0xA9"]
    by (simp_all add: utf8_def)
  show "unicode_escape (CHR ''2'' # CHR ''0'' # CHR ''2'' # CHR ''8'' # t) = Some ([CHR 0xE2, CHR 0x80, CHR 0xA8], 4)"
    "unicode_escape (CHR ''2'' # CHR ''0'' # CHR ''2'' # CHR ''9'' # t) = Some ([CHR 0xE2, CHR 0x80, CHR 0xA9], 4)"
    by (simp_all add: unicode_escape_def h u)
qed

lemma unicode_escape_replacement:
  "unicode_escape (CHR ''f'' # CHR ''f'' # CHR ''f'' # CHR ''d'' # t) = Some (replacement, 4)"
proof -
  have "hex_val (CHR ''f'') = Some 15" "hex_val (CHR ''d'') = Some 13" by code_simp+
  then show ?thesis by (simp add: unicode_escape_def replacement_def)
qed

lemma scan_str_escape_char:
  assumes "(of_char c :: nat) < 128"
  shows "scan_str (escape_char c @ t) = map_option (\<lambda>(u, r). (c # u, r)) (scan_str t)"
proof (cases "(of_char c :: nat) < 32 \<or> c = CHR ''<'' \<or> c = CHR ''>'' \<or> c = CHR ''&''")
  case True
  show ?thesis
    using True unicode_escape_ascii[OF assms] by (auto simp: escape_char_def simple_escape_def)
next
  case False
  then show ?thesis
    using assms by (auto simp: escape_char_def simple_escape_def utf8_tail_ascii)
qed

text \<open>A character of several bytes is read as it stands.\<close>

lemma scan_str_rune:
  assumes "\<not> (of_char c :: nat) < 128" and "utf8_tail c cs = Some k"
  shows "scan_str ((c # take k cs) @ t) = map_option (\<lambda>(u, r). (c # take k cs @ u, r)) (scan_str t)"
proof -
  have "utf8_tail c (take k cs @ t) = Some k" by (rule utf8_tail_local[OF assms(2)])
  moreover have "c \<noteq> CHR 0x22" "c \<noteq> CHR 0x5C" using assms(1) by auto
  moreover have "length (take k cs) = k" using utf8_tail_length[OF assms(2)] by simp
  ultimately show ?thesis using assms(1) by simp
qed

text \<open>What is read back is what was marshalled, with the bytes replaced that are no UTF-8.\<close>

lemma scan_str_escape: "scan_str (json_escape s @ CHR 0x22 # r) = Some (coerce_utf8 s, r)"
proof (induction s rule: json_escape.induct)
  case 1
  then show ?case by simp
next
  case (2 c cs)
  show ?case
  proof (cases "(of_char c :: nat) < 128")
    case True
    then have "scan_str (json_escape cs @ CHR 0x22 # r) = Some (coerce_utf8 cs, r)" by (rule "2.IH"(1))
    then show ?thesis
      using True by (simp add: scan_str_escape_char utf8_tail_ascii del: scan_str.simps)
  next
    case big: False
    show ?thesis
    proof (cases "utf8_tail c cs")
      case None
      then have "scan_str (json_escape cs @ CHR 0x22 # r) = Some (coerce_utf8 cs, r)" by (rule "2.IH"(2)[OF big])
      then show ?thesis using big None by (simp add: unicode_escape_replacement)
    next
      case (Some k)
      have IH: "scan_str (json_escape (drop k cs) @ CHR 0x22 # r) = Some (coerce_utf8 (drop k cs), r)"
        by (rule "2.IH"(3)[OF big Some])
      consider "c # take k cs = [CHR 0xE2, CHR 0x80, CHR 0xA8]" | "c # take k cs = [CHR 0xE2, CHR 0x80, CHR 0xA9]"
        | "c # take k cs \<noteq> [CHR 0xE2, CHR 0x80, CHR 0xA8]" "c # take k cs \<noteq> [CHR 0xE2, CHR 0x80, CHR 0xA9]" by blast
      then show ?thesis
      proof cases
        case 3
        then have "json_escape (c # cs) = (c # take k cs) @ json_escape (drop k cs)" using big Some by simp
        then show ?thesis using scan_str_rune[OF big Some] IH Some by (simp del: scan_str.simps json_escape.simps)
      qed (use big Some IH in \<open>simp_all add: unicode_escape_separators\<close>)
    qed
  qed
qed

lemma scalar_quote: "scalar_text (json_quote t) (JStr (coerce_utf8 t))"
  by (auto simp: scalar_text_def json_quote_def print_string_def scan_scalar_def scan_str_escape)

lemma scalar_int: "scalar_text (show_int i) (JNum (show_int i))"
proof (cases "0 \<le> i")
  case True
  then show ?thesis using scalar_nat[of "nat i"] by (simp add: show_int_def)
next
  case False
  have "parse_value (Suc f) (show_int i @ c # r) = Some (JNum (show_int i), c # r)"
    if "c = CHR '','' \<or> c = CHR 0x7D" for f r and c :: char
  proof -
    have sep: "c \<noteq> CHR ''.''" "c \<noteq> CHR ''e''" "c \<noteq> CHR ''E''" "\<not> is_digit c"
      using that by (auto simp: is_digit_def)
    have "scan_num (CHR ''-'' # show_nat (nat (- i)) @ c # r) = Some (CHR ''-'' # show_nat (nat (- i)), c # r)"
      using scan_mantissa_show_nat[of "c # r" "nat (- i)"] sep
      by (simp add: scan_num_def scan_sign_def scan_frac_def scan_exp_def)
    then show ?thesis using False by (simp add: show_int_def scan_scalar_def)
  qed
  then show ?thesis unfolding scalar_text_def by blast
qed

end
