(* ===== verification/Json_Marshal.thy ===== *)
theory Json_Marshal
  imports Json_Print
begin

text \<open>
  \<open>json.Marshal\<close> of whole documents, as far as the program uses it: nested slices, objects
  with the members in the order given, strings and integers. What it prints is read back by
  the decoder of \<open>Go_Json\<close>, with the bytes replaced that are no UTF-8:
  \<open>json_parse_print_json\<close>.
\<close>

section \<open>Printing\<close>

fun print_json :: "json \<Rightarrow> string"
  and print_elems :: "json list \<Rightarrow> string"
  and print_fields :: "(string \<times> json) list \<Rightarrow> string" where
  "print_json JNull = ''null''"
| "print_json (JBool b) = (if b then ''true'' else ''false'')"
| "print_json (JNum l) = l"
| "print_json (JStr t) = json_quote t"
| "print_json (JArr vs) = CHR 0x5B # print_elems vs @ [CHR 0x5D]"
| "print_json (JObj ms) = CHR 0x7B # print_fields ms @ [CHR 0x7D]"
| "print_elems [] = []"
| "print_elems (v # vs) = print_json v @ (if vs = [] then [] else CHR '','' # print_elems vs)"
| "print_fields [] = []"
| "print_fields ((k, v) # ms) =
     json_quote k @ CHR '':'' # print_json v @ (if ms = [] then [] else CHR '','' # print_fields ms)"

text \<open>The documents printed here have integers for numbers.\<close>

fun integral :: "json \<Rightarrow> bool"
  and integrals :: "json list \<Rightarrow> bool"
  and integral_fields :: "(string \<times> json) list \<Rightarrow> bool" where
  "integral (JNum l) \<longleftrightarrow> (\<exists>i. l = show_int i)"
| "integral (JArr vs) \<longleftrightarrow> integrals vs"
| "integral (JObj ms) \<longleftrightarrow> integral_fields ms"
| "integral _ \<longleftrightarrow> True"
| "integrals [] \<longleftrightarrow> True"
| "integrals (v # vs) \<longleftrightarrow> integral v \<and> integrals vs"
| "integral_fields [] \<longleftrightarrow> True"
| "integral_fields ((k, v) # ms) \<longleftrightarrow> integral v \<and> integral_fields ms"

lemma integrals_list_all: "integrals vs \<longleftrightarrow> list_all integral vs"
  by (induction vs) auto

lemma integral_fields_list_all: "integral_fields ms \<longleftrightarrow> list_all (integral \<circ> snd) ms"
  by (induction ms) auto

text \<open>A document as it comes back, and documents that come back as they are.\<close>

fun coerce_json :: "json \<Rightarrow> json"
  and coerce_elems :: "json list \<Rightarrow> json list"
  and coerce_fields :: "(string \<times> json) list \<Rightarrow> (string \<times> json) list" where
  "coerce_json (JStr t) = JStr (coerce_utf8 t)"
| "coerce_json (JArr vs) = JArr (coerce_elems vs)"
| "coerce_json (JObj ms) = JObj (coerce_fields ms)"
| "coerce_json j = j"
| "coerce_elems [] = []"
| "coerce_elems (v # vs) = coerce_json v # coerce_elems vs"
| "coerce_fields [] = []"
| "coerce_fields ((k, v) # ms) = (coerce_utf8 k, coerce_json v) # coerce_fields ms"

fun utf8_json :: "json \<Rightarrow> bool"
  and utf8_elems :: "json list \<Rightarrow> bool"
  and utf8_fields :: "(string \<times> json) list \<Rightarrow> bool" where
  "utf8_json (JStr t) \<longleftrightarrow> valid_utf8 t"
| "utf8_json (JArr vs) \<longleftrightarrow> utf8_elems vs"
| "utf8_json (JObj ms) \<longleftrightarrow> utf8_fields ms"
| "utf8_json j \<longleftrightarrow> True"
| "utf8_elems [] \<longleftrightarrow> True"
| "utf8_elems (v # vs) \<longleftrightarrow> utf8_json v \<and> utf8_elems vs"
| "utf8_fields [] \<longleftrightarrow> True"
| "utf8_fields ((k, v) # ms) \<longleftrightarrow> valid_utf8 k \<and> utf8_json v \<and> utf8_fields ms"

lemma coerce_utf8_json:
  "utf8_json j \<Longrightarrow> coerce_json j = j"
  "utf8_elems vs \<Longrightarrow> coerce_elems vs = vs"
  "utf8_fields ms \<Longrightarrow> coerce_fields ms = ms"
  by (induction j and vs and ms rule: coerce_json_coerce_elems_coerce_fields.induct)
     (simp_all add: coerce_valid)

lemma utf8_elems_list_all: "utf8_elems vs \<longleftrightarrow> list_all utf8_json vs"
  by (induction vs) auto

lemma utf8_fields_list_all: "utf8_fields ms \<longleftrightarrow> list_all (\<lambda>(k, v). valid_utf8 k \<and> utf8_json v) ms"
  by (induction ms) auto

section \<open>Reading back\<close>

text \<open>What may follow a value.\<close>

definition ends :: "string \<Rightarrow> bool" where
  "ends r \<longleftrightarrow> r = [] \<or> hd r = CHR '','' \<or> hd r = CHR 0x7D \<or> hd r = CHR 0x5D"

lemma ends_simps [simp]: "ends []" "ends (CHR '','' # r)" "ends (CHR 0x7D # r)" "ends (CHR 0x5D # r)"
  by (simp_all add: ends_def)

lemma scan_num_int:
  assumes "ends r"
  shows "scan_num (show_int i @ r) = Some (show_int i, r)"
proof -
  have d: "r = [] \<or> \<not> is_digit (hd r)" using assms by (auto simp: ends_def is_digit_def)
  have tail: "scan_frac r = Some ([], r)" "scan_exp r = Some ([], r)"
    using assms by (auto simp: ends_def scan_frac_def scan_exp_def split: list.split)
  have sign: "scan_sign (show_nat n @ r) = ([], show_nat n @ r)" for n
  proof (cases "show_nat n")
    case (Cons c cs)
    then have "is_digit c" using show_nat_chars[of c n] by simp
    then show ?thesis using Cons by (auto simp: scan_sign_def)
  qed simp
  show ?thesis
    using scan_mantissa_show_nat[OF d] tail sign
    by (simp add: show_int_def scan_num_def) (simp add: scan_sign_def)
qed

lemma show_int_first:
  obtains c cs where "show_int i = c # cs" "is_digit c \<or> c = CHR ''-''"
proof (cases "0 \<le> i")
  case True
  obtain c cs where c: "show_nat (nat i) = c # cs" by (cases "show_nat (nat i)") auto
  then have "is_digit c" using show_nat_chars[of c "nat i"] by simp
  then show ?thesis using that c True by (simp add: show_int_def)
qed (use that in \<open>simp add: show_int_def\<close>)

lemma parse_number:
  assumes "ends r"
  shows "parse_value (Suc f) (show_int i @ r) = Some (JNum (show_int i), r)"
proof -
  obtain c cs where c: "show_int i = c # cs" "is_digit c \<or> c = CHR ''-''" by (rule show_int_first)
  then have "c \<notin> {CHR 0x20, CHR 0x09, CHR 0x0A, CHR 0x0D, CHR 0x7B, CHR 0x5B, CHR 0x22}"
    "c \<noteq> CHR ''t''" "c \<noteq> CHR ''f''" "c \<noteq> CHR ''n''"
    by (auto simp: is_digit_def)
  then show ?thesis using scan_num_int[OF assms, of i] c(1) by (simp add: scan_scalar_def)
qed

lemma parse_string: "parse_value (Suc f) (json_quote t @ r) = Some (JStr (coerce_utf8 t), r)"
  by (simp add: json_quote_def print_string_def scan_scalar_def scan_str_escape)

lemma json_quote_Cons: "json_quote t = CHR 0x22 # json_escape t @ [CHR 0x22]"
  by (simp add: json_quote_def print_string_def)

lemma print_json_first:
  assumes "integral j"
  obtains c cs where "print_json j = c # cs" "c \<notin> {CHR 0x20, CHR 0x09, CHR 0x0A, CHR 0x0D, CHR 0x5D}"
proof (cases j)
  case (JNum l)
  with assms obtain i where "l = show_int i" by auto
  moreover obtain c cs where c: "show_int i = c # cs" "is_digit c \<or> c = CHR ''-''" by (rule show_int_first)
  moreover have "c \<notin> {CHR 0x20, CHR 0x09, CHR 0x0A, CHR 0x0D, CHR 0x5D}" using c(2) by (auto simp: is_digit_def)
  ultimately show ?thesis using JNum by (intro that) simp_all
next
  case (JBool b)
  then show ?thesis by (cases b) (auto intro: that)
qed (use that in \<open>auto simp: json_quote_Cons\<close>)

lemma parse_literal:
  "parse_value (Suc f) (''null'' @ r) = Some (JNull, r)"
  "parse_value (Suc f) (''true'' @ r) = Some (JBool True, r)"
  "parse_value (Suc f) (''false'' @ r) = Some (JBool False, r)"
  by (simp_all add: scan_scalar_def)

text \<open>A list of values is not empty, a list of members neither: their first byte shows it.\<close>

lemma print_elems_first:
  assumes "integrals vs" and "vs \<noteq> []"
  obtains c cs where "print_elems vs = c # cs" "c \<notin> {CHR 0x20, CHR 0x09, CHR 0x0A, CHR 0x0D, CHR 0x5D}"
proof -
  obtain v us where v: "vs = v # us" using assms(2) by (cases vs) auto
  then have "integral v" using assms(1) by simp
  then obtain c cs where "print_json v = c # cs" "c \<notin> {CHR 0x20, CHR 0x09, CHR 0x0A, CHR 0x0D, CHR 0x5D}"
    by (rule print_json_first)
  then show ?thesis using v by (intro that) simp_all
qed

lemma print_fields_first: "ms \<noteq> [] \<Longrightarrow> \<exists>cs. print_fields ms = CHR 0x22 # cs"
  by (cases ms) (auto simp: json_quote_Cons)

lemma print_json_nonempty: "integral j \<Longrightarrow> print_json j \<noteq> []"
  by (auto elim: print_json_first)

lemma scan_quote: "json_quote k @ r = CHR 0x22 # json_escape k @ CHR 0x22 # r"
  by (simp add: json_quote_Cons)

text \<open>One level of the reader over one level of the printer.\<close>

lemma parse_array:
  assumes "integrals vs" and "vs \<noteq> [] \<Longrightarrow> parse_elems f (print_elems vs @ CHR 0x5D # r) = Some (coerce_elems vs, r)"
  shows "parse_value (Suc f) (print_json (JArr vs) @ r) = Some (JArr (coerce_elems vs), r)"
proof (cases "vs = []")
  case False
  obtain c cs where "print_elems vs = c # cs" "c \<notin> {CHR 0x20, CHR 0x09, CHR 0x0A, CHR 0x0D, CHR 0x5D}"
    using assms(1) False by (rule print_elems_first)
  then show ?thesis using assms(2)[OF False] by simp
qed simp

lemma parse_object:
  assumes "ms \<noteq> [] \<Longrightarrow> parse_members f (print_fields ms @ CHR 0x7D # r) = Some (coerce_fields ms, r)"
  shows "parse_value (Suc f) (print_json (JObj ms) @ r) = Some (JObj (coerce_fields ms), r)"
proof (cases "ms = []")
  case False
  obtain cs where "print_fields ms = CHR 0x22 # cs" using print_fields_first[OF False] by blast
  then show ?thesis using assms[OF False] by simp
qed simp

lemma parse_more_elems:
  assumes "\<forall>r. ends r \<longrightarrow> parse_value f (print_json v @ r) = Some (coerce_json v, r)"
    and "vs \<noteq> [] \<Longrightarrow> parse_elems f (print_elems vs @ CHR 0x5D # r) = Some (coerce_elems vs, r)"
  shows "parse_elems (Suc f) (print_elems (v # vs) @ CHR 0x5D # r) = Some (coerce_elems (v # vs), r)"
  using assms by (cases "vs = []") simp_all

lemma parse_more_members:
  assumes "\<forall>r. ends r \<longrightarrow> parse_value f (print_json v @ r) = Some (coerce_json v, r)"
    and "ms \<noteq> [] \<Longrightarrow> parse_members f (print_fields ms @ CHR 0x7D # r) = Some (coerce_fields ms, r)"
  shows "parse_members (Suc f) (print_fields ((k, v) # ms) @ CHR 0x7D # r) = Some (coerce_fields ((k, v) # ms), r)"
  using assms by (cases "ms = []") (simp_all add: scan_quote scan_str_escape)

lemma parse_print:
  "integral j \<Longrightarrow> ends r \<Longrightarrow> length (print_json j) < f \<Longrightarrow>
     parse_value f (print_json j @ r) = Some (coerce_json j, r)"
  "integrals vs \<Longrightarrow> vs \<noteq> [] \<Longrightarrow> length (print_elems vs) + 1 < f \<Longrightarrow>
     parse_elems f (print_elems vs @ CHR 0x5D # r) = Some (coerce_elems vs, r)"
  "integral_fields ms \<Longrightarrow> ms \<noteq> [] \<Longrightarrow> length (print_fields ms) + 1 < f \<Longrightarrow>
     parse_members f (print_fields ms @ CHR 0x7D # r) = Some (coerce_fields ms, r)"
proof (induction j and vs and ms arbitrary: f r and f r and f r
    rule: print_json_print_elems_print_fields.induct)
  case 1
  then show ?case using parse_literal by (cases f) simp_all
next
  case (2 b)
  then show ?case using parse_literal by (cases f; cases b) simp_all
next
  case (3 l)
  then show ?case using parse_number by (cases f) auto
next
  case (4 t)
  then show ?case using parse_string by (cases f) auto
next
  case (5 vs)
  then obtain g where f: "f = Suc g" by (cases f) auto
  show ?case unfolding f coerce_json.simps by (rule parse_array) (use 5 f in auto)
next
  case (6 ms)
  then obtain g where f: "f = Suc g" by (cases f) auto
  show ?case unfolding f coerce_json.simps by (rule parse_object) (use 6 f in auto)
next
  case (8 v vs)
  then obtain g where f: "f = Suc g" by (cases f) auto
  have len: "print_json v \<noteq> []" using "8.prems"(1) by (simp add: print_json_nonempty)
  show ?case unfolding f
    by (rule parse_more_elems) (use 8 f len in \<open>auto split: if_splits\<close>)
next
  case (10 k v ms)
  then obtain g where f: "f = Suc g" by (cases f) auto
  show ?case unfolding f
    by (rule parse_more_members) (use 10 f in \<open>auto simp: json_quote_Cons split: if_splits\<close>)
qed simp_all

theorem json_parse_print_json: "integral j \<Longrightarrow> json_parse (print_json j) = Some (coerce_json j)"
  using parse_print(1)[of j "[]" "2 * length (print_json j) + 1"] print_json_nonempty[of j]
  by (simp add: json_parse_def)

end
