(* ===== verification/Etcd_Setup.thy ===== *)
theory Etcd_Setup
  imports Gateway_Manager Conf Json_Marshal
begin

text \<open>
  What the processes write to etcd: \<open>pkg/registry/registry.go\<close>, by which a service publishes
  its address, and \<open>gateway/cmd/seed-gateway-meta/main.go\<close>, which writes the meta data of a
  gateway and the routing rules of the data sources.

  The etcd client is a parameter: \<open>etcd_ops\<close> acts on the state \<open>'e\<close> of the cluster, and a
  contract relates that state to the keys it holds. \<open>protojson\<close> is a parameter too.
\<close>

section \<open>The client\<close>

record 'e etcd_ops =
  eo_connect :: "string list \<Rightarrow> bool"
  eo_get :: "string \<Rightarrow> 'e \<Rightarrow> (string, string list) result"
  eo_range :: "string \<Rightarrow> 'e \<Rightarrow> (string, kvs \<times> int) result"
  eo_put :: "string \<Rightarrow> string \<Rightarrow> int option \<Rightarrow> 'e \<Rightarrow> string option \<times> 'e"
  eo_grant :: "int \<Rightarrow> 'e \<Rightarrow> (string, int) result \<times> 'e"
  eo_keepAlive :: "int \<Rightarrow> 'e \<Rightarrow> string option \<times> 'e"

text \<open>
  etcd is linearizable: a read that succeeds returns what the writes before it left, a range
  read every key under the prefix once. A write that fails, for a timeout say, may have been
  applied all the same. Nobody else writes during a call.
\<close>

definition etcd_contract :: "'e etcd_ops \<Rightarrow> ('e \<Rightarrow> string \<Rightarrow> string option) \<Rightarrow> bool" where
  "etcd_contract ops kv \<longleftrightarrow>
     (\<forall>k e vs. eo_get ops k e = Inr vs \<longrightarrow> vs = (case kv e k of None \<Rightarrow> [] | Some v \<Rightarrow> [v])) \<and>
     (\<forall>p e kvs rev. eo_range ops p e = Inr (kvs, rev) \<longrightarrow>
        distinct (map fst kvs) \<and> (\<forall>k v. (k, v) \<in> set kvs \<longleftrightarrow> prefix p k \<and> kv e k = Some v)) \<and>
     (\<forall>k v l e x e'. eo_put ops k v l e = (x, e') \<longrightarrow>
        kv e' = (kv e)(k \<mapsto> v) \<or> x \<noteq> None \<and> kv e' = kv e) \<and>
     (\<forall>ttl e r e'. eo_grant ops ttl e = (r, e') \<longrightarrow> kv e' = kv e) \<and>
     (\<forall>l e x e'. eo_keepAlive ops l e = (x, e') \<longrightarrow> kv e' = kv e)"

section \<open>Registration (\<open>registry.go\<close>)\<close>

datatype registry_error =
    Create_failed
  | Health_failed string
  | Grant_failed string
  | Put_failed string
  | Keepalive_failed string

text \<open>\<open>NewClient\<close>: the error, and whether the client it made is closed again.\<close>

definition registry_newClient ::
  "'e etcd_ops \<Rightarrow> string list \<Rightarrow> 'e \<Rightarrow> registry_error option \<times> bool" where
  "registry_newClient ops endpoints e =
     (if \<not> eo_connect ops endpoints then (Some Create_failed, False)
      else (case eo_get ops ''health'' e of
              Inl x \<Rightarrow> (Some (Health_failed x), True)
            | Inr _ \<Rightarrow> (None, False)))"

definition endpoint_data :: "string \<Rightarrow> json" where
  "endpoint_data addr = JObj [(''Addr'', JStr addr), (''Metadata'', JObj [])]"

definition registration_key :: "string \<Rightarrow> string \<Rightarrow> string" where
  "registration_key name addr = name @ ''/'' @ addr"

definition registerService ::
  "'e etcd_ops \<Rightarrow> string \<Rightarrow> string \<Rightarrow> 'e \<Rightarrow> registry_error option \<times> 'e" where
  "registerService ops name addr e =
     (case eo_grant ops 10 e of
        (Inl x, e1) \<Rightarrow> (Some (Grant_failed x), e1)
      | (Inr lease, e1) \<Rightarrow>
          (case eo_put ops (registration_key name addr) (print_json (endpoint_data addr)) (Some lease) e1 of
             (Some x, e2) \<Rightarrow> (Some (Put_failed x), e2)
           | (None, e2) \<Rightarrow>
               (case eo_keepAlive ops lease e2 of
                  (Some x, e3) \<Rightarrow> (Some (Keepalive_failed x), e3)
                | (None, e3) \<Rightarrow> (None, e3))))"

section \<open>The seed (\<open>seed-gateway-meta\<close>)\<close>

record seed_codec =
  sd_type :: "service_type_spec \<Rightarrow> string option"
  sd_route :: "gateway_route_spec \<Rightarrow> string option"

definition seed_user_type :: service_type_spec where
  "seed_user_type =
     \<lparr>sts_schemaVersion = 1, sts_typeKey = ''user'', sts_displayName = ''User Service'',
      sts_routingMode = 1,
      sts_discovery = Some \<lparr>dc_target = ''etcd:///kd48/user-service'', dc_loadBalancing = ''round_robin''\<rparr>,
      sts_ingress = Some True, sts_updatedAtUnix = 0\<rparr>"

definition seed_login_route :: gateway_route_spec where
  "seed_login_route =
     \<lparr>grs_schemaVersion = 1, grs_routeId = ''login'', grs_wsMethod = ''/user.v1.UserService/Login'',
      grs_serviceType = ''user'', grs_ingressRoute = ''/user.v1.UserService/Login'',
      grs_public = True, grs_displayName = ''Login'', grs_establishesSession = True\<rparr>"

definition seed_register_route :: gateway_route_spec where
  "seed_register_route =
     \<lparr>grs_schemaVersion = 1, grs_routeId = ''register'', grs_wsMethod = ''/user.v1.UserService/Register'',
      grs_serviceType = ''user'', grs_ingressRoute = ''/user.v1.UserService/Register'',
      grs_public = True, grs_displayName = ''Register'', grs_establishesSession = True\<rparr>"

text \<open>\<open>json.Marshal\<close> of a slice of rules that is not nil.\<close>

definition rule_json :: "route_rule \<Rightarrow> json" where
  "rule_json r = JObj [(''Prefix'', JStr (rr_prefix r)), (''Pool'', JStr (rr_pool r))]"

definition marshal_rules :: "route_rule list \<Rightarrow> string" where
  "marshal_rules rules = print_json (JArr (map rule_json rules))"

definition seed_rules :: "route_rule list" where
  "seed_rules = [\<lparr>rr_prefix = [], rr_pool = ''default''\<rparr>]"

text \<open>The writes in order; the first that fails ends the process.\<close>

fun seed_puts :: "'e etcd_ops \<Rightarrow> (string \<times> string) list \<Rightarrow> 'e \<Rightarrow> nat \<times> 'e" where
  "seed_puts ops [] e = (0, e)"
| "seed_puts ops ((k, v) # kvs) e =
     (case eo_put ops k v None e of (Some x, e') \<Rightarrow> (1, e') | (None, e') \<Rightarrow> seed_puts ops kvs e')"

text \<open>The exit code and the cluster after it; \<open>flag\<close> is the value of \<open>-endpoints\<close>.\<close>

definition seed_main :: "'e etcd_ops \<Rightarrow> seed_codec \<Rightarrow> string \<Rightarrow> 'e \<Rightarrow> nat \<times> 'e" where
  "seed_main ops codec flag e =
     (if \<not> eo_connect ops (map trim_space (go_split '','' flag)) then (1, e)
      else
        (case (sd_type codec seed_user_type, sd_route codec seed_login_route, sd_route codec seed_register_route) of
           (Some typeJSON, Some loginJSON, Some regJSON) \<Rightarrow>
             seed_puts ops
               [(''kd48/meta/service-types/user'', typeJSON),
                (''kd48/meta/gateway-routes/login'', loginJSON),
                (''kd48/meta/gateway-routes/register'', regJSON),
                (''kd48/routing/mysql_routes'', marshal_rules seed_rules),
                (''kd48/routing/redis_routes'', marshal_rules seed_rules)] e
         | _ \<Rightarrow> (1, e)))"

section \<open>Facts\<close>

lemma decode_rule_json: "decode_rule (rule_json r) = Some r"
  by (simp add: decode_rule_def rule_json_def decode_struct_def match_field_def set_rule_field_def set_string_def)

lemma those_decode_rules: "those (map (decode_rule \<circ> rule_json) rules) = Some rules"
  by (induction rules) (simp_all add: decode_rule_json)

text \<open>Rules whose texts are UTF-8 are read back as they were written.\<close>

definition utf8_rules :: "route_rule list \<Rightarrow> bool" where
  "utf8_rules rules \<longleftrightarrow> list_all (\<lambda>r. valid_utf8 (rr_prefix r) \<and> valid_utf8 (rr_pool r)) rules"

lemma rules_read_back:
  assumes "utf8_rules rules"
  shows "Option.bind (json_parse (marshal_rules rules)) decode_rules = Some rules"
proof -
  have i: "list_all integral (map rule_json rules)" by (induction rules) (simp_all add: rule_json_def)
  have "utf8_json (JArr (map rule_json rules))"
    using assms
    by (auto simp: utf8_rules_def utf8_elems_list_all list_all_iff rule_json_def)
  note c = coerce_utf8_json(1)[OF this]
  show ?thesis
    by (simp add: marshal_rules_def json_parse_print_json integrals_list_all i c decode_rules_def those_decode_rules
        del: print_json.simps coerce_json.simps)
qed

lemma seed_rules_utf8: "utf8_rules seed_rules"
  by (simp add: utf8_rules_def seed_rules_def)

lemma seed_puts_kv:
  assumes "etcd_contract ops kv" and "seed_puts ops kvs e = (0, e')"
  shows "kv e' = fold (\<lambda>(k, v) m. m(k \<mapsto> v)) kvs (kv e)"
  using assms(2)
proof (induction kvs arbitrary: e)
  case Nil
  then show ?case by simp
next
  case (Cons p kvs)
  obtain k v where p: "p = (k, v)" by (cases p)
  obtain e1 where e1: "eo_put ops k v None e = (None, e1)" "seed_puts ops kvs e1 = (0, e')"
    using Cons.prems by (auto simp: p split: prod.splits option.splits)
  have "kv e1 = (kv e)(k \<mapsto> v)" using assms(1) e1(1) unfolding etcd_contract_def by blast
  then show ?case using Cons.IH[OF e1(2)] by (simp add: p del: fun_upd_apply)
qed

text \<open>The keys after a seed.\<close>

lemma seeded_keys:
  assumes "etcd_contract ops kv" and "seed_main ops codec flag e = (0, e')"
  obtains t l r where "sd_type codec seed_user_type = Some t" "sd_route codec seed_login_route = Some l"
    "sd_route codec seed_register_route = Some r"
    "kv e' = (kv e)(''kd48/meta/service-types/user'' \<mapsto> t, ''kd48/meta/gateway-routes/login'' \<mapsto> l,
       ''kd48/meta/gateway-routes/register'' \<mapsto> r, ''kd48/routing/mysql_routes'' \<mapsto> marshal_rules seed_rules,
       ''kd48/routing/redis_routes'' \<mapsto> marshal_rules seed_rules)"
proof -
  obtain t l r where c: "sd_type codec seed_user_type = Some t" "sd_route codec seed_login_route = Some l"
      "sd_route codec seed_register_route = Some r"
      "seed_puts ops [(''kd48/meta/service-types/user'', t), (''kd48/meta/gateway-routes/login'', l),
        (''kd48/meta/gateway-routes/register'', r), (''kd48/routing/mysql_routes'', marshal_rules seed_rules),
        (''kd48/routing/redis_routes'', marshal_rules seed_rules)] e = (0, e')"
    using assms(2) by (auto simp: seed_main_def split: if_splits option.splits)
  show ?thesis
    using seed_puts_kv[OF assms(1) c(4)] by (intro that[OF c(1-3)]) (simp del: fun_upd_apply)
qed

lemma contract_get:
  "etcd_contract ops kv \<Longrightarrow> eo_get ops k e = Inr vs \<Longrightarrow> vs = (case kv e k of None \<Rightarrow> [] | Some v \<Rightarrow> [v])"
  by (simp add: etcd_contract_def)

lemma contract_range:
  assumes "etcd_contract ops kv" and "eo_range ops p e = Inr (kvs, rv)"
  shows "distinct (map fst kvs)" and "(k, v) \<in> set kvs \<longleftrightarrow> prefix p k \<and> kv e k = Some v"
  using assms unfolding etcd_contract_def by blast+

text \<open>The loader of a service, as the services build it, over the client's state.\<close>

definition etcd_loader :: "'e etcd_ops \<Rightarrow> 'e \<Rightarrow> (string load_error, routing_config) result" where
  "etcd_loader ops e = loader_get (\<lambda>c k. eo_get ops k e) (newRouteLoader (Some ()) ''kd48/routing'')"

lemma etcd_loader_reads:
  assumes "etcd_contract ops kv" and "utf8_rules mr" and "utf8_rules rr"
    and "kv e ''kd48/routing/mysql_routes'' = Some (marshal_rules mr)"
    and "kv e ''kd48/routing/redis_routes'' = Some (marshal_rules rr)"
    and "eo_get ops ''kd48/routing/mysql_routes'' e = Inr ms" and "eo_get ops ''kd48/routing/redis_routes'' e = Inr rs"
  shows "etcd_loader ops e = Inr \<lparr>rc_mysql_routes = mr, rc_redis_routes = rr\<rparr>"
  using contract_get[OF assms(1,6)] contract_get[OF assms(1,7)] assms(4-7)
  by (simp add: etcd_loader_def loader_get_def newRouteLoader_def getRoutes_def mysql_key_def redis_key_def
      rules_read_back assms(2,3))

section \<open>A gateway on a seeded cluster\<close>

definition codec_agrees :: "seed_codec \<Rightarrow> 'w build_env \<Rightarrow> bool" where
  "codec_agrees codec env \<longleftrightarrow>
     (\<forall>s t. sd_type codec s = Some t \<longrightarrow> be_decode_type env t = Some s) \<and>
     (\<forall>s t. sd_route codec s = Some t \<longrightarrow> be_decode_route env t = Some s)"

text \<open>What the two range reads of a bootstrap return.\<close>

definition read_meta :: "'e etcd_ops \<Rightarrow> string \<Rightarrow> string \<Rightarrow> 'e \<Rightarrow> string etcd_meta" where
  "read_meta ops tpre rpre e = \<lparr>em_types = eo_range ops tpre e, em_routes = eo_range ops rpre e\<rparr>"

lemma one_entry:
  assumes "distinct (map fst xs)" and "\<And>k v. (k, v) \<in> set xs \<longleftrightarrow> k = a \<and> v = b"
  shows "xs = [(a, b)]"
proof -
  have "set xs = {(a, b)}" using assms(2) by auto
  moreover have "distinct xs" using assms(1) by (simp add: distinct_map)
  ultimately have "length xs = 1" by (metis card.empty card_insert_disjoint distinct_card empty_iff finite.emptyI One_nat_def)
  then obtain x where "xs = [x]" by (auto simp: length_Suc_conv)
  with \<open>set xs = {(a, b)}\<close> show ?thesis by simp
qed

lemma two_entries:
  assumes "distinct (map fst xs)" and "a \<noteq> c"
    and "\<And>k v. (k, v) \<in> set xs \<longleftrightarrow> k = a \<and> v = b \<or> k = c \<and> v = d"
  shows "xs = [(a, b), (c, d)] \<or> xs = [(c, d), (a, b)]"
proof -
  have s: "set xs = {(a, b), (c, d)}" using assms(3) by auto
  moreover have "distinct xs" using assms(1) by (simp add: distinct_map)
  ultimately have "length xs = 2" using assms(2) by (metis card_2_iff distinct_card prod.inject)
  then obtain x y where "xs = [x, y]" by (auto simp: length_Suc_conv numeral_2_eq_2)
  with s show ?thesis by (auto simp: doubleton_eq_iff)
qed

text \<open>The keys below a prefix of the meta data, after a seed of a cluster without any.\<close>

lemma seeded_below:
  assumes clean: "\<forall>k. prefix ''kd48/meta/'' k \<longrightarrow> m k = None"
    and keys: "m' = m(''kd48/meta/service-types/user'' \<mapsto> t, ''kd48/meta/gateway-routes/login'' \<mapsto> l,
       ''kd48/meta/gateway-routes/register'' \<mapsto> r, ''kd48/routing/mysql_routes'' \<mapsto> mr,
       ''kd48/routing/redis_routes'' \<mapsto> rr)"
  shows "prefix ''kd48/meta/service-types/'' k \<and> m' k = Some v \<longleftrightarrow>
      k = ''kd48/meta/service-types/user'' \<and> v = t"
    and "prefix ''kd48/meta/gateway-routes/'' k \<and> m' k = Some v \<longleftrightarrow>
      k = ''kd48/meta/gateway-routes/login'' \<and> v = l \<or> k = ''kd48/meta/gateway-routes/register'' \<and> v = r"
proof -
  have none: "m k = None" if "prefix ''kd48/meta/service-types/'' k \<or> prefix ''kd48/meta/gateway-routes/'' k"
  proof -
    have "prefix ''kd48/meta/'' ''kd48/meta/service-types/''" "prefix ''kd48/meta/'' ''kd48/meta/gateway-routes/''"
      by simp_all
    then have "prefix ''kd48/meta/'' k" using that prefix_order.trans by blast
    then show ?thesis using clean by blast
  qed
  have cases: "m' k = (if k = ''kd48/routing/redis_routes'' then Some rr
      else if k = ''kd48/routing/mysql_routes'' then Some mr
      else if k = ''kd48/meta/gateway-routes/register'' then Some r
      else if k = ''kd48/meta/gateway-routes/login'' then Some l
      else if k = ''kd48/meta/service-types/user'' then Some t else m k)"
    unfolding keys fun_upd_apply by (rule refl)
  consider "k = ''kd48/meta/service-types/user''"
    | "k = ''kd48/meta/gateway-routes/login''"
    | "k = ''kd48/meta/gateway-routes/register''"
    | "k = ''kd48/routing/mysql_routes''"
    | "k = ''kd48/routing/redis_routes''"
    | "k \<noteq> ''kd48/meta/service-types/user''" "k \<noteq> ''kd48/meta/gateway-routes/login''" "k \<noteq> ''kd48/meta/gateway-routes/register''" "k \<noteq> ''kd48/routing/mysql_routes''" "k \<noteq> ''kd48/routing/redis_routes''"
    by blast
  then have "(prefix ''kd48/meta/service-types/'' k \<and> m' k = Some v \<longleftrightarrow>
      k = ''kd48/meta/service-types/user'' \<and> v = t) \<and>
    (prefix ''kd48/meta/gateway-routes/'' k \<and> m' k = Some v \<longleftrightarrow>
      k = ''kd48/meta/gateway-routes/login'' \<and> v = l \<or> k = ''kd48/meta/gateway-routes/register'' \<and> v = r)"
  proof cases
    case 6
    then show ?thesis unfolding cases using none by auto
  qed (simp_all add: keys eq_commute[of _ v])
  then show "prefix ''kd48/meta/service-types/'' k \<and> m' k = Some v \<longleftrightarrow>
      k = ''kd48/meta/service-types/user'' \<and> v = t"
    and "prefix ''kd48/meta/gateway-routes/'' k \<and> m' k = Some v \<longleftrightarrow>
      k = ''kd48/meta/gateway-routes/login'' \<and> v = l \<or> k = ''kd48/meta/gateway-routes/register'' \<and> v = r" by blast+
qed

definition seed_types :: "string \<Rightarrow> kvs" where
  "seed_types t = [(''kd48/meta/service-types/user'', t)]"

definition seed_routes :: "string \<Rightarrow> string \<Rightarrow> kvs" where
  "seed_routes l r = [(''kd48/meta/gateway-routes/login'', l), (''kd48/meta/gateway-routes/register'', r)]"

lemma seeded_ranges:
  assumes "etcd_contract ops kv" and "seed_main ops codec flag e = (0, e')"
    and "\<forall>k. prefix ''kd48/meta/'' k \<longrightarrow> kv e k = None"
    and "eo_range ops ''kd48/meta/service-types/'' e' = Inr (tkvs, trev)"
    and "eo_range ops ''kd48/meta/gateway-routes/'' e' = Inr (rkvs, rrev)"
  obtains t l r where "sd_type codec seed_user_type = Some t" "sd_route codec seed_login_route = Some l"
    "sd_route codec seed_register_route = Some r"
    "tkvs = seed_types t" "rkvs = seed_routes l r \<or> rkvs = rev (seed_routes l r)"
proof -
  obtain t l r where c: "sd_type codec seed_user_type = Some t" "sd_route codec seed_login_route = Some l"
    "sd_route codec seed_register_route = Some r"
    and kv: "kv e' = (kv e)(''kd48/meta/service-types/user'' \<mapsto> t, ''kd48/meta/gateway-routes/login'' \<mapsto> l,
       ''kd48/meta/gateway-routes/register'' \<mapsto> r, ''kd48/routing/mysql_routes'' \<mapsto> marshal_rules seed_rules,
       ''kd48/routing/redis_routes'' \<mapsto> marshal_rules seed_rules)"
    using seeded_keys[OF assms(1,2)] by blast
  note below = seeded_below[OF assms(3) kv]
  have "tkvs = seed_types t"
    unfolding seed_types_def
    by (rule one_entry[OF contract_range(1)[OF assms(1,4)]])
       (simp only: contract_range(2)[OF assms(1,4)] below(1))
  moreover have "rkvs = seed_routes l r \<or> rkvs = rev (seed_routes l r)"
    unfolding seed_routes_def rev.simps append.simps
    by (rule two_entries[OF contract_range(1)[OF assms(1,5)]])
       (simp, simp only: contract_range(2)[OF assms(1,5)] below(2))
  ultimately show ?thesis using that c by blast
qed

lemma seed_dial:
  assumes "be_decode_type env t = Some seed_user_type"
    and "be_dial_ok env 0 ''etcd:///kd48/user-service'' round_robin_config"
  shows "dial_types env ''kd48/meta/service-types/'' (seed_types t) n =
    \<lparr>dl_next = n + 1, dl_dials = 1, dl_conns = [(''user'', n)], dl_closed = []\<rparr>"
  using assms
  by (simp add: dial_types_def seed_types_def add_type_def Let_def keySuffix_def validateServiceTypeSpec_def
      seed_user_type_def defaultServiceConfigJSON_def)

lemma seed_winners:
  assumes "be_decode_route env l = Some seed_login_route" and "be_decode_route env r = Some seed_register_route"
    and "rkvs = seed_routes l r \<or> rkvs = rev (seed_routes l r)"
  shows "fold (add_binding call [(''user'', n)])
      (pick_winners env ''kd48/meta/gateway-routes/'' rkvs [(''user'', n)]) Map.empty =
    [''/user.v1.UserService/Login'' \<mapsto>
       \<lparr>rb_handler = wrapIngress (call n) ''/user.v1.UserService/Login'', rb_public = True, rb_establishSession = True\<rparr>,
     ''/user.v1.UserService/Register'' \<mapsto>
       \<lparr>rb_handler = wrapIngress (call n) ''/user.v1.UserService/Register'', rb_public = True, rb_establishSession = True\<rparr>]"
  using assms(3)
  by (elim disjE)
     (simp_all add: pick_winners_def seed_routes_def add_route_def Let_def keySuffix_def
      validateGatewayRouteSpec_def seed_login_route_def seed_register_route_def add_binding_def binding_of_def
      assms(1,2)[unfolded seed_login_route_def seed_register_route_def] fun_upd_twist)

text \<open>
  A bootstrap on a freshly seeded cluster, with the default prefixes: one connection, dialled
  to the target the user service registers under, and the two methods of the user service,
  whatever the order of the keys in the answer.
\<close>

lemma seeded_bootstrap:
  fixes m :: "('w, 'm) manager" and ops :: "'e etcd_ops"
  assumes "etcd_contract ops kv" and "seed_main ops codec flag e = (0, e')"
    and "\<forall>k. prefix ''kd48/meta/'' k \<longrightarrow> kv e k = None" and "codec_agrees codec env"
    and pre: "tpre = ''kd48/meta/service-types/''" "rpre = ''kd48/meta/gateway-routes/''"
    and "eo_range ops tpre e' = Inr types" and "eo_range ops rpre e' = Inr routes"
    and "be_dial_ok env 0 ''etcd:///kd48/user-service'' round_robin_config"
    and "bootstrap env now (read_meta ops tpre rpre e') (newManager newAtomicRouter tpre rpre) = (err, m)"
  shows "err = None \<and> m_activeConns m = [0] \<and>
    router_get (m_router m) method =
      (if method \<in> {''/user.v1.UserService/Login'', ''/user.v1.UserService/Register''}
       then Some \<lparr>rb_handler = wrapIngress (be_call env 0) method, rb_public = True, rb_establishSession = True\<rparr>
       else None)"
proof -
  obtain tkvs trev rkvs rrev where tr: "types = (tkvs, trev)" "routes = (rkvs, rrev)"
    by (cases types; cases routes)
  obtain t l r where c: "sd_type codec seed_user_type = Some t" "sd_route codec seed_login_route = Some l"
    "sd_route codec seed_register_route = Some r"
    and kvs: "tkvs = seed_types t" "rkvs = seed_routes l r \<or> rkvs = rev (seed_routes l r)"
    using seeded_ranges[OF assms(1-3)] assms(7,8) unfolding pre tr by blast
  have reads: "eo_range ops ''kd48/meta/service-types/'' e' = Inr (tkvs, trev)"
    "eo_range ops ''kd48/meta/gateway-routes/'' e' = Inr (rkvs, rrev)"
    using assms(7,8) unfolding pre tr by blast+
  have dec: "be_decode_type env t = Some seed_user_type" "be_decode_route env l = Some seed_login_route"
    "be_decode_route env r = Some seed_register_route"
    using assms(4) c by (simp_all add: codec_agrees_def)
  have ne: "rkvs \<noteq> []" using kvs(2) by (auto simp: seed_routes_def)
  have "seed_types t \<noteq> []" by (simp add: seed_types_def)
  then have b: "(build env tpre rpre (read_meta ops tpre rpre e') 0
        :: (string build_error, ('w, 'm) ws_handler atomic_routes \<times> nat list \<times> int) result \<times> nat \<times> nat list) =
      (Inr (newAtomicRoutes (Some [''/user.v1.UserService/Login'' \<mapsto>
         \<lparr>rb_handler = wrapIngress (be_call env 0) ''/user.v1.UserService/Login'', rb_public = True, rb_establishSession = True\<rparr>,
       ''/user.v1.UserService/Register'' \<mapsto>
         \<lparr>rb_handler = wrapIngress (be_call env 0) ''/user.v1.UserService/Register'', rb_public = True, rb_establishSession = True\<rparr>]),
         [0], (if trev < rrev then rrev else trev) + 1), 1, [])"
    using ne by (simp add: build_def read_meta_def reads[unfolded kvs(1)] pre Let_def seed_dial[OF dec(1) assms(9)]
        seed_winners[OF dec(2,3) kvs(2)])
  show ?thesis
    using assms(10)
    by (auto simp: bootstrap_def newManager_def b router_get_store_routes newAtomicRoutes_def routes_get_def)
qed

definition demo_etcd :: "(string \<times> string) list etcd_ops" where
  "demo_etcd =
     \<lparr>eo_connect = (\<lambda>eps. True),
      eo_get = (\<lambda>k e. Inr (case map_of e k of None \<Rightarrow> [] | Some v \<Rightarrow> [v])),
      eo_range = (\<lambda>p e. Inr (filter (\<lambda>kv. prefix p (fst kv)) (AList.clearjunk e), int (length e))),
      eo_put = (\<lambda>k v l e. (None, (k, v) # e)),
      eo_grant = (\<lambda>ttl e. (Inr 1, e)),
      eo_keepAlive = (\<lambda>l e. (None, e))\<rparr>"

lemma demo_etcd_contract: "etcd_contract demo_etcd map_of"
proof -
  have "(k, v) \<in> set (AList.clearjunk e) \<longleftrightarrow> map_of e k = Some v" for k v and e :: "(string \<times> string) list"
    by (metis distinct_clearjunk map_of_clearjunk map_of_eq_Some_iff)
  moreover have "distinct (map fst (filter Q (AList.clearjunk e)))" for Q and e :: "(string \<times> string) list"
    using distinct_clearjunk[of e] by (simp add: distinct_map_filter)
  ultimately show ?thesis by (auto simp: etcd_contract_def demo_etcd_def)
qed

definition seed_demo_codec :: seed_codec where
  "seed_demo_codec =
     \<lparr>sd_type = (\<lambda>s. if s = seed_user_type then Some ''user'' else None),
      sd_route = (\<lambda>s. if s = seed_login_route then Some ''login''
                      else if s = seed_register_route then Some ''register'' else None)\<rparr>"

definition seed_env :: "nat build_env" where
  "seed_env =
     \<lparr>be_decode_type = (\<lambda>t. if t = ''user'' then Some seed_user_type else None),
      be_decode_route = (\<lambda>t. if t = ''login'' then Some seed_login_route
                             else if t = ''register'' then Some seed_register_route else None),
      be_dial_ok = (\<lambda>n target cfg. True),
      be_call = (\<lambda>c route payload w. (Suc w, Inr route))\<rparr>"

lemma seed_env_agrees: "codec_agrees seed_demo_codec seed_env"
  by (simp add: codec_agrees_def seed_demo_codec_def seed_env_def)

definition seeded :: "(string \<times> string) list" where
  "seeded = snd (seed_main demo_etcd seed_demo_codec ''127.0.0.1:2379'' [])"

lemma seeded_ok: "seed_main demo_etcd seed_demo_codec ''127.0.0.1:2379'' [] = (0, seeded)"
  by (simp add: seeded_def seed_main_def demo_etcd_def seed_demo_codec_def seed_login_route_def seed_register_route_def)

end
