(* ===== verification/User_Service.thy ===== *)
theory User_Service
  imports Dsroute Json_Print
begin

text \<open>
  The user service: \<open>services/user/cmd/user/server.go\<close> and \<open>ingress.go\<close>, with the queries of
  \<open>services/user/internal/data/sqlc\<close>.

  Redis, MySQL, bcrypt, the random source and \<open>protojson\<close> are outside the repository, so
  parameters of the operations: \<open>redis_ops\<close> acts on the state \<open>'r\<close> of one Redis instance,
  \<open>db_ops\<close> on the state \<open>'d\<close> of one database. The Lua script of the login is the
  repository's own and is translated; Redis runs it atomically at one instant and does not
  roll back when a command in it raises. Times and time-to-live are in seconds (the TTL is
  configured in hours). Of an error built with a format only the constant part is kept.

  A nil pool handle is dereferenced by the drivers: the outcome \<open>Panicked\<close>.
\<close>

section \<open>The outside\<close>

record 'r redis_ops =
  ro_get :: "int \<Rightarrow> string \<Rightarrow> 'r \<Rightarrow> string option"
  ro_del :: "string \<Rightarrow> 'r \<Rightarrow> 'r"
  ro_setex :: "int \<Rightarrow> string \<Rightarrow> int \<Rightarrow> string \<Rightarrow> 'r \<Rightarrow> (string, 'r) result"
  ro_set :: "int \<Rightarrow> string \<Rightarrow> string \<Rightarrow> int \<Rightarrow> 'r \<Rightarrow> (string, 'r) result"

record user_row =
  ur_id :: "64 word"
  ur_username :: string
  ur_passwordHash :: string

datatype db_error = No_rows | Mysql_error nat | Other_db_error

record 'd db_ops =
  do_getUserByUsername :: "string \<Rightarrow> 'd \<Rightarrow> (db_error, user_row) result"
  do_createUser :: "string \<Rightarrow> string \<Rightarrow> 'd \<Rightarrow> 'd \<times> db_error option"

record bcrypt_ops =
  bc_compare :: "string \<Rightarrow> string \<Rightarrow> bool"
  bc_generate :: "string \<Rightarrow> string option"

text \<open>
  What one call meets on the way: the clock, the bytes of the random source (none if it
  fails), whether the script and its reply get through, and whether the publish does.
\<close>

datatype eval_fault = Delivered | Request_lost | Reply_lost

record call_env =
  ce_now :: int
  ce_rand :: "8 word list option"
  ce_eval :: eval_fault
  ce_publish :: bool

record ('r, 'd) user_world =
  uw_redis :: "nat \<Rightarrow> 'r"
  uw_db :: "nat \<Rightarrow> 'd"
  uw_published :: "(nat \<times> string \<times> string) list"

record ('r, 'd) user_service =
  us_router :: "(nat, nat) router"
  us_tokenTTL :: int
  us_redisOps :: "'r redis_ops"
  us_dbOps :: "'d db_ops"
  us_bcrypt :: bcrypt_ops

datatype 'a rpc_outcome = Replied 'a | Failed int string | Panicked

section \<open>Sessions\<close>

definition routingKeySession :: string where
  "routingKeySession = ''sys:session''"

definition hex_digit :: "nat \<Rightarrow> char" where
  "hex_digit n = (if n < 10 then char_of (48 + n) else char_of (87 + n))"

definition hex_encode :: "8 word list \<Rightarrow> string" where
  "hex_encode bs = concat (map (\<lambda>b. [hex_digit (unat b div 16), hex_digit (unat b mod 16)]) bs)"

definition user_key :: "64 word \<Rightarrow> string" where
  "user_key uid = ''user:'' @ show_nat (unat uid) @ '':session''"

definition session_key :: "string \<Rightarrow> string" where
  "session_key token = ''user:session:'' @ token"

definition session_value :: "64 word \<Rightarrow> string \<Rightarrow> string" where
  "session_value uid username = show_nat (unat uid) @ CHR '':'' # username"

text \<open>\<open>loginSessionLua\<close>: the state it leaves, and the error raised or the reply.\<close>

definition login_script ::
  "'r redis_ops \<Rightarrow> int \<Rightarrow> string \<Rightarrow> string \<Rightarrow> int \<Rightarrow> string \<Rightarrow> string \<Rightarrow> 'r
     \<Rightarrow> 'r \<times> (string, string) result"
where
  "login_script ops now ukey skey ttl data token r =
     (let old = ro_get ops now ukey r;
          r1 = (case old of
                  Some t \<Rightarrow> if t \<noteq> token then ro_del ops (''user:session:'' @ t) r else r
                | None \<Rightarrow> r)
      in case ro_setex ops now ukey ttl token r1 of
           Inl e \<Rightarrow> (r1, Inl e)
         | Inr r2 \<Rightarrow>
             (case ro_setex ops now skey ttl data r2 of
                Inl e \<Rightarrow> (r2, Inl e)
              | Inr r3 \<Rightarrow> (r3, Inr (case old of Some t \<Rightarrow> t | None \<Rightarrow> []))))"

definition eval_login ::
  "'r redis_ops \<Rightarrow> eval_fault \<Rightarrow> int \<Rightarrow> string \<Rightarrow> string \<Rightarrow> int \<Rightarrow> string \<Rightarrow> string \<Rightarrow> 'r
     \<Rightarrow> 'r \<times> (string, string) result"
where
  "eval_login ops fault now ukey skey ttl data token r =
     (case fault of
        Request_lost \<Rightarrow> (r, Inl ''connection refused'')
      | Reply_lost \<Rightarrow> (fst (login_script ops now ukey skey ttl data token r), Inl ''i/o timeout'')
      | Delivered \<Rightarrow> login_script ops now ukey skey ttl data token r)"

definition internal :: "'a rpc_outcome" where
  "internal = Failed 13 ''internal server error''"

definition issueSession ::
  "('r, 'd) user_service \<Rightarrow> call_env \<Rightarrow> 64 word \<Rightarrow> string \<Rightarrow> ('r, 'd) user_world
     \<Rightarrow> string rpc_outcome \<times> ('r, 'd) user_world"
where
  "issueSession us env uid username w =
     (case ce_rand env of
        None \<Rightarrow> (internal, w)
      | Some bs \<Rightarrow>
          (let token = hex_encode bs
           in case resolveRedis (us_router us) routingKeySession of
                Inl e \<Rightarrow> (internal, w)
              | Inr (None, _) \<Rightarrow> (Panicked, w)
              | Inr (Some h, _) \<Rightarrow>
                  (case ro_set (us_redisOps us) (ce_now env) (session_key token)
                          (session_value uid username) (us_tokenTTL us) (uw_redis w h) of
                     Inl e \<Rightarrow> (internal, w)
                   | Inr r \<Rightarrow> (Replied token, w\<lparr>uw_redis := (uw_redis w)(h := r)\<rparr>))))"

definition issueSessionAtomic ::
  "('r, 'd) user_service \<Rightarrow> call_env \<Rightarrow> 64 word \<Rightarrow> string \<Rightarrow> ('r, 'd) user_world
     \<Rightarrow> (string \<times> bool) rpc_outcome \<times> ('r, 'd) user_world"
where
  "issueSessionAtomic us env uid username w =
     (case ce_rand env of
        None \<Rightarrow> (internal, w)
      | Some bs \<Rightarrow>
          (let token = hex_encode bs
           in case resolveRedis (us_router us) routingKeySession of
                Inl e \<Rightarrow> (internal, w)
              | Inr (None, _) \<Rightarrow> (Panicked, w)
              | Inr (Some h, _) \<Rightarrow>
                  (case eval_login (us_redisOps us) (ce_eval env) (ce_now env) (user_key uid)
                          (session_key token) (us_tokenTTL us) (session_value uid username) token
                          (uw_redis w h) of
                     (r, res) \<Rightarrow>
                       (let w' = w\<lparr>uw_redis := (uw_redis w)(h := r)\<rparr>
                        in case res of
                             Inl e \<Rightarrow> (internal, w')
                           | Inr old \<Rightarrow> (Replied (token, old \<noteq> []), w')))))"

definition invalidate_channel :: string where
  "invalidate_channel = ''kd48:session:invalidate''"

definition invalidate_message :: "64 word \<Rightarrow> string" where
  "invalidate_message uid = ''{\"user_id\":'' @ show_nat (unat uid) @ ''}''"

text \<open>\<open>None\<close> when the nil client panics.\<close>

definition publishSessionInvalidate ::
  "('r, 'd) user_service \<Rightarrow> call_env \<Rightarrow> 64 word \<Rightarrow> ('r, 'd) user_world
     \<Rightarrow> ('r, 'd) user_world option"
where
  "publishSessionInvalidate us env uid w =
     (case resolveRedis (us_router us) routingKeySession of
        Inl e \<Rightarrow> Some w
      | Inr (None, _) \<Rightarrow> None
      | Inr (Some h, _) \<Rightarrow>
          if ce_publish env
          then Some (w\<lparr>uw_published :=
                 uw_published w @ [(h, invalidate_channel, invalidate_message uid)]\<rparr>)
          else Some w)"

section \<open>Login and registration\<close>

record login_request =
  lq_username :: string
  lq_password :: string

record login_reply =
  lr_success :: bool
  lr_token :: string
  lr_userId :: "64 word"

text \<open>\<open>getQueries\<close>: the database, which may be a nil pointer, or the failure of the route.\<close>

definition getQueries ::
  "('r, 'd) user_service \<Rightarrow> string \<Rightarrow> (int, nat option) result" where
  "getQueries us key =
     (case resolveDB (us_router us) key of
        Inl e \<Rightarrow> Inl 13
      | Inr (db, _) \<Rightarrow> Inr db)"

definition route_failure :: "'a rpc_outcome" where
  "route_failure = Failed 13 ''resolve db route''"

definition bad_credentials :: "'a rpc_outcome" where
  "bad_credentials = Failed 16 ''invalid username or password''"

definition user_login ::
  "('r, 'd) user_service \<Rightarrow> call_env \<Rightarrow> login_request \<Rightarrow> ('r, 'd) user_world
     \<Rightarrow> login_reply rpc_outcome \<times> ('r, 'd) user_world"
where
  "user_login us env req w =
     (case getQueries us (''sys:user:'' @ lq_username req) of
        Inl e \<Rightarrow> (route_failure, w)
      | Inr None \<Rightarrow> (Panicked, w)
      | Inr (Some db) \<Rightarrow>
          (case do_getUserByUsername (us_dbOps us) (lq_username req) (uw_db w db) of
             Inl No_rows \<Rightarrow> (bad_credentials, w)
           | Inl _ \<Rightarrow> (internal, w)
           | Inr user \<Rightarrow>
               if \<not> bc_compare (us_bcrypt us) (ur_passwordHash user) (lq_password req)
               then (bad_credentials, w)
               else
                 (case issueSessionAtomic us env (ur_id user) (ur_username user) w of
                    (Panicked, w') \<Rightarrow> (Panicked, w')
                  | (Failed c m, w') \<Rightarrow> (Failed c m, w')
                  | (Replied (token, hasOld), w') \<Rightarrow>
                      (case (if hasOld then publishSessionInvalidate us env (ur_id user) w'
                             else Some w') of
                         None \<Rightarrow> (Panicked, w')
                       | Some w'' \<Rightarrow>
                           (Replied \<lparr>lr_success = True, lr_token = token, lr_userId = ur_id user\<rparr>,
                            w'')))))"

definition user_register ::
  "('r, 'd) user_service \<Rightarrow> call_env \<Rightarrow> login_request \<Rightarrow> ('r, 'd) user_world
     \<Rightarrow> login_reply rpc_outcome \<times> ('r, 'd) user_world"
where
  "user_register us env req w =
     (let username = trim_space (lq_username req)
      in if username = [] \<or> lq_password req = []
         then (Failed 3 ''username and password required'', w)
         else
           (case getQueries us (''sys:user:'' @ username) of
              Inl e \<Rightarrow> (route_failure, w)
            | Inr q \<Rightarrow>
                (case bc_generate (us_bcrypt us) (lq_password req) of
                   None \<Rightarrow> (internal, w)
                 | Some hash \<Rightarrow>
                     (case q of
                        None \<Rightarrow> (Panicked, w)
                      | Some db \<Rightarrow>
                          (case do_createUser (us_dbOps us) username hash (uw_db w db) of
                             (d, err) \<Rightarrow>
                               (let w1 = w\<lparr>uw_db := (uw_db w)(db := d)\<rparr>
                                in case err of
                                     Some (Mysql_error n) \<Rightarrow>
                                       if n = 1062
                                       then (Failed 6 ''username already exists'', w1)
                                       else (internal, w1)
                                   | Some _ \<Rightarrow> (internal, w1)
                                   | None \<Rightarrow>
                                       (case do_getUserByUsername (us_dbOps us) username d of
                                          Inl _ \<Rightarrow> (internal, w1)
                                        | Inr user \<Rightarrow>
                                            (case issueSessionAtomic us env (ur_id user)
                                                    (ur_username user) w1 of
                                               (Panicked, w2) \<Rightarrow> (Panicked, w2)
                                             | (Failed c m, w2) \<Rightarrow> (Failed c m, w2)
                                             | (Replied (token, _), w2) \<Rightarrow>
                                                 (Replied \<lparr>lr_success = True, lr_token = token,
                                                           lr_userId = ur_id user\<rparr>, w2)))))))))"

section \<open>The ingress\<close>

text \<open>
  \<open>Call\<close> of the gateway ingress: \<open>protojson\<close> decodes the request (or gives its error) and
  encodes the reply.
\<close>

record proto_json =
  pj_request :: "string \<Rightarrow> (string, login_request) result"
  pj_reply :: "login_reply \<Rightarrow> (string, string) result"

definition ingress_rpc ::
  "proto_json
     \<Rightarrow> (login_request \<Rightarrow> ('r, 'd) user_world \<Rightarrow> login_reply rpc_outcome \<times> ('r, 'd) user_world) option
     \<Rightarrow> string \<Rightarrow> ('r, 'd) user_world \<Rightarrow> string rpc_outcome \<times> ('r, 'd) user_world"
where
  "ingress_rpc pj inner payload w =
     (case inner of
        None \<Rightarrow> (Failed 13 ''ingress inner not configured'', w)
      | Some rpc \<Rightarrow>
          (case pj_request pj payload of
             Inl e \<Rightarrow> (Failed 3 (''invalid json: '' @ e), w)
           | Inr req \<Rightarrow>
               (case rpc req w of
                  (Panicked, w') \<Rightarrow> (Panicked, w')
                | (Failed c m, w') \<Rightarrow> (Failed c m, w')
                | (Replied out, w') \<Rightarrow>
                    (case pj_reply pj out of
                       Inl e \<Rightarrow> (Failed 13 (''marshal reply: '' @ e), w')
                     | Inr b \<Rightarrow> (Replied b, w')))))"

definition user_ingress ::
  "proto_json \<Rightarrow> ('r, 'd) user_service option \<Rightarrow> call_env \<Rightarrow> string \<Rightarrow> string \<Rightarrow> ('r, 'd) user_world
     \<Rightarrow> string rpc_outcome \<times> ('r, 'd) user_world"
where
  "user_ingress pj inner env route payload w =
     (if route = ''/user.v1.UserService/Login''
      then ingress_rpc pj (map_option (\<lambda>us. user_login us env) inner) payload w
      else if route = ''/user.v1.UserService/Register''
      then ingress_rpc pj (map_option (\<lambda>us. user_register us env) inner) payload w
      else (Failed 3 ''unknown ingress route'', w))"

section \<open>Documented behaviour of the outside\<close>

text \<open>
  What the code relies on: an instance holds entries with a deadline; \<open>GET\<close> sees an entry
  before its deadline, \<open>DEL\<close> removes it, \<open>SETEX\<close> writes one that lives for the given number
  of seconds and raises for a time-to-live that is not positive.
\<close>

definition live :: "int \<Rightarrow> (string \<times> int) option \<Rightarrow> string option" where
  "live now e = (case e of Some (v, d) \<Rightarrow> if now < d then Some v else None | None \<Rightarrow> None)"

definition redis_contract ::
  "'r redis_ops \<Rightarrow> ('r \<Rightarrow> string \<Rightarrow> (string \<times> int) option) \<Rightarrow> bool" where
  "redis_contract ops en \<longleftrightarrow>
     (\<forall>now k r. ro_get ops now k r = live now (en r k)) \<and>
     (\<forall>k r. en (ro_del ops k r) = (en r)(k := None)) \<and>
     (\<forall>now k ttl v r. 0 < ttl \<longrightarrow>
        (\<exists>r'. ro_setex ops now k ttl v r = Inr r' \<and> en r' = (en r)(k \<mapsto> (v, now + ttl)))) \<and>
     (\<forall>now k ttl v r. ttl \<le> 0 \<longrightarrow> (\<exists>e. ro_setex ops now k ttl v r = Inl e))"

text \<open>
  A database finds the row a successful insert wrote; bcrypt accepts the password a hash was
  made from. The id and time columns are the database's choice.
\<close>

definition db_contract :: "'d db_ops \<Rightarrow> bool" where
  "db_contract ops \<longleftrightarrow>
     (\<forall>u h d d'. do_createUser ops u h d = (d', None) \<longrightarrow>
        (\<exists>row. do_getUserByUsername ops u d' = Inr row \<and> ur_username row = u \<and>
               ur_passwordHash row = h))"

definition bcrypt_contract :: "bcrypt_ops \<Rightarrow> bool" where
  "bcrypt_contract bc \<longleftrightarrow> (\<forall>p h. bc_generate bc p = Some h \<longrightarrow> bc_compare bc h p)"

section \<open>Keys and values\<close>

lemma user_key_session_key: "user_key uid \<noteq> session_key t"
proof
  assume "user_key uid = session_key t"
  then have "show_nat (unat uid) @ '':session'' = ''session:'' @ t"
    by (simp add: user_key_def session_key_def)
  then have "hd (show_nat (unat uid)) = CHR ''s''" by (cases "show_nat (unat uid)") auto
  moreover have "is_digit (hd (show_nat (unat uid)))"
    using show_nat_chars[of "hd (show_nat (unat uid))" "unat uid"] by (cases "show_nat (unat uid)") auto
  ultimately show False by (simp add: is_digit_def)
qed

lemma show_nat_colon:
  assumes "show_nat m @ CHR '':'' # s = show_nat n @ CHR '':'' # t"
  shows "m = n \<and> s = t"
proof -
  have "\<not> is_digit (CHR '':'')" by (simp add: is_digit_def)
  then have "takeWhile is_digit (show_nat k @ CHR '':'' # u) = show_nat k"
      "dropWhile is_digit (show_nat k @ CHR '':'' # u) = CHR '':'' # u" for k u
    by (simp_all add: takeWhile_show_nat)
  then have "show_nat m = show_nat n" "CHR '':'' # s = CHR '':'' # t" using assms by metis+
  then show ?thesis by (auto dest: show_nat_inj)
qed

lemma user_key_inj: "user_key a = user_key b \<longleftrightarrow> a = b"
  using show_nat_colon[of "unat a" "''session''" "unat b" "''session''"]
  by (auto simp: user_key_def word_unat_eq_iff)

lemma session_key_inj: "session_key a = session_key b \<longleftrightarrow> a = b"
  by (simp add: session_key_def)

lemma session_value_inj: "session_value a u = session_value b v \<longleftrightarrow> a = b \<and> u = v"
  using show_nat_colon[of "unat a" u "unat b" v] by (auto simp: session_value_def word_unat_eq_iff)

section \<open>The script\<close>

lemma login_script_ok:
  assumes "redis_contract ops en" and "0 < ttl"
  shows "\<exists>r'. login_script ops now (user_key uid) (session_key token) ttl data token r =
      (r', Inr (case live now (en r (user_key uid)) of Some t \<Rightarrow> t | None \<Rightarrow> [])) \<and>
    en r' = ((case live now (en r (user_key uid)) of
                Some t \<Rightarrow> if t \<noteq> token then (en r)(session_key t := None) else en r
              | None \<Rightarrow> en r)
             (user_key uid \<mapsto> (token, now + ttl), session_key token \<mapsto> (data, now + ttl)))"
proof -
  define r1 where "r1 = (case live now (en r (user_key uid)) of
      Some t \<Rightarrow> if t \<noteq> token then ro_del ops (session_key t) r else r | None \<Rightarrow> r)"
  have e1: "en r1 = (case live now (en r (user_key uid)) of
      Some t \<Rightarrow> if t \<noteq> token then (en r)(session_key t := None) else en r | None \<Rightarrow> en r)"
    using assms(1) by (auto simp: r1_def redis_contract_def split: option.split)
  obtain r2 where r2: "ro_setex ops now (user_key uid) ttl token r1 = Inr r2"
      "en r2 = (en r1)(user_key uid \<mapsto> (token, now + ttl))"
    using assms unfolding redis_contract_def by blast
  obtain r3 where r3: "ro_setex ops now (session_key token) ttl data r2 = Inr r3"
      "en r3 = (en r2)(session_key token \<mapsto> (data, now + ttl))"
    using assms unfolding redis_contract_def by blast
  have get: "ro_get ops now (user_key uid) r = live now (en r (user_key uid))"
    using assms(1) by (simp add: redis_contract_def)
  have "login_script ops now (user_key uid) (session_key token) ttl data token r =
      (r3, Inr (case live now (en r (user_key uid)) of Some t \<Rightarrow> t | None \<Rightarrow> []))"
    using r2(1) r3(1) unfolding r1_def session_key_def
    by (simp add: login_script_def Let_def get)
  then show ?thesis using r2(2) r3(2) e1 by auto
qed

lemma login_script_raises:
  assumes "redis_contract ops en" and "ttl \<le> 0"
  shows "\<exists>r' e. login_script ops now (user_key uid) (session_key token) ttl data token r = (r', Inl e) \<and>
    en r' = (case live now (en r (user_key uid)) of
                Some t \<Rightarrow> if t \<noteq> token then (en r)(session_key t := None) else en r
              | None \<Rightarrow> en r)"
proof -
  define r1 where "r1 = (case live now (en r (user_key uid)) of
      Some t \<Rightarrow> if t \<noteq> token then ro_del ops (session_key t) r else r | None \<Rightarrow> r)"
  have e1: "en r1 = (case live now (en r (user_key uid)) of
      Some t \<Rightarrow> if t \<noteq> token then (en r)(session_key t := None) else en r | None \<Rightarrow> en r)"
    using assms(1) by (auto simp: r1_def redis_contract_def split: option.split)
  have get: "ro_get ops now (user_key uid) r = live now (en r (user_key uid))"
    using assms(1) by (simp add: redis_contract_def)
  obtain e where e: "ro_setex ops now (user_key uid) ttl token r1 = Inl e"
    using assms unfolding redis_contract_def by blast
  have "login_script ops now (user_key uid) (session_key token) ttl data token r = (r1, Inl e)"
    using e unfolding r1_def session_key_def by (simp add: login_script_def Let_def get)
  with e1 show ?thesis by blast
qed

section \<open>One session per user\<close>

text \<open>
  Every session that is live at \<open>now\<close> is the one its user's key points to, and that key
  lives at least as long.
\<close>

definition sessions_ok :: "(string \<Rightarrow> (string \<times> int) option) \<Rightarrow> int \<Rightarrow> bool" where
  "sessions_ok e now \<longleftrightarrow>
     (\<forall>t uid name d. e (session_key t) = Some (session_value uid name, d) \<and> now < d \<longrightarrow>
        (\<exists>d'. e (user_key uid) = Some (t, d') \<and> d \<le> d'))"

lemma sessions_ok_later: "sessions_ok e now \<Longrightarrow> now \<le> now' \<Longrightarrow> sessions_ok e now'"
  by (force simp: sessions_ok_def)

lemma sessions_ok_delete:
  assumes "sessions_ok e now"
  shows "sessions_ok (e(session_key t := None)) now"
  using assms user_key_session_key by (auto simp: sessions_ok_def session_key_inj)

lemma sessions_ok_login:
  assumes ok: "sessions_ok e now"
  shows "sessions_ok
    ((case live now (e (user_key uid)) of
        Some t \<Rightarrow> if t \<noteq> token then e(session_key t := None) else e
      | None \<Rightarrow> e)
     (user_key uid \<mapsto> (token, now + ttl), session_key token \<mapsto> (session_value uid name, now + ttl)))
    now" (is "sessions_ok ?e now")
  unfolding sessions_ok_def
proof (intro allI impI, elim conjE)
  fix t uid' name' d
  assume t: "?e (session_key t) = Some (session_value uid' name', d)" and d: "now < d"
  show "\<exists>d'. ?e (user_key uid') = Some (t, d') \<and> d \<le> d'"
  proof (cases "t = token")
    case True
    then have "uid' = uid" "d = now + ttl" using t by (simp_all add: session_value_inj)
    then show ?thesis using True user_key_session_key by simp
  next
    case False
    then have e: "e (session_key t) = Some (session_value uid' name', d)"
      and kept: "live now (e (user_key uid)) \<noteq> Some t"
      using t user_key_session_key[symmetric]
      by (auto simp: session_key_inj split: option.splits if_splits)
    obtain d' where d': "e (user_key uid') = Some (t, d')" "d \<le> d'"
      using ok e d unfolding sessions_ok_def by blast
    have "uid' \<noteq> uid" using kept d' d by (auto simp: live_def)
    then have "?e (user_key uid') = e (user_key uid')"
      using user_key_session_key by (auto simp: user_key_inj split: option.split)
    with d' show ?thesis by auto
  qed
qed

lemma eval_login_sessions:
  assumes "redis_contract ops en" and "sessions_ok (en r) now"
  shows "sessions_ok (en (fst (eval_login ops fault now (user_key uid) (session_key token) ttl
    (session_value uid name) token r))) now"
proof -
  have "sessions_ok (en (fst (login_script ops now (user_key uid) (session_key token) ttl
      (session_value uid name) token r))) now"
  proof (cases "0 < ttl")
    case True
    obtain r' where "login_script ops now (user_key uid) (session_key token) ttl
        (session_value uid name) token r =
        (r', Inr (case live now (en r (user_key uid)) of Some t \<Rightarrow> t | None \<Rightarrow> []))"
      "en r' = ((case live now (en r (user_key uid)) of
                Some t \<Rightarrow> if t \<noteq> token then (en r)(session_key t := None) else en r
              | None \<Rightarrow> en r)
             (user_key uid \<mapsto> (token, now + ttl), session_key token \<mapsto> (session_value uid name, now + ttl)))"
      using login_script_ok[OF assms(1) True, where data = "session_value uid name" and now = now
          and uid = uid and token = token and r = r] by blast
    then show ?thesis using sessions_ok_login[OF assms(2)] by (simp del: fun_upd_apply)
  next
    case False
    then have "ttl \<le> 0" by simp
    then obtain r' e where r': "login_script ops now (user_key uid) (session_key token) ttl
        (session_value uid name) token r = (r', Inl e)"
      "en r' = (case live now (en r (user_key uid)) of
                Some t \<Rightarrow> if t \<noteq> token then (en r)(session_key t := None) else en r
              | None \<Rightarrow> en r)"
      using login_script_raises[OF assms(1), where data = "session_value uid name" and now = now
          and uid = uid and token = token and r = r] by blast
    have "sessions_ok (en r') now"
      unfolding r'(2) using sessions_ok_delete[OF assms(2)] assms(2) by (simp split: option.split)
    then show ?thesis by (simp add: r'(1))
  qed
  then show ?thesis using assms(2) by (simp add: eval_login_def split: eval_fault.split)
qed

section \<open>The service as a system\<close>

definition world_ok ::
  "('r \<Rightarrow> string \<Rightarrow> (string \<times> int) option) \<Rightarrow> int \<Rightarrow> ('r, 'd) user_world \<Rightarrow> bool" where
  "world_ok en now w \<longleftrightarrow> (\<forall>h. sessions_ok (en (uw_redis w h)) now)"

lemma issue_world_ok:
  assumes "redis_contract (us_redisOps us) en" and "world_ok en (ce_now env) w"
  shows "world_ok en (ce_now env) (snd (issueSessionAtomic us env uid name w))"
proof -
  have keep: "world_ok en (ce_now env) (w\<lparr>uw_redis := (uw_redis w)(h := fst (eval_login (us_redisOps us)
      (ce_eval env) (ce_now env) (user_key uid) (session_key token) (us_tokenTTL us)
      (session_value uid name) token (uw_redis w h)))\<rparr>)" for h token
    using assms eval_login_sessions[OF assms(1)] by (simp add: world_ok_def)
  show ?thesis
  proof (cases "ce_rand env")
    case None
    then show ?thesis using assms(2) by (simp add: issueSessionAtomic_def)
  next
    case (Some bs)
    then show ?thesis
      using assms(2) keep
      by (auto simp: issueSessionAtomic_def Let_def split: sum.split prod.split option.split)
         (metis fst_conv)+
  qed
qed

lemma publish_redis:
  "publishSessionInvalidate us env uid w = Some w' \<Longrightarrow> uw_redis w' = uw_redis w"
  by (auto simp: publishSessionInvalidate_def split: sum.splits prod.splits option.splits if_splits)

lemma login_world_ok:
  assumes "redis_contract (us_redisOps us) en" and "world_ok en (ce_now env) w"
  shows "world_ok en (ce_now env) (snd (user_login us env req w))"
proof -
  have *: "world_ok en (ce_now env) w'"
    if "issueSessionAtomic us env uid name w = (out, w')" for uid name out w'
    using issue_world_ok[OF assms, of uid name] that by simp
  have pub: "world_ok en (ce_now env) w''"
    if "publishSessionInvalidate us env uid w' = Some w''" "world_ok en (ce_now env) w'" for uid w' w''
    using that publish_redis[OF that(1)] by (simp add: world_ok_def)
  show ?thesis
    unfolding user_login_def
    using assms(2) by (auto split: sum.split prod.split option.split db_error.split rpc_outcome.split
      dest: * pub)
qed

lemma register_world_ok:
  assumes "redis_contract (us_redisOps us) en" and "world_ok en (ce_now env) w"
  shows "world_ok en (ce_now env) (snd (user_register us env req w))"
proof -
  have *: "world_ok en (ce_now env) w'"
    if "issueSessionAtomic us env uid name v = (out, w')" "world_ok en (ce_now env) v" for uid name out w' v
    using issue_world_ok[OF assms(1) that(2), of uid name] that(1) by simp
  have db: "world_ok en (ce_now env) (w\<lparr>uw_db := f\<rparr>)" for f
    using assms(2) by (simp add: world_ok_def)
  show ?thesis
    unfolding user_register_def Let_def
    using assms(2) db
    by (auto split: sum.split prod.split option.split db_error.split rpc_outcome.split dest: *)
qed

text \<open>
  Calls arrive in any order, the clock never runs backwards, the routing tables may be
  replaced between calls and the databases may change by other hands.
\<close>

inductive us_step ::
  "('r, 'd) user_service \<Rightarrow> int \<times> ('r, 'd) user_world \<Rightarrow> int \<times> ('r, 'd) user_world \<Rightarrow> bool" for us where
  us_login:
    "now \<le> ce_now env \<Longrightarrow>
     us_step us (now, w) (ce_now env, snd (user_login (us\<lparr>us_router := ro\<rparr>) env req w))"
| us_register:
    "now \<le> ce_now env \<Longrightarrow>
     us_step us (now, w) (ce_now env, snd (user_register (us\<lparr>us_router := ro\<rparr>) env req w))"
| us_time: "now \<le> now' \<Longrightarrow> us_step us (now, w) (now', w)"
| us_database: "us_step us (now, w) (now, w\<lparr>uw_db := f\<rparr>)"

inductive_cases us_stepE: "us_step us s s'"

definition us_start ::
  "('r \<Rightarrow> string \<Rightarrow> (string \<times> int) option) \<Rightarrow> int \<times> ('r, 'd) user_world \<Rightarrow> bool" where
  "us_start en s \<longleftrightarrow> (\<forall>h t. en (uw_redis (snd s) h) (session_key t) = None)"

definition us_inv ::
  "('r, 'd) user_service \<Rightarrow> ('r \<Rightarrow> string \<Rightarrow> (string \<times> int) option)
     \<Rightarrow> int \<times> ('r, 'd) user_world \<Rightarrow> bool" where
  "us_inv us en s \<longleftrightarrow> (redis_contract (us_redisOps us) en \<longrightarrow> world_ok en (fst s) (snd s))"

lemma us_inv_start: "us_start en s \<Longrightarrow> us_inv us en s"
  by (simp add: us_start_def us_inv_def world_ok_def sessions_ok_def)

lemma world_ok_later: "world_ok en now w \<Longrightarrow> now \<le> now' \<Longrightarrow> world_ok en now' w"
  using sessions_ok_later by (auto simp: world_ok_def)

lemma us_inv_step:
  assumes "us_inv us en s" and "us_step us s s'"
  shows "us_inv us en s'"
  unfolding us_inv_def
proof
  assume c: "redis_contract (us_redisOps us) en"
  have ok: "world_ok en (fst s) (snd s)" using assms(1) c by (simp add: us_inv_def)
  have c': "redis_contract (us_redisOps (us\<lparr>us_router := ro\<rparr>)) en" for ro using c by simp
  from assms(2) show "world_ok en (fst s') (snd s')"
  proof (cases rule: us_step.cases)
    case (us_login now env w ro req)
    then show ?thesis
      using login_world_ok[OF c'] world_ok_later[of en now w "ce_now env"] ok by auto
  next
    case (us_register now env w ro req)
    then show ?thesis
      using register_world_ok[OF c'] world_ok_later[of en now w "ce_now env"] ok by auto
  next
    case (us_time now now' w)
    then show ?thesis using ok world_ok_later by auto
  next
    case (us_database now w f)
    then show ?thesis using ok by (simp add: world_ok_def)
  qed
qed

interpretation usys: safe_system "us_start en" "us_step us" "us_inv us en" for us en
  by unfold_locales (auto intro: us_inv_start us_inv_step)

section \<open>Properties\<close>

text \<open>
  C1. A user never has two live sessions: whatever logins and registrations have run, in
  whatever order and whatever replies were lost, two sessions of the same user that are
  live in the same Redis instance are the same session.
\<close>

theorem single_session:
  assumes "redis_contract (us_redisOps us) en" and "reachable (us_start en) (us_step us) (now, w)"
    and "live now (en (uw_redis w h) (session_key t1)) = Some (session_value uid n1)"
    and "live now (en (uw_redis w h) (session_key t2)) = Some (session_value uid n2)"
  shows "t1 = t2"
proof -
  have ok: "sessions_ok (en (uw_redis w h)) now"
    using usys.reachable_inv[OF assms(2)] assms(1) by (simp add: us_inv_def world_ok_def)
  obtain d1 where d1: "en (uw_redis w h) (session_key t1) = Some (session_value uid n1, d1)" "now < d1"
    using assms(3) by (auto simp: live_def split: option.splits if_splits)
  obtain d2 where d2: "en (uw_redis w h) (session_key t2) = Some (session_value uid n2, d2)" "now < d2"
    using assms(4) by (auto simp: live_def split: option.splits if_splits)
  have "\<exists>d. en (uw_redis w h) (user_key uid) = Some (t1, d)"
    using ok d1 unfolding sessions_ok_def by blast
  moreover have "\<exists>d. en (uw_redis w h) (user_key uid) = Some (t2, d)"
    using ok d2 unfolding sessions_ok_def by blast
  ultimately show ?thesis by auto
qed

text \<open>A concrete world: instances that are maps with deadlines, one user, a login.\<close>

type_synonym kv_store = "string \<Rightarrow> (string \<times> int) option"

definition kv_ops :: "kv_store redis_ops" where
  "kv_ops =
     \<lparr>ro_get = (\<lambda>now k r. live now (r k)), ro_del = (\<lambda>k r. r(k := None)),
      ro_setex = (\<lambda>now k ttl v r. if 0 < ttl then Inr (r(k \<mapsto> (v, now + ttl)))
                                  else Inl ''ERR invalid expire time''),
      ro_set = (\<lambda>now k v ttl r. Inr (r(k \<mapsto> (v, now + ttl))))\<rparr>"

lemma kv_contract: "redis_contract kv_ops (\<lambda>r. r)"
  by (auto simp: redis_contract_def kv_ops_def)

type_synonym user_table = "user_row list"

definition table_ops :: "user_table db_ops" where
  "table_ops =
     \<lparr>do_getUserByUsername = (\<lambda>u d. case find (\<lambda>row. ur_username row = u) d of
                                     Some row \<Rightarrow> Inr row | None \<Rightarrow> Inl No_rows),
      do_createUser = (\<lambda>u h d. case find (\<lambda>row. ur_username row = u) d of
          Some row \<Rightarrow> (d, Some (Mysql_error 1062))
        | None \<Rightarrow> (d @ [\<lparr>ur_id = of_nat (length d + 1), ur_username = u, ur_passwordHash = h\<rparr>], None))\<rparr>"

lemma find_append:
  "find P (xs @ ys) = (case find P xs of Some x \<Rightarrow> Some x | None \<Rightarrow> find P ys)"
  by (induction xs) auto

lemma table_contract: "db_contract table_ops"
  by (auto simp: db_contract_def table_ops_def find_append split: option.splits)

definition plain_bcrypt :: bcrypt_ops where
  "plain_bcrypt = \<lparr>bc_compare = (\<lambda>h p. h = CHR ''$'' # p), bc_generate = (\<lambda>p. Some (CHR ''$'' # p))\<rparr>"

lemma plain_bcrypt_contract: "bcrypt_contract plain_bcrypt"
  by (simp add: bcrypt_contract_def plain_bcrypt_def)

definition one_pool_router :: "(nat, nat) router" where
  "one_pool_router =
     \<lparr>mysqlPools = [''default'' \<mapsto> 0], redisPools = [''default'' \<mapsto> 0],
      mysqlRoutes = [\<lparr>rr_prefix = [], rr_pool = ''default''\<rparr>],
      redisRoutes = [\<lparr>rr_prefix = [], rr_pool = ''default''\<rparr>]\<rparr>"

lemma one_pool_resolve:
  "resolveRedis one_pool_router key = Inr (Some 0, ''default'')"
  "resolveDB one_pool_router key = Inr (Some 0, ''default'')"
  by (simp_all add: one_pool_router_def redis_side.only_catch_all mysql_side.only_catch_all)

definition demo_service :: "int \<Rightarrow> (kv_store, user_table) user_service" where
  "demo_service ttl =
     \<lparr>us_router = one_pool_router, us_tokenTTL = ttl, us_redisOps = kv_ops, us_dbOps = table_ops,
      us_bcrypt = plain_bcrypt\<rparr>"

definition demo_call :: "int \<Rightarrow> 8 word list \<Rightarrow> call_env" where
  "demo_call now bs = \<lparr>ce_now = now, ce_rand = Some bs, ce_eval = Delivered, ce_publish = True\<rparr>"

definition demo_world :: "(kv_store, user_table) user_world" where
  "demo_world =
     \<lparr>uw_redis = (\<lambda>h. Map.empty),
      uw_db = (\<lambda>h. [\<lparr>ur_id = 7, ur_username = ''bob'', ur_passwordHash = ''$pw''\<rparr>]),
      uw_published = []\<rparr>"

definition bob :: login_request where
  "bob = \<lparr>lq_username = ''bob'', lq_password = ''pw''\<rparr>"

lemmas login_eval = user_login_def getQueries_def demo_service_def demo_call_def one_pool_resolve
  table_ops_def plain_bcrypt_def kv_ops_def issueSessionAtomic_def eval_login_def login_script_def
  publishSessionInvalidate_def

lemma single_session_witness:
  "\<exists>w :: (kv_store, user_table) user_world.
     live 200 (uw_redis w 0 (session_key ''02'')) = Some (session_value 7 ''bob'') \<and>
     uw_redis w 0 (session_key ''01'') = None \<and>
     (\<forall>t. live 200 (uw_redis w 0 (session_key t)) = Some (session_value 7 ''bob'') \<longrightarrow> t = ''02'')"
proof -
  define w1 where "w1 = snd (user_login (demo_service 3600) (demo_call 100 [1]) bob demo_world)"
  define w2 where "w2 = snd (user_login (demo_service 3600) (demo_call 200 [2]) bob w1)"
  have router: "us_router (demo_service 3600) = one_pool_router" by (simp add: demo_service_def)
  have same: "(demo_service 3600)\<lparr>us_router := one_pool_router\<rparr> = demo_service 3600"
    by (simp add: demo_service_def)
  have r0: "reachable (us_start (\<lambda>r. r)) (us_step (demo_service 3600)) (100, demo_world)"
    by (rule reachable_start) (simp add: us_start_def demo_world_def)
  have "us_step (demo_service 3600) (100, demo_world)
      (ce_now (demo_call 100 [1]), snd (user_login ((demo_service 3600)\<lparr>us_router := one_pool_router\<rparr>)
        (demo_call 100 [1]) bob demo_world))"
    by (rule us_step.us_login) (simp add: demo_call_def)
  then have r1: "reachable (us_start (\<lambda>r. r)) (us_step (demo_service 3600)) (100, w1)"
    using r0 unfolding same w1_def by (auto simp: demo_call_def intro: reachable_step)
  have "us_step (demo_service 3600) (100, w1)
      (ce_now (demo_call 200 [2]), snd (user_login ((demo_service 3600)\<lparr>us_router := one_pool_router\<rparr>)
        (demo_call 200 [2]) bob w1))"
    by (rule us_step.us_login) (simp add: demo_call_def)
  then have r2: "reachable (us_start (\<lambda>r. r)) (us_step (demo_service 3600)) (200, w2)"
    using r1 unfolding same w2_def by (auto simp: demo_call_def intro: reachable_step)
  have hex: "hex_encode [1] = ''01''" "hex_encode [2] = ''02''" by code_simp+
  have ne: "user_key 7 \<noteq> session_key t" for t by (rule user_key_session_key)
  have rd1: "uw_redis w1 0 =
      [user_key 7 \<mapsto> (''01'', 3700), session_key ''01'' \<mapsto> (session_value 7 ''bob'', 3700)]"
    by (simp add: w1_def login_eval bob_def demo_world_def live_def hex Let_def)
  have db1: "uw_db w1 0 = [\<lparr>ur_id = 7, ur_username = ''bob'', ur_passwordHash = ''$pw''\<rparr>]"
    by (simp add: w1_def login_eval bob_def demo_world_def live_def hex Let_def)
  have get1: "live 200 (uw_redis w1 0 (user_key 7)) = Some ''01''"
    using ne by (simp add: rd1 live_def)
  have rd2: "uw_redis w2 0 = (uw_redis w1 0)(session_key ''01'' := None, user_key 7 \<mapsto> (''02'', 3800),
      session_key ''02'' \<mapsto> (session_value 7 ''bob'', 3800))"
    by (simp add: w2_def login_eval bob_def db1 get1 hex Let_def session_key_def)
  have live2: "live 200 (uw_redis w2 0 (session_key ''02'')) = Some (session_value 7 ''bob'')"
    by (simp add: rd2 live_def)
  have gone: "uw_redis w2 0 (session_key ''01'') = None"
    using ne by (simp add: rd2 session_key_inj ne[symmetric])
  have contract: "redis_contract (us_redisOps (demo_service 3600)) (\<lambda>r. r)"
    by (simp add: demo_service_def kv_contract)
  have "t = ''02''" if "live 200 (uw_redis w2 0 (session_key t)) = Some (session_value 7 ''bob'')" for t
    by (rule single_session[where en = "\<lambda>r. r" and us = "demo_service 3600" and now = 200 and w = w2
          and h = 0 and uid = 7, OF contract r2]) (simp_all add: that live2)
  then show ?thesis using live2 gone by blast
qed

text \<open>What a successful login leaves behind and publishes.\<close>

text \<open>A login that succeeds has found the user, compared the password and issued a session.\<close>

lemma login_parts:
  assumes "user_login us env req w = (Replied rep, w')"
  obtains user :: user_row and token hasOld w1
  where "issueSessionAtomic us env (ur_id user) (ur_username user) w = (Replied (token, hasOld), w1)"
    "rep = \<lparr>lr_success = True, lr_token = token, lr_userId = ur_id user\<rparr>"
    "(if hasOld then publishSessionInvalidate us env (ur_id user) w1 else Some w1) = Some w'"
proof -
  obtain db where q: "getQueries us (''sys:user:'' @ lq_username req) = Inr (Some db)"
    using assms by (auto simp: user_login_def route_failure_def split: sum.splits option.splits)
  obtain user where u: "do_getUserByUsername (us_dbOps us) (lq_username req) (uw_db w db) = Inr user"
    using assms q by (auto simp: user_login_def bad_credentials_def internal_def
        split: sum.splits db_error.splits)
  have cmp: "bc_compare (us_bcrypt us) (ur_passwordHash user) (lq_password req)"
    using assms q u by (auto simp: user_login_def bad_credentials_def split: if_splits)
  obtain out w1 where i: "issueSessionAtomic us env (ur_id user) (ur_username user) w = (out, w1)"
    by (metis prod.exhaust)
  then obtain token hasOld where out: "out = Replied (token, hasOld)"
    using assms q u cmp by (cases out) (auto simp: user_login_def)
  show ?thesis
    by (rule that[OF i[unfolded out]])
       (use assms q u cmp i out in \<open>auto simp: user_login_def split: option.splits if_splits\<close>)
qed

text \<open>An issue that succeeds has run the script to its end.\<close>

lemma issue_script:
  assumes "redis_contract (us_redisOps us) en"
    and "issueSessionAtomic us env uid name w = (Replied (token, hasOld), w1)"
    and "resolveRedis (us_router us) routingKeySession = Inr (Some h, p)"
  obtains r old
  where "login_script (us_redisOps us) (ce_now env) (user_key uid) (session_key token)
      (us_tokenTTL us) (session_value uid name) token (uw_redis w h) = (r, Inr old)"
    "w1 = w\<lparr>uw_redis := (uw_redis w)(h := r)\<rparr>" "hasOld = (old \<noteq> [])" "0 < us_tokenTTL us"
proof -
  have ev: "ce_eval env = Delivered"
    using assms(2) by (cases "ce_eval env")
      (auto simp: issueSessionAtomic_def assms(3) eval_login_def Let_def internal_def split: option.splits)
  obtain r old where script: "login_script (us_redisOps us) (ce_now env) (user_key uid) (session_key token)
      (us_tokenTTL us) (session_value uid name) token (uw_redis w h) = (r, Inr old)"
    and "w1 = w\<lparr>uw_redis := (uw_redis w)(h := r)\<rparr>" "hasOld = (old \<noteq> [])"
    using assms(2) ev by (auto simp: issueSessionAtomic_def assms(3) eval_login_def Let_def internal_def
        split: option.splits prod.splits sum.splits)
  moreover have "0 < us_tokenTTL us"
    using login_script_raises[OF assms(1), where ttl = "us_tokenTTL us" and now = "ce_now env" and uid = uid and token = token
        and data = "session_value uid name" and r = "uw_redis w h"] script
    by (cases "0 < us_tokenTTL us") auto
  ultimately show ?thesis by (rule that)
qed

lemma login_outcome:
  assumes "redis_contract (us_redisOps us) en"
    and "user_login us env req w = (Replied rep, w')"
    and "resolveRedis (us_router us) routingKeySession = Inr (Some h, p)"
  shows "lr_success rep \<and>
    (\<exists>name. live (ce_now env) (en (uw_redis w' h) (session_key (lr_token rep))) =
       Some (session_value (lr_userId rep) name)) \<and>
    live (ce_now env) (en (uw_redis w' h) (user_key (lr_userId rep))) = Some (lr_token rep) \<and>
    (\<forall>old. live (ce_now env) (en (uw_redis w h) (user_key (lr_userId rep))) = Some old \<longrightarrow>
       old \<noteq> lr_token rep \<longrightarrow> en (uw_redis w' h) (session_key old) = None) \<and>
    uw_published w' = uw_published w @
      (if (\<exists>old. live (ce_now env) (en (uw_redis w h) (user_key (lr_userId rep))) = Some old \<and>
                 old \<noteq> []) \<and> ce_publish env
       then [(h, invalidate_channel, invalidate_message (lr_userId rep))] else [])"
proof -
  obtain user :: user_row and token hasOld w1 where
    issue: "issueSessionAtomic us env (ur_id user) (ur_username user) w = (Replied (token, hasOld), w1)"
    and rep: "rep = \<lparr>lr_success = True, lr_token = token, lr_userId = ur_id user\<rparr>"
    and pub: "(if hasOld then publishSessionInvalidate us env (ur_id user) w1 else Some w1) = Some w'"
    by (rule login_parts[OF assms(2)])
  let ?uid = "ur_id user" and ?now = "ce_now env"
  let ?current = "live ?now (en (uw_redis w h) (user_key ?uid))"
  obtain r old where script: "login_script (us_redisOps us) ?now (user_key ?uid) (session_key token)
      (us_tokenTTL us) (session_value ?uid (ur_username user)) token (uw_redis w h) = (r, Inr old)"
    and w1: "w1 = w\<lparr>uw_redis := (uw_redis w)(h := r)\<rparr>" and hasOld: "hasOld = (old \<noteq> [])" and ttl: "0 < us_tokenTTL us"
    by (rule issue_script[OF assms(1) issue assms(3)])
  note ok = login_script_ok[OF assms(1) ttl, where now = ?now and uid = ?uid and token = token
        and data = "session_value ?uid (ur_username user)" and r = "uw_redis w h"]
  have old: "old = (case ?current of Some t \<Rightarrow> t | None \<Rightarrow> [])" using ok script by auto
  have en: "en r = ((case ?current of
                Some t \<Rightarrow> if t \<noteq> token then (en (uw_redis w h))(session_key t := None) else en (uw_redis w h)
              | None \<Rightarrow> en (uw_redis w h))
             (user_key ?uid \<mapsto> (token, ?now + us_tokenTTL us),
              session_key token \<mapsto> (session_value ?uid (ur_username user), ?now + us_tokenTTL us)))"
    using ok script by auto
  have w': "uw_redis w' h = r" and published: "uw_published w' = uw_published w @
      (if hasOld \<and> ce_publish env then [(h, invalidate_channel, invalidate_message ?uid)] else [])"
    using pub w1 by (cases hasOld; auto simp: publishSessionInvalidate_def assms(3) split: if_splits)+
  have ne: "user_key ?uid \<noteq> session_key t" for t by (rule user_key_session_key)
  have "live ?now (en r (session_key token)) = Some (session_value ?uid (ur_username user))"
    "live ?now (en r (user_key ?uid)) = Some token"
    using ttl ne by (simp_all add: en live_def)
  moreover have "en r (session_key t) = None" if "?current = Some t" "t \<noteq> token" for t
    using that ne[symmetric] by (simp add: en session_key_inj)
  moreover have "hasOld \<longleftrightarrow> (\<exists>t. ?current = Some t \<and> t \<noteq> [])"
    by (auto simp: hasOld old split: option.split)
  ultimately show ?thesis using published by (auto simp: rep w')
qed

text \<open>
  C2. A login that succeeds leaves exactly the new session: the returned token is live and
  belongs to the user, the user's key points to it, the session it replaces is gone, and
  the invalidation of the user is published when there was one to replace.
\<close>

theorem login_replaces_session:
  assumes "redis_contract (us_redisOps us) en"
    and "user_login us env req w = (Replied rep, w')"
    and "resolveRedis (us_router us) routingKeySession = Inr (Some h, p)"
  shows "lr_success rep \<and>
    (\<exists>name. live (ce_now env) (en (uw_redis w' h) (session_key (lr_token rep))) =
       Some (session_value (lr_userId rep) name)) \<and>
    live (ce_now env) (en (uw_redis w' h) (user_key (lr_userId rep))) = Some (lr_token rep) \<and>
    (\<forall>old. live (ce_now env) (en (uw_redis w h) (user_key (lr_userId rep))) = Some old \<longrightarrow>
       old \<noteq> lr_token rep \<longrightarrow> en (uw_redis w' h) (session_key old) = None) \<and>
    uw_published w' = uw_published w @
      (if (\<exists>old. live (ce_now env) (en (uw_redis w h) (user_key (lr_userId rep))) = Some old \<and>
                 old \<noteq> []) \<and> ce_publish env
       then [(h, invalidate_channel, invalidate_message (lr_userId rep))] else [])"
  by (rule login_outcome[OF assms])

lemma login_replaces_session_witness:
  "live 100 (uw_redis (snd (user_login (demo_service 3600) (demo_call 100 [1]) bob demo_world)) 0
     (user_key 7)) = Some ''01''"
proof -
  have hex: "hex_encode [1] = ''01''" by code_simp
  have l: "user_login (demo_service 3600) (demo_call 100 [1]) bob demo_world =
      (Replied \<lparr>lr_success = True, lr_token = ''01'', lr_userId = 7\<rparr>,
       snd (user_login (demo_service 3600) (demo_call 100 [1]) bob demo_world))"
    by (simp add: login_eval bob_def demo_world_def live_def hex Let_def)
  have c: "redis_contract (us_redisOps (demo_service 3600)) (\<lambda>r. r)"
    by (simp add: demo_service_def kv_contract)
  have h: "resolveRedis (us_router (demo_service 3600)) routingKeySession = Inr (Some 0, ''default'')"
    by (simp add: demo_service_def one_pool_resolve)
  show ?thesis using login_replaces_session[OF c l h] by (simp add: demo_call_def)
qed

text \<open>The script has deleted the running session before its first \<open>SETEX\<close> raises.\<close>

lemma issue_ends_session:
  assumes "redis_contract (us_redisOps us) en" and "us_tokenTTL us \<le> 0"
    and "resolveRedis (us_router us) routingKeySession = Inr (Some h, p)"
    and "ce_rand env = Some bs" and "ce_eval env = Delivered"
    and "live (ce_now env) (en (uw_redis w h) (user_key uid)) = Some old" and "old \<noteq> hex_encode bs"
  obtains w' where "issueSessionAtomic us env uid name w = (Failed 13 ''internal server error'', w')"
    "en (uw_redis w' h) = (en (uw_redis w h))(session_key old := None)"
proof -
  obtain r e where r: "login_script (us_redisOps us) (ce_now env) (user_key uid)
      (session_key (hex_encode bs)) (us_tokenTTL us) (session_value uid name) (hex_encode bs)
      (uw_redis w h) = (r, Inl e)"
    "en r = (en (uw_redis w h))(session_key old := None)"
    using login_script_raises[OF assms(1,2), where now = "ce_now env" and uid = uid
        and token = "hex_encode bs" and data = "session_value uid name" and r = "uw_redis w h"] assms(6,7)
    by auto
  show ?thesis
    using r by (intro that[of "w\<lparr>uw_redis := (uw_redis w)(h := r)\<rparr>"])
      (simp_all add: issueSessionAtomic_def assms(3-5) eval_login_def Let_def internal_def)
qed

text \<open>
  C20. A login that fails can end the user's running session. With a session lifetime below
  one second, when the user is found, the password is right and the script reaches Redis, the
  login is answered with an internal error, and yet the session the user had is gone: the
  script has deleted it before its first \<open>SETEX\<close> raises, and Redis does not roll back. The
  user's key still names the token of the lost session.
\<close>

theorem failed_login_ends_old_session:
  assumes "redis_contract (us_redisOps us) en" and "us_tokenTTL us \<le> 0"
    and "resolveRedis (us_router us) routingKeySession = Inr (Some h, p)"
    and "getQueries us (''sys:user:'' @ lq_username req) = Inr (Some db)"
    and "do_getUserByUsername (us_dbOps us) (lq_username req) (uw_db w db) = Inr user"
    and "bc_compare (us_bcrypt us) (ur_passwordHash user) (lq_password req)"
    and "ce_rand env = Some bs" and "ce_eval env = Delivered"
    and "live (ce_now env) (en (uw_redis w h) (user_key (ur_id user))) = Some old" and "old \<noteq> hex_encode bs"
  shows "fst (user_login us env req w) = Failed 13 ''internal server error'' \<and>
    en (uw_redis (snd (user_login us env req w)) h) (session_key old) = None \<and>
    live (ce_now env) (en (uw_redis (snd (user_login us env req w)) h) (user_key (ur_id user))) = Some old"
proof -
  obtain w' where i: "issueSessionAtomic us env (ur_id user) (ur_username user) w = (Failed 13 ''internal server error'', w')"
    "en (uw_redis w' h) = (en (uw_redis w h))(session_key old := None)"
    by (rule issue_ends_session[OF assms(1-3,7-10)])
  have "user_login us env req w = (Failed 13 ''internal server error'', w')"
    using assms(6) by (simp add: user_login_def assms(4)[simplified] assms(5) i(1))
  then show ?thesis
    using assms(9) user_key_session_key[of "ur_id user" old] by (simp add: i(2))
qed

lemma failed_login_ends_old_session_witness:
  "fst (user_login (demo_service 0) (demo_call 100 [2]) bob
     (demo_world\<lparr>uw_redis := (\<lambda>h. [user_key 7 \<mapsto> (''01'', 3700),
        session_key ''01'' \<mapsto> (session_value 7 ''bob'', 3700)])\<rparr>)) = Failed 13 ''internal server error''"
proof -
  let ?w = "demo_world\<lparr>uw_redis := (\<lambda>h. [user_key 7 \<mapsto> (''01'', 3700),
        session_key ''01'' \<mapsto> (session_value 7 ''bob'', 3700)])\<rparr>"
  have hex: "hex_encode [2] = ''02''" by code_simp
  show ?thesis
    by (rule failed_login_ends_old_session[where us = "demo_service 0" and env = "demo_call 100 [2]"
          and en = "\<lambda>r. r" and w = ?w and h = 0 and bs = "[2]" and p = "''default''" and db = 0 and req = bob
          and user = "\<lparr>ur_id = 7, ur_username = ''bob'', ur_passwordHash = ''$pw''\<rparr>" and old = "''01''",
          THEN conjunct1])
       (use user_key_session_key[of 7 "''01''"] in
        \<open>simp_all add: demo_service_def kv_contract one_pool_resolve demo_call_def live_def hex getQueries_def bob_def
             demo_world_def table_ops_def plain_bcrypt_def\<close>)
qed

text \<open>
  A login refused for what the client sent (any code but the internal error) is a refusal
  only: it changes nothing in Redis, in the databases or on the channel, and every such
  refusal reads the same, whether the user is unknown or the password wrong.
\<close>

theorem refused_login_no_effect:
  assumes "user_login us env req w = (Failed c m, w')" and "c \<noteq> 13"
  shows "w' = w \<and> c = 16 \<and> m = ''invalid username or password''"
proof -
  have issue: "c' = 13" if "issueSessionAtomic us env uid name w = (Failed c' m', w1)" for uid name c' m' w1
    using that by (auto simp: issueSessionAtomic_def internal_def Let_def
        split: option.splits sum.splits prod.splits)
  show ?thesis
    using assms
    by (auto simp: user_login_def route_failure_def internal_def bad_credentials_def
        split: sum.splits option.splits db_error.splits rpc_outcome.splits prod.splits if_splits
        dest: issue)
qed

lemma refused_login_no_effect_witness:
  "snd (user_login (demo_service 3600) (demo_call 100 [1]) \<lparr>lq_username = ''bob'', lq_password = ''no''\<rparr>
     demo_world) = demo_world"
proof -
  let ?r = "user_login (demo_service 3600) (demo_call 100 [1]) \<lparr>lq_username = ''bob'', lq_password = ''no''\<rparr>
     demo_world"
  have "?r = (Failed 16 ''invalid username or password'', snd ?r)"
    by (simp add: login_eval bad_credentials_def demo_world_def)
  from refused_login_no_effect[OF this] show ?thesis by simp
qed

text \<open>What a successful registration did: it created the account and issued a session for it.\<close>

lemma issue_refused_code:
  "issueSessionAtomic us env uid nm v = (Failed c m, v') \<Longrightarrow> c = 13"
  by (auto simp: issueSessionAtomic_def internal_def Let_def split: option.splits sum.splits prod.splits)

lemma issue_keeps_db: "issueSessionAtomic us env uid nm v = (out, v') \<Longrightarrow> uw_db v' = uw_db v"
  by (auto simp: issueSessionAtomic_def Let_def split: option.splits sum.splits prod.splits)

lemma registered_account:
  assumes "db_contract (us_dbOps us)"
    and "user_register us env \<lparr>lq_username = name, lq_password = pw\<rparr> w = (Replied rep, w')"
  obtains hash db user where "bc_generate (us_bcrypt us) pw = Some hash"
    "getQueries us (''sys:user:'' @ trim_space name) = Inr (Some db)"
    "do_getUserByUsername (us_dbOps us) (trim_space name) (uw_db w' db) = Inr user"
    "ur_username user = trim_space name" "ur_passwordHash user = hash" "ur_id user = lr_userId rep"
proof -
  let ?n = "trim_space name"
  have ne: "?n \<noteq> []" "pw \<noteq> []" using assms(2) by (auto simp: user_register_def Let_def split: if_splits)
  obtain q where q: "getQueries us (''sys:user:'' @ ?n) = Inr q"
    using assms(2) ne by (cases "getQueries us (''sys:user:'' @ ?n)")
      (auto simp: user_register_def Let_def route_failure_def)
  obtain hash where hash: "bc_generate (us_bcrypt us) pw = Some hash"
    using assms(2) ne q by (cases "bc_generate (us_bcrypt us) pw")
      (auto simp: user_register_def Let_def internal_def)
  obtain db where db: "q = Some db"
    using assms(2) ne q hash by (cases q) (auto simp: user_register_def Let_def)
  obtain d err where cr: "do_createUser (us_dbOps us) ?n hash (uw_db w db) = (d, err)" by (metis prod.exhaust)
  have err: "err = None"
    using assms(2) ne q hash db cr
    by (auto simp: user_register_def Let_def internal_def split: option.splits db_error.splits if_splits)
  obtain user where user: "do_getUserByUsername (us_dbOps us) ?n d = Inr user"
      "ur_username user = ?n" "ur_passwordHash user = hash"
    using assms(1) cr err unfolding db_contract_def by blast
  define w1 where "w1 = w\<lparr>uw_db := (uw_db w)(db := d)\<rparr>"
  obtain out w2 where i: "issueSessionAtomic us env (ur_id user) (ur_username user) w1 = (out, w2)"
    by (metis prod.exhaust)
  have fin: "(case out of Panicked \<Rightarrow> (Panicked, w2) | Failed c m \<Rightarrow> (Failed c m, w2)
      | Replied (token, _) \<Rightarrow> (Replied \<lparr>lr_success = True, lr_token = token,
                                  lr_userId = ur_id user\<rparr>, w2)) = (Replied rep, w')"
    using assms(2) ne q hash db cr err user i
    by (simp add: user_register_def w1_def Let_def split: rpc_outcome.splits prod.splits)
  then have rep: "lr_userId rep = ur_id user" "w' = w2"
    by (auto split: rpc_outcome.splits prod.splits)
  have "uw_db w2 = uw_db w1" using issue_keeps_db[OF i] .
  then have stored: "do_getUserByUsername (us_dbOps us) ?n (uw_db w' db) = Inr user"
    using user by (simp add: rep(2) w1_def)
  show ?thesis using that[OF hash q[unfolded db] stored user(2,3)] rep(1) by simp
qed

text \<open>
  C16. Registering and then logging in: after a successful registration the account exists
  under the name without its surrounding white space, and a login with that name and the
  same password passes the credential check, so that it can only fail on the session store.
\<close>

theorem register_then_login:
  assumes "db_contract (us_dbOps us)" and "bcrypt_contract (us_bcrypt us)"
    and "user_register us env \<lparr>lq_username = name, lq_password = pw\<rparr> w = (Replied rep, w')"
  shows "\<exists>user db. ur_username user = trim_space name \<and> ur_id user = lr_userId rep \<and>
    getQueries us (''sys:user:'' @ trim_space name) = Inr (Some db) \<and>
    do_getUserByUsername (us_dbOps us) (trim_space name) (uw_db w' db) = Inr user \<and>
    (\<forall>env' c m w''. user_login us env' \<lparr>lq_username = trim_space name, lq_password = pw\<rparr> w' =
       (Failed c m, w'') \<longrightarrow> c = 13)"
proof -
  obtain hash db user where acc: "bc_generate (us_bcrypt us) pw = Some hash"
    "getQueries us (''sys:user:'' @ trim_space name) = Inr (Some db)"
    "do_getUserByUsername (us_dbOps us) (trim_space name) (uw_db w' db) = Inr user"
    "ur_username user = trim_space name" "ur_passwordHash user = hash" "ur_id user = lr_userId rep"
    using registered_account[OF assms(1,3)] .
  have good: "bc_compare (us_bcrypt us) (ur_passwordHash user) pw"
    using assms(2) acc(1,5) by (simp add: bcrypt_contract_def)
  have "c = 13" if "user_login us env' \<lparr>lq_username = trim_space name, lq_password = pw\<rparr> w' = (Failed c m, w'')"
    for env' c m w''
    using that acc(2,3) good
    by (auto simp: user_login_def split: option.splits rpc_outcome.splits prod.splits if_splits dest: issue_refused_code)
  then show ?thesis
    using acc(2-4,6) by (intro exI[of _ user] exI[of _ db]) auto
qed

lemma register_then_login_witness:
  "\<exists>rep w'. user_register (demo_service 3600) (demo_call 100 [1])
      \<lparr>lq_username = '' ann '', lq_password = ''x''\<rparr> demo_world = (Replied rep, w') \<and>
    (\<exists>user. do_getUserByUsername table_ops ''ann'' (uw_db w' 0) = Inr user \<and> ur_id user = lr_userId rep)"
proof -
  let ?r = "user_register (demo_service 3600) (demo_call 100 [1])
      \<lparr>lq_username = '' ann '', lq_password = ''x''\<rparr> demo_world"
  have t: "trim_space '' ann '' = ''ann''" by code_simp
  obtain rep where r: "?r = (Replied rep, snd ?r)"
    by (simp add: user_register_def t login_eval demo_world_def live_def Let_def)
  have c: "db_contract (us_dbOps (demo_service 3600))" "bcrypt_contract (us_bcrypt (demo_service 3600))"
    by (simp_all add: demo_service_def table_contract plain_bcrypt_contract)
  have q: "getQueries (demo_service 3600) k = Inr (Some 0)" for k
    by (simp add: getQueries_def demo_service_def one_pool_resolve)
  have ops: "us_dbOps (demo_service 3600) = table_ops" by (simp add: demo_service_def)
  show ?thesis
    using register_then_login[OF c r] r by (auto simp: t q ops)
qed

end
