(* ===== verification/Lobby_Config.thy ===== *)
theory Lobby_Config
  imports Dsroute Json_Print "HOL-Library.AList"
begin

text \<open>
  The lobby's configuration cache, \<open>services/lobby/internal/config\<close>: the typed stores
  (\<open>store.go\<close>), their registry (\<open>registry.go\<close>), the loader (\<open>loader.go\<close>) and the watcher
  that reloads on a Redis notification (\<open>watcher.go\<close>); and the lobby's two calls
  (\<open>cmd/lobby/server.go\<close>, \<open>ingress.go\<close>).

  A row type \<open>T\<close> is a tag \<open>'ty\<close>; the types are generated from the spreadsheets, so decoding a
  JSON value into one is a parameter. MySQL is outside the repository: a database runs the
  loader's query and returns a row or an error. A nil pool handle panics in the driver.
\<close>

section \<open>Stores\<close>

record 'v snapshot =
  sn_revision :: int
  sn_data :: "'v list"
  sn_parsedAt :: int

record ('ty, 'v) typed_store =
  ts_type :: 'ty
  ts_snapshot :: "'v snapshot option"

definition newTypedStore :: "'ty \<Rightarrow> ('ty, 'v) typed_store" where
  "newTypedStore ty = \<lparr>ts_type = ty, ts_snapshot = None\<rparr>"

definition store_get :: "('ty, 'v) typed_store \<Rightarrow> 'v snapshot option" where
  "store_get ts = ts_snapshot ts"

definition store_update ::
  "int \<Rightarrow> int \<Rightarrow> 'v list \<Rightarrow> ('ty, 'v) typed_store \<Rightarrow> ('ty, 'v) typed_store" where
  "store_update now revision data ts =
     ts\<lparr>ts_snapshot := Some \<lparr>sn_revision = revision, sn_data = data, sn_parsedAt = now\<rparr>\<rparr>"

record ('ty, 'v) config_store =
  cs_stores :: "(string \<times> ('ty, 'v) typed_store) list"

definition newConfigStore :: "('ty, 'v) config_store" where
  "newConfigStore = \<lparr>cs_stores = []\<rparr>"

definition getTypedStore :: "('ty, 'v) config_store \<Rightarrow> string \<Rightarrow> ('ty, 'v) typed_store option" where
  "getTypedStore cs name = map_of (cs_stores cs) name"

definition put_store ::
  "string \<Rightarrow> ('ty, 'v) typed_store \<Rightarrow> ('ty, 'v) config_store \<Rightarrow> ('ty, 'v) config_store" where
  "put_store name ts cs = cs\<lparr>cs_stores := AList.update name ts (cs_stores cs)\<rparr>"

definition getRegisteredNames :: "('ty, 'v) config_store \<Rightarrow> string list" where
  "getRegisteredNames cs = sort (map fst (cs_stores cs))"

text \<open>\<open>Register\<close>: \<open>None\<close> is its panic on a second registration with another type.\<close>

definition register_config ::
  "string \<Rightarrow> 'ty \<Rightarrow> ('ty, 'v) config_store
     \<Rightarrow> (('ty, 'v) typed_store \<times> ('ty, 'v) config_store) option" where
  "register_config name ty cs =
     (case getTypedStore cs name of
        Some ts \<Rightarrow> if ts_type ts = ty then Some (ts, cs) else None
      | None \<Rightarrow> (let ts = newTypedStore ty in Some (ts, put_store name ts cs)))"

text \<open>
  The package variables: the pointer to the global store and the \<open>sync.Once\<close> that guards it,
  over the stores allocated so far. \<open>ResetStore\<close> allocates a store and forgets the \<open>Once\<close>, so
  the next \<open>GetStore\<close> allocates once more.
\<close>

record ('ty, 'v) config_globals =
  cg_heap :: "('ty, 'v) config_store list"
  cg_globalStore :: "nat option"
  cg_once :: bool

definition resetStore :: "('ty, 'v) config_globals \<Rightarrow> ('ty, 'v) config_globals" where
  "resetStore g =
     g\<lparr>cg_heap := cg_heap g @ [newConfigStore], cg_globalStore := Some (length (cg_heap g)), cg_once := False\<rparr>"

definition getStore :: "('ty, 'v) config_globals \<Rightarrow> nat option \<times> ('ty, 'v) config_globals" where
  "getStore g =
     (if cg_once g then (cg_globalStore g, g)
      else (Some (length (cg_heap g)),
            g\<lparr>cg_heap := cg_heap g @ [newConfigStore], cg_globalStore := Some (length (cg_heap g)), cg_once := True\<rparr>))"

definition globals_ok :: "('ty, 'v) config_globals \<Rightarrow> bool" where
  "globals_ok g \<longleftrightarrow> (cg_once g \<longrightarrow> (\<exists>p < length (cg_heap g). cg_globalStore g = Some p))"

lemma globals_ok_kept: "globals_ok g \<Longrightarrow> globals_ok (resetStore g) \<and> globals_ok (snd (getStore g))"
  by (auto simp: globals_ok_def resetStore_def getStore_def)

text \<open>Every later \<open>GetStore\<close> has the store of the first; after a reset it is a fresh, empty one.\<close>

lemma getStore_singleton:
  assumes "globals_ok g" and "getStore g = (r, g')"
  shows "getStore g' = (r, g') \<and> (\<exists>p < length (cg_heap g'). r = Some p)"
  using assms by (auto simp: globals_ok_def getStore_def split: if_splits)

lemma getStore_after_reset:
  assumes "getStore (resetStore g) = (r, g')"
  shows "\<exists>p \<ge> length (cg_heap g). r = Some p \<and> cg_heap g' ! p = newConfigStore"
  using assms by (auto simp: getStore_def resetStore_def nth_append)

interpretation cfg: keyed_store getTypedStore put_store
  by unfold_locales (simp add: fun_eq_iff getTypedStore_def put_store_def update_conv')

section \<open>The loader\<close>

text \<open>\<open>SELECT cols FROM table WHERE config_name = name ORDER BY revision DESC LIMIT 1\<close>.\<close>

record sql_select =
  sq_columns :: "string list"
  sq_table :: string
  sq_where_column :: string
  sq_where_value :: string
  sq_order_desc :: string

definition latest_query :: "string \<Rightarrow> sql_select" where
  "latest_query name =
     \<lparr>sq_columns = [''data'', ''revision''], sq_table = ''lobby_config_revision'',
      sq_where_column = ''config_name'', sq_where_value = name, sq_order_desc = ''revision''\<rparr>"

text \<open>\<open>json.Unmarshal\<close> into a slice: \<open>null\<close> is the nil slice.\<close>

fun decode_elems :: "(json \<Rightarrow> 'v option) \<Rightarrow> json list \<Rightarrow> 'v list option" where
  "decode_elems f [] = Some []"
| "decode_elems f (j # js) =
     (case f j of None \<Rightarrow> None | Some x \<Rightarrow> map_option (\<lambda>xs. x # xs) (decode_elems f js))"

definition decode_slice :: "(json \<Rightarrow> 'v option) \<Rightarrow> string \<Rightarrow> 'v list option" where
  "decode_slice f bytes =
     (case json_parse bytes of
        Some JNull \<Rightarrow> Some []
      | Some (JArr js) \<Rightarrow> decode_elems f js
      | _ \<Rightarrow> None)"

record ('d, 'ty, 'v) config_loader =
  cl_router :: "(nat, nat) router"
  cl_routingKey :: string
  cl_query :: "sql_select \<Rightarrow> 'd \<Rightarrow> (string, string \<times> int) result"
  cl_decode :: "'ty \<Rightarrow> json \<Rightarrow> 'v option"

datatype config_load_error =
    Resolve_failed route_error
  | Not_registered string
  | Query_failed string
  | Parse_failed string

datatype 'a load_outcome = Load_ok 'a | Load_error config_load_error | Load_panic

definition parseAndUpdate ::
  "('d, 'ty, 'v) config_loader \<Rightarrow> int \<Rightarrow> string \<Rightarrow> string \<Rightarrow> int \<Rightarrow> ('ty, 'v) typed_store
     \<Rightarrow> ('ty, 'v) config_store \<Rightarrow> ('ty, 'v) config_store load_outcome"
where
  "parseAndUpdate l now name data revision ts cs =
     (case decode_slice (cl_decode l (ts_type ts)) data of
        None \<Rightarrow> Load_error (Parse_failed name)
      | Some rows \<Rightarrow> Load_ok (put_store name (store_update now revision rows ts) cs))"

definition loadOne ::
  "('d, 'ty, 'v) config_loader \<Rightarrow> int \<Rightarrow> (nat \<Rightarrow> 'd) \<Rightarrow> string \<Rightarrow> ('ty, 'v) config_store
     \<Rightarrow> ('ty, 'v) config_store load_outcome"
where
  "loadOne l now dbs name cs =
     (case resolveDB (cl_router l) (cl_routingKey l) of
        Inl e \<Rightarrow> Load_error (Resolve_failed e)
      | Inr (db, pool) \<Rightarrow>
          (case getTypedStore cs name of
             None \<Rightarrow> Load_error (Not_registered name)
           | Some ts \<Rightarrow>
               (case db of
                  None \<Rightarrow> Load_panic
                | Some h \<Rightarrow>
                    (case cl_query l (latest_query name) (dbs h) of
                       Inl e \<Rightarrow> Load_error (Query_failed e)
                     | Inr (data, revision) \<Rightarrow> parseAndUpdate l now name data revision ts cs))))"

text \<open>The store after a load whose error is only logged; \<open>None\<close> is a panic.\<close>

definition load_logged ::
  "('d, 'ty, 'v) config_loader \<Rightarrow> int \<Rightarrow> (nat \<Rightarrow> 'd) \<Rightarrow> string \<Rightarrow> ('ty, 'v) config_store
     \<Rightarrow> ('ty, 'v) config_store option"
where
  "load_logged l now dbs name cs =
     (case loadOne l now dbs name cs of
        Load_ok cs' \<Rightarrow> Some cs'
      | Load_error e \<Rightarrow> Some cs
      | Load_panic \<Rightarrow> None)"

fun load_names ::
  "('d, 'ty, 'v) config_loader \<Rightarrow> int \<Rightarrow> (nat \<Rightarrow> 'd) \<Rightarrow> string list \<Rightarrow> ('ty, 'v) config_store
     \<Rightarrow> ('ty, 'v) config_store option"
where
  "load_names l now dbs [] cs = Some cs"
| "load_names l now dbs (n # ns) cs =
     Option.bind (load_logged l now dbs n cs) (load_names l now dbs ns)"

definition loadAll ::
  "('d, 'ty, 'v) config_loader \<Rightarrow> int \<Rightarrow> (nat \<Rightarrow> 'd) \<Rightarrow> ('ty, 'v) config_store
     \<Rightarrow> ('ty, 'v) config_store option"
where
  "loadAll l now dbs cs = load_names l now dbs (getRegisteredNames cs) cs"

section \<open>The watcher\<close>

definition configNotifyChannel :: string where
  "configNotifyChannel = ''kd48:lobby:config:notify''"

definition set_notify_field :: "string \<Rightarrow> json \<Rightarrow> string \<times> int \<Rightarrow> (string \<times> int) option" where
  "set_notify_field n v x =
     (if n = ''config_name'' then map_option (\<lambda>s. (s, snd x)) (set_string v (fst x))
      else map_option (\<lambda>i. (fst x, i)) (set_int64 v (snd x)))"

definition decode_notify :: "string \<Rightarrow> (string \<times> int) option" where
  "decode_notify payload =
     Option.bind (json_parse payload)
       (decode_struct [''config_name'', ''revision''] set_notify_field ([], 0))"

definition notify_message ::
  "('d, 'ty, 'v) config_loader \<Rightarrow> int \<Rightarrow> (nat \<Rightarrow> 'd) \<Rightarrow> string \<Rightarrow> ('ty, 'v) config_store
     \<Rightarrow> ('ty, 'v) config_store option"
where
  "notify_message l now dbs payload cs =
     (case decode_notify payload of
        None \<Rightarrow> Some cs
      | Some (name, revision) \<Rightarrow>
          if name = [] then Some cs else load_logged l now dbs name cs)"

text \<open>
  \<open>Start\<close>: it returns at once when the route fails, the handle is no client (a nil one
  included) or the subscription fails; then it handles what the channel delivers, each
  message against the databases of its time, until the context is done or the channel
  closed.
\<close>

datatype 'd watch_event = Cw_done | Cw_closed | Cw_message int "nat \<Rightarrow> 'd" string

fun config_watch_loop ::
  "('d, 'ty, 'v) config_loader \<Rightarrow> 'd watch_event list \<Rightarrow> ('ty, 'v) config_store
     \<Rightarrow> ('ty, 'v) config_store option"
where
  "config_watch_loop l [] cs = Some cs"
| "config_watch_loop l (Cw_done # evs) cs = Some cs"
| "config_watch_loop l (Cw_closed # evs) cs = Some cs"
| "config_watch_loop l (Cw_message now dbs p # evs) cs =
     Option.bind (notify_message l now dbs p cs) (config_watch_loop l evs)"

record ('d, 'ty, 'v) config_watcher =
  cw_router :: "(nat, nat) router"
  cw_routingKey :: string
  cw_loader :: "('d, 'ty, 'v) config_loader"
  cw_channel :: string

definition newConfigWatcher ::
  "(nat, nat) router \<Rightarrow> string \<Rightarrow> ('d, 'ty, 'v) config_loader \<Rightarrow> string \<Rightarrow> ('d, 'ty, 'v) config_watcher" where
  "newConfigWatcher router key l channel =
     \<lparr>cw_router = router, cw_routingKey = key, cw_loader = l, cw_channel = channel\<rparr>"

definition config_watcher_start ::
  "('d, 'ty, 'v) config_watcher \<Rightarrow> bool \<Rightarrow> 'd watch_event list \<Rightarrow> ('ty, 'v) config_store
     \<Rightarrow> ('ty, 'v) config_store option"
where
  "config_watcher_start w subscribed evs cs =
     (case resolveRedis (cw_router w) (cw_routingKey w) of
        Inl e \<Rightarrow> Some cs
      | Inr (None, _) \<Rightarrow> Some cs
      | Inr (Some h, _) \<Rightarrow> if subscribed then config_watch_loop (cw_loader w) evs cs else Some cs)"

section \<open>The lobby's calls\<close>

record ping_reply =
  pr_pong :: string
  pr_configRevision :: int

definition lobby_ping :: "string \<Rightarrow> ping_reply" where
  "lobby_ping client_hint = \<lparr>pr_pong = ''pong'', pr_configRevision = 0\<rparr>"

definition lobby_ingress ::
  "(string \<Rightarrow> (string, string) result) \<Rightarrow> (ping_reply \<Rightarrow> (string, string) result)
     \<Rightarrow> (string \<Rightarrow> ping_reply) option \<Rightarrow> string \<Rightarrow> string \<Rightarrow> (int \<times> string, string) result"
where
  "lobby_ingress decode encode inner route payload =
     (if route = ''/lobby.v1.LobbyService/Ping''
      then (case inner of
              None \<Rightarrow> Inl (13, ''ingress inner not configured'')
            | Some ping \<Rightarrow>
                (case decode payload of
                   Inl e \<Rightarrow> Inl (3, ''invalid json: '' @ e)
                 | Inr hint \<Rightarrow>
                     (case encode (ping hint) of
                        Inl e \<Rightarrow> Inl (13, ''marshal reply: '' @ e)
                      | Inr b \<Rightarrow> Inr b)))
      else Inl (3, ''unknown ingress route''))"

section \<open>Documented behaviour of the database\<close>

text \<open>
  A table with the columns \<open>cols\<close>, its rows as (config name, revision, payload); names that
  differ are different to the collation of the column. A query may fail at any time. When it
  answers, the table has the columns it reads, and the answer is the payload and revision of
  a row of that name with the greatest revision: a query for a column the table lacks is an
  error, and so is one without a matching row (\<open>sql.ErrNoRows\<close>).
\<close>

type_synonym config_row = "string \<times> int \<times> string"

definition query_contract ::
  "(sql_select \<Rightarrow> 'd \<Rightarrow> (string, string \<times> int) result) \<Rightarrow> string list \<Rightarrow> ('d \<Rightarrow> config_row set) \<Rightarrow> bool"
where
  "query_contract q cols rows \<longleftrightarrow>
     (\<forall>name db d r. q (latest_query name) db = Inr (d, r) \<longrightarrow>
        set (sq_columns (latest_query name)) \<subseteq> set cols \<and> (name, r, d) \<in> rows db \<and>
        (\<forall>r' d'. (name, r', d') \<in> rows db \<longrightarrow> r' \<le> r))"

text \<open>The columns of \<open>lobby_config_revision\<close> in the repository's migration.\<close>

definition migration_columns :: "string list" where
  "migration_columns =
     [''id'', ''config_name'', ''revision'', ''scope'', ''title'', ''tags'', ''start_time'', ''end_time'',
      ''csv_text'', ''json_payload'', ''created_at'']"

section \<open>Facts\<close>

definition snap :: "('ty, 'v) config_store \<Rightarrow> string \<Rightarrow> 'v snapshot option" where
  "snap cs name = Option.bind (getTypedStore cs name) store_get"

lemma loadOne_ok:
  assumes "loadOne l now dbs name cs = Load_ok cs'"
  obtains h pool ts data revision rows where
    "resolveDB (cl_router l) (cl_routingKey l) = Inr (Some h, pool)"
    "getTypedStore cs name = Some ts"
    "cl_query l (latest_query name) (dbs h) = Inr (data, revision)"
    "decode_slice (cl_decode l (ts_type ts)) data = Some rows"
    "cs' = put_store name (store_update now revision rows ts) cs"
  using assms
  by (auto simp: loadOne_def parseAndUpdate_def split: sum.splits option.splits prod.splits)

lemma snap_put:
  "snap (put_store name ts cs) n = (if n = name then ts_snapshot ts else snap cs n)"
  by (simp add: snap_def store_get_def cfg.get_put)

text \<open>The stored revisions are revisions of rows; and a later store is not behind.\<close>

definition backed :: "config_row set \<Rightarrow> ('ty, 'v) config_store \<Rightarrow> bool" where
  "backed R cs \<longleftrightarrow> (\<forall>n sn. snap cs n = Some sn \<longrightarrow> (\<exists>d. (n, sn_revision sn, d) \<in> R))"

definition not_behind :: "('ty, 'v) config_store \<Rightarrow> ('ty, 'v) config_store \<Rightarrow> bool" where
  "not_behind cs cs' \<longleftrightarrow>
     (\<forall>n sn. snap cs n = Some sn \<longrightarrow>
        (\<exists>sn'. snap cs' n = Some sn' \<and> sn_revision sn \<le> sn_revision sn'))"

lemma not_behind_refl: "not_behind cs cs"
  by (simp add: not_behind_def)

lemma not_behind_trans:
  assumes "not_behind a b" and "not_behind b c"
  shows "not_behind a c"
  unfolding not_behind_def
proof (intro allI impI)
  fix n sn
  assume "snap a n = Some sn"
  then obtain sn' where "snap b n = Some sn'" "sn_revision sn \<le> sn_revision sn'"
    using assms(1) unfolding not_behind_def by blast
  moreover then obtain sn'' where "snap c n = Some sn''" "sn_revision sn' \<le> sn_revision sn''"
    using assms(2) unfolding not_behind_def by blast
  ultimately show "\<exists>sn'. snap c n = Some sn' \<and> sn_revision sn \<le> sn_revision sn'" by auto
qed

lemma query_found:
  assumes "query_contract q cols rows" and "q (latest_query name) db = Inr (d, r)"
  shows "(name, r, d) \<in> rows db \<and> (\<forall>r' d'. (name, r', d') \<in> rows db \<longrightarrow> r' \<le> r)"
  using assms unfolding query_contract_def by blast

lemma load_logged_not_behind:
  assumes "query_contract (cl_query l) cols rows"
    and "resolveDB (cl_router l) (cl_routingKey l) = Inr (Some h, pool)"
    and "backed (rows (dbs h)) cs" and "load_logged l now dbs name cs = Some cs'"
  shows "not_behind cs cs' \<and> backed (rows (dbs h)) cs'"
proof (cases "loadOne l now dbs name cs")
  case (Load_ok cs1)
  then have cs1: "cs' = cs1" using assms(4) by (simp add: load_logged_def)
  from Load_ok obtain h' pool' ts data revision rs where
    l: "resolveDB (cl_router l) (cl_routingKey l) = Inr (Some h', pool')"
      "cl_query l (latest_query name) (dbs h') = Inr (data, revision)"
      "cs1 = put_store name (store_update now revision rs ts) cs"
    by (rule loadOne_ok)
  have q: "cl_query l (latest_query name) (dbs h) = Inr (data, revision)" using l(1,2) assms(2) by simp
  note row = query_found[OF assms(1) q]
  have snap': "snap cs' n = (if n = name then Some \<lparr>sn_revision = revision, sn_data = rs, sn_parsedAt = now\<rparr>
      else snap cs n)" for n
    by (simp add: cs1 l(3) snap_put store_update_def)
  have "sn_revision sn \<le> revision" if "snap cs name = Some sn" for sn
    using assms(3) that row unfolding backed_def by blast
  then have "not_behind cs cs'" by (simp add: not_behind_def snap')
  moreover have "backed (rows (dbs h)) cs'"
    using assms(3) row by (auto simp: backed_def snap')
  ultimately show ?thesis by simp
next
  case (Load_error e)
  then show ?thesis using assms(3,4) by (simp add: load_logged_def not_behind_refl)
next
  case Load_panic
  then show ?thesis using assms(4) by (simp add: load_logged_def)
qed

fun growing :: "('d \<Rightarrow> config_row set) \<Rightarrow> nat \<Rightarrow> config_row set \<Rightarrow> 'd watch_event list \<Rightarrow> bool" where
  "growing rows h R [] = True"
| "growing rows h R (Cw_message now dbs p # evs) =
     (R \<subseteq> rows (dbs h) \<and> growing rows h (rows (dbs h)) evs)"
| "growing rows h R (ev # evs) = growing rows h R evs"

lemma backed_mono: "backed R cs \<Longrightarrow> R \<subseteq> R' \<Longrightarrow> backed R' cs"
  unfolding backed_def by blast

lemma watch_loop_not_behind:
  assumes "query_contract (cl_query l) cols rows"
    and "resolveDB (cl_router l) (cl_routingKey l) = Inr (Some h, pool)"
    and "growing rows h R evs" and "backed R cs" and "config_watch_loop l evs cs = Some cs'"
  shows "not_behind cs cs'"
  using assms(3-5)
proof (induction evs arbitrary: R cs)
  case Nil
  then show ?case by (simp add: not_behind_refl)
next
  case (Cons ev evs)
  show ?case
  proof (cases ev)
    case (Cw_message now dbs p)
    have R: "R \<subseteq> rows (dbs h)" and grow: "growing rows h (rows (dbs h)) evs"
      using Cons.prems(1) by (simp_all add: Cw_message)
    have b: "backed (rows (dbs h)) cs" using Cons.prems(2) R by (rule backed_mono)
    obtain cs1 where m: "notify_message l now dbs p cs = Some cs1"
      and rest: "config_watch_loop l evs cs1 = Some cs'"
      using Cons.prems(3) by (auto simp: Cw_message bind_eq_Some_conv)
    have "not_behind cs cs1 \<and> backed (rows (dbs h)) cs1"
    proof (cases "\<exists>name rev. decode_notify p = Some (name, rev) \<and> name \<noteq> []")
      case True
      then obtain name where "load_logged l now dbs name cs = Some cs1"
        using m by (auto simp: notify_message_def)
      then show ?thesis by (rule load_logged_not_behind[where dbs = dbs and h = h, OF assms(1,2) b])
    next
      case False
      then have "cs1 = cs" using m by (auto simp: notify_message_def split: option.splits if_splits)
      then show ?thesis using b by (simp add: not_behind_refl)
    qed
    then show ?thesis using Cons.IH[OF grow _ rest] not_behind_trans by blast
  qed (use Cons.prems in \<open>simp_all add: not_behind_refl\<close>)
qed

text \<open>With a handle for its route a load never panics, and a whole load keeps stores backed.\<close>

lemma load_logged_total:
  assumes "resolveDB (cl_router l) (cl_routingKey l) = Inr (Some h, pool)"
  obtains cs' where "load_logged l now dbs name cs = Some cs'"
proof -
  have "loadOne l now dbs name cs \<noteq> Load_panic"
    by (auto simp: loadOne_def assms parseAndUpdate_def split: option.splits sum.splits)
  then show ?thesis using that by (cases "loadOne l now dbs name cs") (auto simp: load_logged_def)
qed

lemma notify_message_total:
  assumes "resolveDB (cl_router l) (cl_routingKey l) = Inr (Some h, pool)"
  obtains cs' where "notify_message l now dbs p cs = Some cs'"
proof (cases "\<exists>name rev. decode_notify p = Some (name, rev) \<and> name \<noteq> []")
  case True
  then obtain name rev where "decode_notify p = Some (name, rev)" "name \<noteq> []" by blast
  then have "notify_message l now dbs p cs = load_logged l now dbs name cs"
    by (simp add: notify_message_def)
  then show ?thesis using load_logged_total[OF assms] that by metis
next
  case False
  then have "notify_message l now dbs p cs = Some cs"
    by (auto simp: notify_message_def split: option.splits)
  then show ?thesis by (rule that)
qed

lemma load_names_backed:
  assumes "query_contract (cl_query l) cols rows"
    and "resolveDB (cl_router l) (cl_routingKey l) = Inr (Some h, pool)"
    and "backed (rows (dbs h)) cs"
  shows "\<exists>cs'. load_names l now dbs ns cs = Some cs' \<and> backed (rows (dbs h)) cs'"
  using assms(3)
proof (induction ns arbitrary: cs)
  case (Cons n ns)
  obtain cs1 where c: "load_logged l now dbs n cs = Some cs1" using load_logged_total[OF assms(2)] .
  then have "backed (rows (dbs h)) cs1"
    using load_logged_not_behind[where dbs = dbs and h = h, OF assms(1,2) Cons.prems] by blast
  then show ?case using Cons.IH by (simp add: c)
qed simp

lemma watch_loop_total:
  assumes "resolveDB (cl_router l) (cl_routingKey l) = Inr (Some h, pool)"
  shows "\<exists>cs'. config_watch_loop l evs cs = Some cs'"
proof (induction evs arbitrary: cs)
  case (Cons ev evs)
  show ?case
  proof (cases ev)
    case (Cw_message now dbs p)
    obtain cs1 where "notify_message l now dbs p cs = Some cs1" using notify_message_total[OF assms] .
    then show ?thesis using Cons.IH by (simp add: Cw_message)
  qed simp_all
qed simp

lemma watcher_cases:
  "config_watcher_start w sub evs cs \<in> {Some cs, config_watch_loop (cw_loader w) evs cs}"
  by (auto simp: config_watcher_start_def split: sum.splits option.splits)

text \<open>A table without the column \<open>data\<close>: every load fails and changes nothing.\<close>

lemma missing_column_load:
  assumes "query_contract (cl_query l) cols rows" and "''data'' \<notin> set cols"
    and "resolveDB (cl_router l) (cl_routingKey l) = Inr (Some h, pool)"
  shows "load_logged l now dbs name cs = Some cs"
proof -
  have "\<not> set (sq_columns (latest_query name)) \<subseteq> set cols" using assms(2) by (simp add: latest_query_def)
  then obtain e where "cl_query l (latest_query name) (dbs h) = Inl e"
    using assms(1) unfolding query_contract_def by (metis sum.exhaust surj_pair)
  then show ?thesis by (simp add: load_logged_def loadOne_def assms(3) split: option.splits)
qed

lemma missing_column_names:
  assumes "query_contract (cl_query l) cols rows" and "''data'' \<notin> set cols"
    and "resolveDB (cl_router l) (cl_routingKey l) = Inr (Some h, pool)"
  shows "load_names l now dbs ns cs = Some cs"
  by (induction ns) (simp_all add: missing_column_load[OF assms])

lemma missing_column_watch:
  assumes "query_contract (cl_query l) cols rows" and "''data'' \<notin> set cols"
    and "resolveDB (cl_router l) (cl_routingKey l) = Inr (Some h, pool)"
  shows "config_watch_loop l evs cs = Some cs"
proof (induction evs)
  case (Cons ev evs)
  have "notify_message l now dbs p cs = Some cs" for now dbs p
    by (simp add: notify_message_def missing_column_load[OF assms] split: option.splits)
  then show ?case using Cons.IH by (cases ev) simp_all
qed simp

section \<open>Properties\<close>

text \<open>
  A notification for a registered configuration installs its newest revision: if the
  query is answered and the payload decodes, the store then holds exactly that payload's rows under the greatest revision in the table, whatever
  revision the notification named, and every other configuration is as before.
\<close>

theorem notification_installs_newest:
  assumes "query_contract (cl_query l) cols rows"
    and "resolveDB (cl_router l) (cl_routingKey l) = Inr (Some h, pool)"
    and "decode_notify payload = Some (name, rv)" and "name \<noteq> []"
    and "getTypedStore cs name = Some ts" and "cl_query l (latest_query name) (dbs h) = Inr (d, r)"
    and "decode_slice (cl_decode l (ts_type ts)) d = Some vs"
  shows "\<exists>cs'. notify_message l now dbs payload cs = Some cs' \<and>
    (name, r, d) \<in> rows (dbs h) \<and> (\<forall>r' d'. (name, r', d') \<in> rows (dbs h) \<longrightarrow> r' \<le> r) \<and>
    snap cs' name = Some \<lparr>sn_revision = r, sn_data = vs, sn_parsedAt = now\<rparr> \<and>
    (\<forall>n. n \<noteq> name \<longrightarrow> snap cs' n = snap cs n)"
proof -
  note row = query_found[OF assms(1,6)]
  define cs' where "cs' = put_store name (store_update now r vs ts) cs"
  have "notify_message l now dbs payload cs = Some cs'"
    by (simp add: notify_message_def assms(2-7) load_logged_def loadOne_def parseAndUpdate_def cs'_def)
  moreover have "snap cs' n = (if n = name then Some \<lparr>sn_revision = r, sn_data = vs, sn_parsedAt = now\<rparr>
      else snap cs n)" for n
    by (simp add: cs'_def snap_put store_update_def)
  ultimately show ?thesis using row by auto
qed

text \<open>A database holding two revisions of one configuration whose rows are numbers.\<close>

definition demo_table :: "config_row set" where
  "demo_table = {(''Reward'', 1, ''[1]''), (''Reward'', 2, ''[1,2]'')}"

definition demo_query ::
  "string list \<Rightarrow> sql_select \<Rightarrow> config_row set \<Rightarrow> (string, string \<times> int) result" where
  "demo_query cols q db =
     (if \<not> set (sq_columns q) \<subseteq> set cols then Inl ''Unknown column''
      else if sq_where_value q = ''Reward'' \<and> db = demo_table then Inr (''[1,2]'', 2)
      else Inl ''sql: no rows in result set'')"

definition demo_decode :: "json \<Rightarrow> string option" where
  "demo_decode j = (case j of JNum n \<Rightarrow> Some n | _ \<Rightarrow> None)"

definition demo_loader :: "string list \<Rightarrow> (config_row set, nat, string) config_loader" where
  "demo_loader cols =
     \<lparr>cl_router = \<lparr>mysqlPools = [''default'' \<mapsto> 0], redisPools = [''default'' \<mapsto> 0],
                   mysqlRoutes = [\<lparr>rr_prefix = [], rr_pool = ''default''\<rparr>],
                   redisRoutes = [\<lparr>rr_prefix = [], rr_pool = ''default''\<rparr>]\<rparr>,
      cl_routingKey = ''lobby:config-data'', cl_query = demo_query cols,
      cl_decode = (\<lambda>ty. demo_decode)\<rparr>"

definition demo_view :: "config_row set \<Rightarrow> config_row set" where
  "demo_view db = (if db = demo_table then demo_table else {})"

lemma demo_contract: "query_contract (cl_query (demo_loader cols)) cols demo_view"
  by (auto simp: query_contract_def demo_loader_def demo_query_def demo_view_def latest_query_def)
     (auto simp: demo_table_def)

lemma demo_loader_db: "resolveDB (cl_router (demo_loader cols)) (cl_routingKey (demo_loader cols)) =
    Inr (Some 0, ''default'')"
  by (simp add: demo_loader_def mysql_side.only_catch_all)

definition demo_store :: "(nat, string) config_store" where
  "demo_store = \<lparr>cs_stores = [(''Reward'', newTypedStore 0)]\<rparr>"

lemma demo_notify: "decode_notify ''{\"config_name\":\"Reward\",\"revision\":2}'' = Some (''Reward'', 2)"
  by code_simp

lemma demo_decode_slice:
  "decode_slice demo_decode ''[1]'' = Some [''1'']" "decode_slice demo_decode ''[1,2]'' = Some [''1'', ''2'']"
  by code_simp+

lemma notification_installs_newest_witness:
  "\<exists>cs'. notify_message (demo_loader [''data'', ''revision'']) 5 (\<lambda>h. demo_table)
     ''{\"config_name\":\"Reward\",\"revision\":2}'' demo_store = Some cs' \<and>
     map_option sn_revision (snap cs' ''Reward'') = Some 2"
proof -
  let ?l = "demo_loader [''data'', ''revision'']"
  have ts: "getTypedStore demo_store ''Reward'' = Some (newTypedStore 0)"
    by (simp add: getTypedStore_def demo_store_def)
  have q: "cl_query ?l (latest_query ''Reward'') demo_table = Inr (''[1,2]'', 2)"
    by (simp add: demo_loader_def demo_query_def latest_query_def)
  have d: "decode_slice (cl_decode ?l (ts_type (newTypedStore 0 :: (nat, string) typed_store))) ''[1,2]'' =
      Some [''1'', ''2'']"
    by (simp add: demo_loader_def demo_decode_slice)
  show ?thesis
    using notification_installs_newest[where dbs = "\<lambda>h. demo_table" and now = 5,
        OF demo_contract demo_loader_db demo_notify _ ts q d]
    by auto
qed



text \<open>
  C33. Against the table the repository's migration creates, which has a column
  \<open>json_payload\<close> and none named \<open>data\<close>, the cache never holds anything: the initial load and
  every notification leave the store as it was.
\<close>

theorem migrated_table_never_loads:
  assumes "query_contract (cl_query l) migration_columns rows"
    and "resolveDB (cl_router l) (cl_routingKey l) = Inr (Some h, pool)"
  shows "loadAll l now dbs cs = Some cs \<and> config_watcher_start (newConfigWatcher r key l ch) sub evs cs = Some cs"
proof -
  have d: "''data'' \<notin> set migration_columns" by (simp add: migration_columns_def)
  show ?thesis
    using missing_column_names[OF assms(1) d assms(2)] missing_column_watch[OF assms(1) d assms(2)]
      watcher_cases[of "newConfigWatcher r key l ch" sub evs cs]
    by (simp add: loadAll_def newConfigWatcher_def)
qed

lemma migrated_table_never_loads_witness:
  "loadAll (demo_loader migration_columns) 5 (\<lambda>h. demo_table) demo_store = Some demo_store"
  using migrated_table_never_loads[OF demo_contract demo_loader_db, of 5 "\<lambda>h. demo_table" demo_store] by blast

text \<open>
  Registration is idempotent: it returns a store of the asked type under its name and
  touches no other, an earlier store keeps its snapshot, registering again returns the same
  store and changes nothing, and registering with another type panics.
\<close>

theorem register_config_spec:
  assumes "register_config name ty cs = Some (ts, cs')"
  shows "getTypedStore cs' name = Some ts \<and> ts_type ts = ty \<and>
    (\<forall>n. n \<noteq> name \<longrightarrow> getTypedStore cs' n = getTypedStore cs n) \<and> snap cs' = snap cs \<and>
    register_config name ty cs' = Some (ts, cs') \<and> (\<forall>ty'. ty' \<noteq> ty \<longrightarrow> register_config name ty' cs' = None) \<and>
    set (getRegisteredNames cs') = insert name (set (getRegisteredNames cs))"
proof (cases "getTypedStore cs name")
  case None
  then have cs': "ts = newTypedStore ty" "cs' = put_store name ts cs"
    using assms by (auto simp: register_config_def Let_def)
  have "snap cs name = None" using None by (simp add: snap_def)
  then have "snap cs' = snap cs" by (auto simp: fun_eq_iff cs' snap_put newTypedStore_def)
  moreover have "set (getRegisteredNames cs') = insert name (set (getRegisteredNames cs))"
    using dom_update[of name "newTypedStore ty" "cs_stores cs"]
    by (simp add: cs' getRegisteredNames_def put_store_def)
  ultimately show ?thesis
    by (simp add: cs' cfg.get_put register_config_def newTypedStore_def)
next
  case (Some ts0)
  then have e: "ts0 = ts" "ts_type ts = ty" "cs' = cs"
    using assms by (auto simp: register_config_def split: if_splits)
  have "name \<in> set (getRegisteredNames cs)"
    using Some by (auto simp: getRegisteredNames_def getTypedStore_def dest!: map_of_SomeD intro: rev_image_eqI)
  then show ?thesis using Some e by (auto simp: register_config_def)
qed

lemma register_config_spec_witness:
  "\<exists>ts cs'. register_config ''Tier'' 1 (newConfigStore :: (nat, string) config_store) = Some (ts, cs') \<and>
     getTypedStore cs' ''Tier'' = Some ts \<and> register_config ''Tier'' 2 cs' = None"
proof -
  have "register_config ''Tier'' 1 (newConfigStore :: (nat, string) config_store) =
      Some (newTypedStore 1, \<lparr>cs_stores = [(''Tier'', newTypedStore 1)]\<rparr>)"
    by (simp add: register_config_def newConfigStore_def getTypedStore_def put_store_def Let_def)
  from this register_config_spec[OF this] show ?thesis by simp
qed

end
