(* ===== verification/Service_Start.thy ===== *)
theory Service_Start
  imports Etcd_Setup User_Service Lobby_Config
begin

text \<open>
  The start of the two services, \<open>services/user/cmd/user/main.go\<close> and
  \<open>services/lobby/cmd/lobby/main.go\<close>: configuration, pools, routing rules from etcd, router,
  listener, registration, in the order of the code, with every way to end early. A panic runs
  the deferred calls, \<open>os.Exit\<close> does not.

  The environment answers every call to the outside; a pool handle is its number in the order
  of opening; the order in which Go visits the pool maps is part of the environment. Logging
  is left out. The goroutines a start leaves behind are the loops of \<open>Dsroute_Loader\<close>
  (\<open>Watch\<close>) and \<open>Lobby_Config\<close> (the watcher); their start is an effect.
\<close>

section \<open>The environment and the effects\<close>

record redis_options =
  rop_addr :: string
  rop_password :: string
  rop_db :: int
  rop_poolSize :: int
  rop_minIdleConns :: int
  rop_dialTimeout :: int
  rop_readTimeout :: int
  rop_writeTimeout :: int

datatype mysql_setting =
    Max_open_conns int
  | Max_idle_conns int
  | Conn_max_lifetime int
  | Conn_max_idle_time int

record ('v, 'e) start_env =
  st_read_in :: "string \<Rightarrow> (string, 'v) result"
  st_unmarshal :: "'v \<Rightarrow> (string, config) result"
  st_tracer :: "string \<Rightarrow> bool"
  st_mysql_order :: "string list"
  st_redis_order :: "string list"
  st_sql_open :: "string \<Rightarrow> bool"
  st_mysql_ping :: "string \<Rightarrow> bool"
  st_redis_ping :: "redis_options \<Rightarrow> bool"
  st_etcd :: "'e etcd_ops"
  st_listen :: "int \<Rightarrow> bool"
  st_advertise :: string

datatype start_effect =
    Logging_to string string string
  | Tracing string
  | Mysql_opened string string "mysql_setting list"
  | Redis_opened string redis_options
  | Etcd_connected "string list"
  | Routes_watched
  | Configs_loaded
  | Config_updates_watched string
  | Listening int
  | Serving
  | Registered string string
  | Tracing_shut_down
  | Mysql_pools_closed
  | Redis_pools_closed
  | Etcd_closed

record 'e startup =
  su_effects :: "start_effect list"
  su_deferred :: "start_effect list"
  su_etcd :: 'e

datatype start_failure =
    Config_unusable "string conf_error"
  | Tracer_failed
  | Mysql_open_failed string
  | Mysql_ping_failed string
  | Redis_ping_failed string
  | Etcd_unusable registry_error
  | Routes_unreadable "string load_error"
  | Router_rejected router_error
  | Nil_pool_used
  | Listen_failed int
  | Advertise_address_missing
  | Registration_failed registry_error

datatype start_end = Panics start_failure | Exits nat start_failure

type_synonym ('e, 'a) started = "(start_end \<times> 'e startup, 'a \<times> 'e startup) result"

definition panics :: "start_failure \<Rightarrow> 'e startup \<Rightarrow> ('e, 'a) started" where
  "panics f s = Inl (Panics f, s\<lparr>su_effects := su_effects s @ su_deferred s, su_deferred := []\<rparr>)"

definition exits :: "nat \<Rightarrow> start_failure \<Rightarrow> 'e startup \<Rightarrow> ('e, 'a) started" where
  "exits n f s = Inl (Exits n f, s)"

definition performs :: "start_effect \<Rightarrow> 'e startup \<Rightarrow> 'e startup" where
  "performs x s = s\<lparr>su_effects := su_effects s @ [x]\<rparr>"

definition defers :: "start_effect \<Rightarrow> 'e startup \<Rightarrow> 'e startup" where
  "defers x s = s\<lparr>su_deferred := x # su_deferred s\<rparr>"

section \<open>The pools\<close>

definition mysql_settings :: "mysql_pool_spec \<Rightarrow> mysql_setting list" where
  "mysql_settings spec =
     (if 0 < mp_max_open spec then [Max_open_conns (mp_max_open spec)] else []) @
     (if 0 < mp_max_idle spec then [Max_idle_conns (mp_max_idle spec)] else []) @
     (if 0 < mp_conn_max_lifetime spec then [Conn_max_lifetime (mp_conn_max_lifetime spec)] else []) @
     (if 0 < mp_conn_max_idle_time spec then [Conn_max_idle_time (mp_conn_max_idle_time spec)] else [])"

text \<open>A timeout that is not set stays the zero of \<open>redis.Options\<close>.\<close>

definition redis_client_options :: "redis_pool_spec \<Rightarrow> redis_options" where
  "redis_client_options spec =
     \<lparr>rop_addr = rp_addr spec, rop_password = rp_password spec, rop_db = rp_db spec,
      rop_poolSize = rp_pool_size spec, rop_minIdleConns = rp_min_idle_conns spec,
      rop_dialTimeout = max 0 (rp_dial_timeout spec), rop_readTimeout = max 0 (rp_read_timeout spec),
      rop_writeTimeout = max 0 (rp_write_timeout spec)\<rparr>"

definition pool_entries :: "string list \<Rightarrow> (string \<Rightarrow> 'a option) \<Rightarrow> (string \<times> 'a) list" where
  "pool_entries order pools = List.map_filter (\<lambda>n. map_option (Pair n) (pools n)) order"

fun open_mysql_pools ::
  "('v, 'e) start_env \<Rightarrow> (string \<times> mysql_pool_spec) list \<Rightarrow> nat \<Rightarrow> (string \<Rightarrow> nat option) \<Rightarrow> 'e startup
     \<Rightarrow> ('e, string \<Rightarrow> nat option) started"
where
  "open_mysql_pools env [] h pools s = Inr (pools, s)"
| "open_mysql_pools env ((name, spec) # specs) h pools s =
     (if \<not> st_sql_open env (mp_dsn spec) then panics (Mysql_open_failed name) s
      else (let s1 = performs (Mysql_opened name (mp_dsn spec) (mysql_settings spec)) s
            in if \<not> st_mysql_ping env (mp_dsn spec) then panics (Mysql_ping_failed name) s1
               else open_mysql_pools env specs (Suc h) (pools(name \<mapsto> h)) s1))"

fun open_redis_pools ::
  "('v, 'e) start_env \<Rightarrow> (string \<times> redis_pool_spec) list \<Rightarrow> nat \<Rightarrow> (string \<Rightarrow> nat option) \<Rightarrow> 'e startup
     \<Rightarrow> ('e, string \<Rightarrow> nat option) started"
where
  "open_redis_pools env [] h pools s = Inr (pools, s)"
| "open_redis_pools env ((name, spec) # specs) h pools s =
     (let opts = redis_client_options spec; s1 = performs (Redis_opened name opts) s
      in if \<not> st_redis_ping env opts then panics (Redis_ping_failed name) s1
         else open_redis_pools env specs (Suc h) (pools(name \<mapsto> h)) s1)"

section \<open>The common part\<close>

definition connect_etcd :: "('v, 'e) start_env \<Rightarrow> config \<Rightarrow> 'e startup \<Rightarrow> ('e, unit) started" where
  "connect_etcd env c s =
     (case fst (registry_newClient (st_etcd env) (ec_endpoints (cf_etcd c)) (su_etcd s)) of
        Some x \<Rightarrow> panics (Etcd_unusable x) s
      | None \<Rightarrow> Inr ((), defers Etcd_closed (performs (Etcd_connected (ec_endpoints (cf_etcd c))) s)))"

definition load_router ::
  "('v, 'e) start_env \<Rightarrow> (string \<Rightarrow> nat option) \<Rightarrow> (string \<Rightarrow> nat option) \<Rightarrow> 'e startup
     \<Rightarrow> ('e, (nat, nat) router) started"
where
  "load_router env mp rp s =
     (case etcd_loader (st_etcd env) (su_etcd s) of
        Inl x \<Rightarrow> exits 1 (Routes_unreadable x) s
      | Inr cfg \<Rightarrow>
          (case newRouter mp rp (rc_mysql_routes cfg) (rc_redis_routes cfg) of
             Inl x \<Rightarrow> panics (Router_rejected x) s
           | Inr r \<Rightarrow> Inr (r, performs Routes_watched s)))"

text \<open>From the pools to the router; \<open>ToDSRouteConfig\<close> of a value that is there never is nil.\<close>

definition open_stores ::
  "('v, 'e) start_env \<Rightarrow> config \<Rightarrow> 'e startup \<Rightarrow> ('e, (nat, nat) router) started" where
  "open_stores env c s =
     (case toDSRouteConfig (Some (getDataSourcesOrSynthesize c)) of
        None \<Rightarrow> panics Nil_pool_used s
      | Some d \<Rightarrow>
          bind_result (open_mysql_pools env (pool_entries (st_mysql_order env) (dc_mysql_pools d)) 0 Map.empty s)
            (\<lambda>(mp, s1).
               bind_result (open_redis_pools env (pool_entries (st_redis_order env) (dc_redis_pools d)) 0 Map.empty
                   (defers Mysql_pools_closed s1))
                 (\<lambda>(rp, s2).
                    bind_result (connect_etcd env c (defers Redis_pools_closed s2))
                      (\<lambda>(u, s3). load_router env mp rp s3))))"

definition start_base ::
  "('v, 'e) start_env \<Rightarrow> string \<Rightarrow> string \<Rightarrow> 'e \<Rightarrow> ('e, config \<times> (nat, nat) router) started" where
  "start_base env log_file suf e =
     (let s = \<lparr>su_effects = [], su_deferred = [], su_etcd = e\<rparr>
      in case conf_load (st_read_in env) (st_unmarshal env) ''./config.yaml'' of
           Inl x \<Rightarrow> panics (Config_unusable x) s
         | Inr c \<Rightarrow>
             (let s1 = performs (Logging_to (lc_level (cf_log c)) (lc_file_path (cf_log c)) log_file) s;
                  name = sc_name (cf_server c) @ suf
              in if \<not> st_tracer env name then panics Tracer_failed s1
                 else bind_result (open_stores env c (defers Tracing_shut_down (performs (Tracing name) s1)))
                        (\<lambda>(r, s2). Inr ((c, r), s2))))"

section \<open>Registration\<close>

definition advertise_host ::
  "('v, 'e) start_env \<Rightarrow> config \<Rightarrow> 'e startup \<Rightarrow> ('e, string) started" where
  "advertise_host env c s =
     (if st_advertise env \<noteq> [] then Inr (st_advertise env, s)
      else if sc_env (cf_server c) = ''dev'' then Inr (''localhost'', s)
      else exits 1 Advertise_address_missing s)"

definition register_address ::
  "('v, 'e) start_env \<Rightarrow> string \<Rightarrow> string \<Rightarrow> 'e startup \<Rightarrow> ('e, string) started" where
  "register_address env name addr s =
     (case registerService (st_etcd env) name addr (su_etcd s) of
        (Some x, e) \<Rightarrow> panics (Registration_failed x) (s\<lparr>su_etcd := e\<rparr>)
      | (None, e) \<Rightarrow> Inr (addr, performs (Registered name addr) (s\<lparr>su_etcd := e\<rparr>)))"

text \<open>From the listener to the registration; the result is the published address.\<close>

definition serve_and_register ::
  "('v, 'e) start_env \<Rightarrow> config \<Rightarrow> string \<Rightarrow> int \<Rightarrow> 'e startup \<Rightarrow> ('e, string) started" where
  "serve_and_register env c name port s =
     (if \<not> st_listen env port then panics (Listen_failed port) s
      else bind_result (advertise_host env c (performs Serving (performs (Listening port) s)))
             (\<lambda>(host, s1). register_address env name (host @ CHR '':'' # show_int port) s1))"

section \<open>The two processes\<close>

text \<open>
  The session lifetime: hours times \<open>time.Hour\<close> in 64 bits, and the seconds the login script
  gets, towards zero.
\<close>

definition token_ttl :: "config \<Rightarrow> int" where
  "token_ttl c = sint (word_of_int (ssc_expire_hours (cf_session c) * 3600000000000) :: 64 word)"

definition ttl_seconds :: "int \<Rightarrow> int" where
  "ttl_seconds d = sgn d * (\<bar>d\<bar> div 1000000000)"

record user_process =
  up_router :: "(nat, nat) router"
  up_ttl :: int
  up_addr :: string

definition user_main :: "('v, 'e) start_env \<Rightarrow> 'e \<Rightarrow> ('e, user_process) started" where
  "user_main env e =
     bind_result (start_base env ''user-service.log'' ''-user-service'' e)
       (\<lambda>((c, r), s).
          bind_result (serve_and_register env c ''kd48/user-service'' (usc_port (cf_user_service c)) s)
            (\<lambda>(addr, s1). Inr (\<lparr>up_router = r, up_ttl = token_ttl c, up_addr = addr\<rparr>, s1)))"

definition newUserService ::
  "(nat, nat) router \<Rightarrow> int \<Rightarrow> 'r redis_ops \<Rightarrow> 'd db_ops \<Rightarrow> bcrypt_ops \<Rightarrow> ('r, 'd) user_service" where
  "newUserService r ttl rops dops bops =
     \<lparr>us_router = r, us_tokenTTL = ttl_seconds ttl, us_redisOps = rops, us_dbOps = dops, us_bcrypt = bops\<rparr>"

text \<open>
  The lobby loads its configurations before it listens; what it needs for that is the clock,
  the databases, the query, the decoder and the store that the generated packages registered
  with.
\<close>

record ('d, 'ty, 'v) lobby_data =
  ld_now :: int
  ld_dbs :: "nat \<Rightarrow> 'd"
  ld_query :: "sql_select \<Rightarrow> 'd \<Rightarrow> (string, string \<times> int) result"
  ld_decode :: "'ty \<Rightarrow> json \<Rightarrow> 'v option"
  ld_store :: "('ty, 'v) config_store"

record ('d, 'ty, 'v) lobby_process =
  lp_router :: "(nat, nat) router"
  lp_watcher :: "('d, 'ty, 'v) config_watcher"
  lp_store :: "('ty, 'v) config_store"
  lp_addr :: string

definition lobby_port :: "config \<Rightarrow> int" where
  "lobby_port c = (if lsc_port (cf_lobby_service c) = 0 then 9001 else lsc_port (cf_lobby_service c))"

definition lobby_loader :: "(nat, nat) router \<Rightarrow> ('d, 'ty, 'v) lobby_data \<Rightarrow> ('d, 'ty, 'v) config_loader" where
  "lobby_loader r dat =
     \<lparr>cl_router = r, cl_routingKey = ''lobby:config-data'', cl_query = ld_query dat, cl_decode = ld_decode dat\<rparr>"

definition lobby_serve :: "('x, 'e) start_env \<Rightarrow> config \<Rightarrow> 'e startup \<Rightarrow> ('e, string) started" where
  "lobby_serve env c s = serve_and_register env c ''kd48/lobby-service'' (lobby_port c) s"

definition lobby_main ::
  "('x, 'e) start_env \<Rightarrow> ('d, 'ty, 'v) lobby_data \<Rightarrow> 'e \<Rightarrow> ('e, ('d, 'ty, 'v) lobby_process) started" where
  "lobby_main env dat e =
     bind_result (start_base env ''lobby-service.log'' ''-lobby-service'' e)
       (\<lambda>((c, r), s).
          (let l = lobby_loader r dat
           in case loadAll l (ld_now dat) (ld_dbs dat) (ld_store dat) of
                None \<Rightarrow> panics Nil_pool_used s
              | Some cs \<Rightarrow>
                  bind_result (lobby_serve env c
                      (performs (Config_updates_watched ''lobby:config-notify'') (performs Configs_loaded s)))
                    (\<lambda>(addr, s1).
                       Inr (\<lparr>lp_router = r, lp_watcher = newConfigWatcher r ''lobby:config-notify'' l configNotifyChannel,
                             lp_store = cs, lp_addr = addr\<rparr>, s1))))"

section \<open>Facts\<close>

text \<open>The state a start ends in, however it ends.\<close>

definition end_state :: "('e, 'a) started \<Rightarrow> 'e startup" where
  "end_state r = (case r of Inl (f, s) \<Rightarrow> s | Inr (x, s) \<Rightarrow> s)"

lemma end_state_simps [simp]:
  "end_state (Inl (f, s)) = s" "end_state (Inr (y, s)) = s"
  "su_etcd (end_state (panics g s)) = su_etcd s" "end_state (exits n g s) = s"
  "su_etcd (performs x s) = su_etcd s" "su_etcd (defers x s) = su_etcd s"
  by (simp_all add: end_state_def panics_def exits_def performs_def defers_def)

lemma bind_etcd:
  assumes "su_etcd (end_state r) = e"
    and "\<And>x s. r = Inr (x, s) \<Longrightarrow> su_etcd s = e \<Longrightarrow> su_etcd (end_state (f (x, s))) = e"
  shows "su_etcd (end_state (bind_result r f)) = e"
  using assms by (cases r) (auto simp: end_state_def)

lemma panics_Inr [simp]: "panics f s \<noteq> Inr x" and exits_Inr [simp]: "exits n f s \<noteq> Inr x"
  by (simp_all add: panics_def exits_def)

lemma open_mysql_etcd: "su_etcd (end_state (open_mysql_pools env specs h pools s)) = su_etcd s"
  by (induction env specs h pools s rule: open_mysql_pools.induct) (simp_all add: Let_def del: fun_upd_apply)

lemma open_redis_etcd: "su_etcd (end_state (open_redis_pools env specs h pools s)) = su_etcd s"
  by (induction env specs h pools s rule: open_redis_pools.induct) (simp_all add: Let_def del: fun_upd_apply)

lemma connect_etcd_etcd: "su_etcd (end_state (connect_etcd env c s)) = su_etcd s"
  by (simp add: connect_etcd_def split: option.split)

lemma load_router_etcd: "su_etcd (end_state (load_router env mp rp s)) = su_etcd s"
  by (simp add: load_router_def split: sum.split)

lemmas stores_etcd = open_mysql_etcd open_redis_etcd connect_etcd_etcd load_router_etcd

lemma open_stores_etcd: "su_etcd (end_state (open_stores env c s)) = su_etcd s"
  unfolding open_stores_def
  by (auto split: option.split intro!: bind_etcd simp: stores_etcd)

lemma start_base_etcd: "su_etcd (end_state (start_base env lf suf e)) = e"
  unfolding start_base_def Let_def
  by (auto split: sum.split intro!: bind_etcd simp: open_stores_etcd)

text \<open>The router a start ends with is a valid one.\<close>

lemma load_router_valid: "load_router env mp rp s = Inr (r, s') \<Longrightarrow> valid_router r"
  by (auto simp: load_router_def newRouter_Inr split: sum.splits)

lemma open_stores_valid: "open_stores env c s = Inr (r, s') \<Longrightarrow> valid_router r"
  by (auto simp: open_stores_def dest: load_router_valid split: option.splits)

lemma start_base_valid: "start_base env lf suf e = Inr ((c, r), s) \<Longrightarrow> valid_router r"
  by (auto simp: start_base_def Let_def dest: open_stores_valid split: sum.splits if_splits)

text \<open>What a registration leaves in the cluster.\<close>

lemma registerService_kv:
  assumes "etcd_contract ops kv" and "registerService ops name addr e = (err, e')"
  shows "err = None \<Longrightarrow> kv e' = (kv e)(registration_key name addr \<mapsto> print_json (endpoint_data addr))"
    and "err = Some x \<Longrightarrow> kv e' = kv e \<or>
      (\<exists>y. x = Put_failed y \<or> x = Keepalive_failed y) \<and>
      kv e' = (kv e)(registration_key name addr \<mapsto> print_json (endpoint_data addr))"
proof -
  have grant: "kv e1 = kv e0" if "eo_grant ops ttl e0 = (r, e1)" for ttl e0 r e1
    using assms(1) that unfolding etcd_contract_def by blast
  have put: "kv e1 = (kv e0)(k \<mapsto> v) \<or> x \<noteq> None \<and> kv e1 = kv e0" if "eo_put ops k v l e0 = (x, e1)" for k v l e0 x e1
    using assms(1) that unfolding etcd_contract_def by blast
  have keep: "kv e1 = kv e0" if "eo_keepAlive ops l e0 = (x, e1)" for l e0 x e1
    using assms(1) that unfolding etcd_contract_def by blast
  show "kv e' = (kv e)(registration_key name addr \<mapsto> print_json (endpoint_data addr))" if "err = None"
    using assms(2) that
    by (auto simp: registerService_def split: sum.splits prod.splits option.splits simp del: fun_upd_apply
        dest!: grant put keep)
  show "kv e' = kv e \<or> (\<exists>y. x = Put_failed y \<or> x = Keepalive_failed y) \<and>
      kv e' = (kv e)(registration_key name addr \<mapsto> print_json (endpoint_data addr))" if "err = Some x"
    using assms(2) that
    by (auto simp: registerService_def split: sum.splits prod.splits option.splits simp del: fun_upd_apply
        dest!: grant put keep)
qed

definition published :: "('e \<Rightarrow> string \<Rightarrow> string option) \<Rightarrow> string \<Rightarrow> string \<Rightarrow> 'e \<Rightarrow> 'e \<Rightarrow> bool" where
  "published kv name addr e e' \<longleftrightarrow>
     kv e' = (kv e)(registration_key name addr \<mapsto> print_json (endpoint_data addr))"

lemma serve_and_register_ok:
  assumes "etcd_contract (st_etcd env) kv" and "serve_and_register env c name port s = Inr (addr, s')"
  shows "\<exists>host. addr = host @ CHR '':'' # show_int port \<and> host \<noteq> [] \<and> published kv name addr (su_etcd s) (su_etcd s') \<and>
    su_effects s' = su_effects s @ [Listening port, Serving, Registered name addr] \<and> st_listen env port"
  using assms(2)
  by (auto simp: serve_and_register_def advertise_host_def register_address_def published_def performs_def
      split: if_splits prod.splits option.splits dest!: registerService_kv(1)[OF assms(1) _ refl])

lemma serve_and_register_failed:
  assumes "etcd_contract (st_etcd env) kv" and "serve_and_register env c name port s = Inl (f, s')"
  shows "kv (su_etcd s') = kv (su_etcd s) \<or>
    (\<exists>x. f = Panics (Registration_failed (Put_failed x)) \<or> f = Panics (Registration_failed (Keepalive_failed x))) \<and>
    (\<exists>addr. published kv name addr (su_etcd s) (su_etcd s'))"
  using assms(2)
  by (auto simp: serve_and_register_def advertise_host_def register_address_def performs_def panics_def exits_def
      published_def split: if_splits prod.splits option.splits simp del: fun_upd_apply
      dest!: registerService_kv(2)[OF assms(1) _ refl])

lemma user_main_ok:
  assumes "user_main env e = Inr (p, s)"
  obtains c r s0 where "start_base env ''user-service.log'' ''-user-service'' e = Inr ((c, r), s0)"
    "serve_and_register env c ''kd48/user-service'' (usc_port (cf_user_service c)) s0 = Inr (up_addr p, s)"
    "up_router p = r" "valid_router r" "up_ttl p = token_ttl c" "su_etcd s0 = e"
proof -
  obtain c r s0 where b: "start_base env ''user-service.log'' ''-user-service'' e = Inr ((c, r), s0)"
    "serve_and_register env c ''kd48/user-service'' (usc_port (cf_user_service c)) s0 = Inr (up_addr p, s)"
    "up_router p = r" "up_ttl p = token_ttl c"
    using assms by (auto simp: user_main_def)
  then show ?thesis using that start_base_valid[OF b(1)] start_base_etcd[of env "''user-service.log''" "''-user-service''" e]
    by simp
qed

lemma endpoint_reads_back:
  "json_parse (print_json (endpoint_data addr)) =
     Some (JObj [(''Addr'', JStr (coerce_utf8 addr)), (''Metadata'', JObj [])])"
  by (simp add: endpoint_data_def json_parse_print_json del: print_json.simps)

text \<open>No pool of a valid router is nil, so no call of the user service panics.\<close>

lemma valid_resolves:
  assumes "valid_router r"
  shows "resolveDB r key = Inr (h, n) \<Longrightarrow> h \<noteq> None" and "resolveRedis r key = Inr (h, n) \<Longrightarrow> h \<noteq> None"
  using assms mysql_side.resolved_handle[of r key h n] redis_side.resolved_handle[of r key h n]
  by (auto simp: valid_router_def)

lemma issue_no_panic:
  assumes "valid_router (us_router us)"
  shows "fst (issueSessionAtomic us env uid name w) \<noteq> Panicked"
  using valid_resolves(2)[OF assms]
  by (auto simp: issueSessionAtomic_def internal_def Let_def split: option.splits sum.splits prod.splits)

lemma login_no_panic:
  assumes "valid_router (us_router us)"
  shows "fst (user_login us env req w) \<noteq> Panicked"
proof -
  have issue: "issueSessionAtomic us env uid name w \<noteq> (Panicked, w')" for uid name w w'
    using issue_no_panic[OF assms, of env uid name w] by auto
  have publish: "publishSessionInvalidate us env uid w \<noteq> None" for uid w
    using valid_resolves(2)[OF assms] by (auto simp: publishSessionInvalidate_def split: sum.splits prod.splits option.splits)
  have db: "getQueries us key \<noteq> Inr None" for key
    using valid_resolves(1)[OF assms] by (auto simp: getQueries_def split: sum.splits prod.splits)
  show ?thesis
    unfolding user_login_def
    by (auto simp: route_failure_def bad_credentials_def internal_def issue publish db
        split: sum.split option.split db_error.split prod.split rpc_outcome.split)
qed

lemma register_no_panic:
  assumes "valid_router (us_router us)"
  shows "fst (user_register us env req w) \<noteq> Panicked"
proof -
  have issue: "issueSessionAtomic us env uid name w \<noteq> (Panicked, w')" for uid name w w'
    using issue_no_panic[OF assms, of env uid name w] by auto
  have db: "getQueries us key \<noteq> Inr None" for key
    using valid_resolves(1)[OF assms] by (auto simp: getQueries_def split: sum.splits prod.splits)
  show ?thesis
    unfolding user_register_def
    by (auto simp: Let_def route_failure_def internal_def issue db
        split: sum.split option.split db_error.split prod.split rpc_outcome.split)
qed

text \<open>With a lifetime below one second no session can be issued.\<close>

lemma issue_without_lifetime:
  assumes "redis_contract (us_redisOps us) en" and "us_tokenTTL us \<le> 0"
  shows "fst (issueSessionAtomic us env uid name w) \<noteq> Replied x"
proof -
  have "\<exists>err. snd (eval_login (us_redisOps us) fault now (user_key uid) (session_key token) (us_tokenTTL us)
      (session_value uid name) token r) = Inl err" for fault now token r
    using login_script_raises[OF assms, of now uid token "session_value uid name" r]
    by (cases fault) (auto simp: eval_login_def)
  then show ?thesis
    by (auto simp: issueSessionAtomic_def internal_def Let_def split: option.splits sum.splits prod.splits)
       (metis snd_conv sum.distinct(1))
qed

lemma login_without_lifetime:
  assumes "redis_contract (us_redisOps us) en" and "us_tokenTTL us \<le> 0"
  shows "fst (user_login us env req w) \<noteq> Replied x"
proof -
  have issue: "issueSessionAtomic us env uid name w \<noteq> (Replied y, w')" for uid name w y w'
    using issue_without_lifetime[OF assms, of env uid name w y] by auto
  show ?thesis
    unfolding user_login_def
    by (auto simp: route_failure_def bad_credentials_def internal_def issue
        split: sum.split option.split db_error.split prod.split rpc_outcome.split)
qed

lemma register_without_lifetime:
  assumes "redis_contract (us_redisOps us) en" and "us_tokenTTL us \<le> 0"
  shows "fst (user_register us env req w) \<noteq> Replied x"
proof -
  have issue: "issueSessionAtomic us env uid name w \<noteq> (Replied y, w')" for uid name w y w'
    using issue_without_lifetime[OF assms, of env uid name w y] by auto
  show ?thesis
    unfolding user_register_def
    by (auto simp: Let_def route_failure_def internal_def issue
        split: sum.split option.split db_error.split prod.split rpc_outcome.split)
qed

lemma start_base_conf:
  "start_base env lf suf e = Inr ((c, r), s) \<Longrightarrow> conf_load (st_read_in env) (st_unmarshal env) ''./config.yaml'' = Inr c"
  by (auto simp: start_base_def Let_def split: sum.splits if_splits)

text \<open>With a valid router no load of the lobby's configurations meets a nil pool.\<close>

lemma load_no_panic:
  assumes "valid_router (cl_router l)"
  shows "load_logged l now dbs name cs \<noteq> None"
proof -
  have "loadOne l now dbs name cs \<noteq> Load_panic"
    using valid_resolves(1)[OF assms]
    by (auto simp: loadOne_def parseAndUpdate_def split: sum.splits prod.splits option.splits)
  then show ?thesis by (auto simp: load_logged_def split: load_outcome.splits)
qed

lemma loadAll_no_panic:
  assumes "valid_router (cl_router l)"
  shows "loadAll l now dbs cs \<noteq> None"
proof -
  have "load_names l now dbs ns cs \<noteq> None" for ns
  proof (induction ns arbitrary: cs)
    case (Cons n ns)
    then show ?case using load_no_panic[OF assms, of now dbs n cs] by auto
  qed simp
  then show ?thesis by (simp add: loadAll_def)
qed

lemma watch_no_panic:
  assumes "valid_router (cl_router l)"
  shows "config_watch_loop l evs cs \<noteq> None"
  using assms
proof (induction l evs cs rule: config_watch_loop.induct)
  case (4 l now dbs p evs cs)
  have "notify_message l now dbs p cs \<noteq> None"
    using load_no_panic[OF "4.prems"] by (auto simp: notify_message_def split: option.split)
  then show ?case using "4.IH"[OF _ "4.prems"] by auto
qed simp_all

lemma mysql_no_nil: "open_mysql_pools env specs h pools s \<noteq> Inl (Panics Nil_pool_used, s')"
  by (induction env specs h pools s rule: open_mysql_pools.induct) (simp_all add: Let_def panics_def del: fun_upd_apply)

lemma redis_no_nil: "open_redis_pools env specs h pools s \<noteq> Inl (Panics Nil_pool_used, s')"
  by (induction env specs h pools s rule: open_redis_pools.induct) (simp_all add: Let_def panics_def del: fun_upd_apply)

lemma bind_Inl: "bind_result r f = Inl x \<longleftrightarrow> r = Inl x \<or> (\<exists>y. r = Inr y \<and> f y = Inl x)"
  by (cases r) auto

lemma start_no_nil: "start_base env lf suf e \<noteq> Inl (Panics Nil_pool_used, s)"
proof -
  have "connect_etcd env c s \<noteq> Inl (Panics Nil_pool_used, s')" for c s s'
    by (simp add: connect_etcd_def panics_def split: option.split)
  moreover have "load_router env mp rp s \<noteq> Inl (Panics Nil_pool_used, s')" for mp rp s s'
    by (simp add: load_router_def panics_def exits_def split: sum.split)
  ultimately have "open_stores env c s \<noteq> Inl (Panics Nil_pool_used, s')" for c s s'
    by (auto simp: open_stores_def bind_Inl mysql_no_nil redis_no_nil toDSRouteConfig_def)
  then show ?thesis by (auto simp: start_base_def Let_def bind_Inl panics_def split: sum.split)
qed

lemma register_no_nil: "serve_and_register env c name port s \<noteq> Inl (Panics Nil_pool_used, s')"
  by (auto simp: serve_and_register_def advertise_host_def register_address_def panics_def exits_def bind_Inl
      split: if_splits prod.splits option.splits)

section \<open>Properties\<close>


text \<open>
  C25. A user service that has started never panics: its router was accepted for the pools it
  opened, so whatever a login or a registration is asked and whatever fails on the way, the
  answer is a reply or an error (until a reload replaces the rules, which nothing checks).
\<close>

theorem started_user_service_never_panics:
  assumes "user_main env e = Inr (p, s)"
  shows "fst (user_login (newUserService (up_router p) (up_ttl p) rops dops bops) ce req w) \<noteq> Panicked \<and>
    fst (user_register (newUserService (up_router p) (up_ttl p) rops dops bops) ce req w) \<noteq> Panicked"
proof -
  have "valid_router (up_router p)" using assms by (rule user_main_ok) simp
  then have v: "valid_router (us_router (newUserService (up_router p) (up_ttl p) rops dops bops))"
    by (simp add: newUserService_def)
  show ?thesis using login_no_panic[OF v] register_no_panic[OF v] by blast
qed

lemma watched_router:
  assumes "List.map_filter (watch_one l) ps = cfgs @ [c]"
  shows "watch_router l ps r = updateRoutes (rc_mysql_routes c) (rc_redis_routes c) r"
  by (simp add: watch_router_last assms)

text \<open>
  C29. A reload decides whether logins survive: nothing checks the rules a watch brings in.
  When they are rules a start would have accepted, a login never panics; when they send the
  key of a user name to a pool that the started service has not opened, every login under
  that name panics on a nil database, whatever the password.
\<close>

theorem reload_can_crash_logins:
  assumes "user_main env e = Inr (p, s)" and "List.map_filter (watch_one l) ps = cfgs @ [c]"
    and "us = newUserService (watch_router l ps (up_router p)) (up_ttl p) rops dops bops"
  shows "(pools_cover (mysqlPools (up_router p)) (rc_mysql_routes c) \<and>
      pools_cover (redisPools (up_router p)) (rc_redis_routes c) \<and>
      distinct (map rr_prefix (rc_mysql_routes c)) \<and> distinct (map rr_prefix (rc_redis_routes c)) \<longrightarrow>
      fst (user_login us ce req w) \<noteq> Panicked) \<and>
    (\<forall>m. is_lpm (rc_mysql_routes c) (''sys:user:'' @ lq_username req) m \<and>
      mysqlPools (up_router p) (rr_pool m) = None \<longrightarrow> user_login us ce req w = (Panicked, w))"
proof -
  have v: "valid_router (up_router p)" using assms(1) by (rule user_main_ok) simp
  have us: "us_router us = updateRoutes (rc_mysql_routes c) (rc_redis_routes c) (up_router p)"
    by (simp add: assms(3) newUserService_def watched_router[OF assms(2)])
  have "resolveDB (us_router us) key = Inr (None, rr_pool m)"
    if "is_lpm (rc_mysql_routes c) key m" "mysqlPools (up_router p) (rr_pool m) = None" for key m
    using reload_unknown_pool_resolves_nil[OF v assms(2) that] by (simp add: us watched_router[OF assms(2)])
  then show ?thesis
    using updateRoutes_valid[OF v] login_no_panic[of us]
    by (auto simp: us user_login_def getQueries_def)
qed

lemma seeded_rules_loaded:
  assumes "etcd_contract ops kv" and "seed_main ops codec flag e = (0, e')"
    and "\<forall>k. \<exists>vs. eo_get ops k e' = Inr vs"
  shows "etcd_loader ops e' = Inr \<lparr>rc_mysql_routes = seed_rules, rc_redis_routes = seed_rules\<rparr>"
proof -
  obtain t l r where "kv e' = (kv e)(''kd48/meta/service-types/user'' \<mapsto> t, ''kd48/meta/gateway-routes/login'' \<mapsto> l,
       ''kd48/meta/gateway-routes/register'' \<mapsto> r, ''kd48/routing/mysql_routes'' \<mapsto> marshal_rules seed_rules,
       ''kd48/routing/redis_routes'' \<mapsto> marshal_rules seed_rules)"
    using seeded_keys[OF assms(1,2)] by blast
  then have "kv e' ''kd48/routing/mysql_routes'' = Some (marshal_rules seed_rules)"
    "kv e' ''kd48/routing/redis_routes'' = Some (marshal_rules seed_rules)"
    by simp_all
  then show ?thesis using etcd_loader_reads[OF assms(1) seed_rules_utf8 seed_rules_utf8] assms(3) by blast
qed

lemma seeded_router:
  assumes "newRouter [''default'' \<mapsto> h] [''default'' \<mapsto> g] seed_rules seed_rules = Inr r"
  shows "resolveDB r key = Inr (Some h, ''default'')" and "resolveRedis r key = Inr (Some g, ''default'')"
  using assms mysql_side.only_catch_all[of r _ key] redis_side.only_catch_all[of r _ key]
  by (simp_all add: newRouter_Inr seed_rules_def)

lemma seeded_router_ok:
  "newRouter [''default'' \<mapsto> h] [''default'' \<mapsto> g] seed_rules seed_rules =
     Inr \<lparr>mysqlPools = [''default'' \<mapsto> h], redisPools = [''default'' \<mapsto> g],
          mysqlRoutes = seed_rules, redisRoutes = seed_rules\<rparr>"
  by (simp add: newRouter_Inr valid_router_def pools_cover_def seed_rules_def)

text \<open>What a service needs of the outside to come up on a configuration without data sources.\<close>

definition services_up :: "('v, 'e) start_env \<Rightarrow> config \<Rightarrow> 'e \<Rightarrow> bool" where
  "services_up env c e \<longleftrightarrow>
     (\<forall>name. st_tracer env name) \<and>
     st_mysql_order env = [''default''] \<and> st_redis_order env = [''default''] \<and>
     st_sql_open env (mc_dsn (cf_mysql c)) \<and> st_mysql_ping env (mc_dsn (cf_mysql c)) \<and>
     (\<forall>opts. rop_addr opts = rdc_addr (cf_redis c) \<longrightarrow> st_redis_ping env opts) \<and>
     eo_connect (st_etcd env) (ec_endpoints (cf_etcd c)) \<and>
     (\<forall>k. \<exists>vs. eo_get (st_etcd env) k e = Inr vs) \<and>
     (\<forall>name addr. fst (registerService (st_etcd env) name addr e) = None) \<and>
     (\<forall>port. st_listen env port) \<and>
     (st_advertise env \<noteq> [] \<or> sc_env (cf_server c) = ''dev'')"

definition outside_up :: "('v, 'e) start_env \<Rightarrow> config \<Rightarrow> 'e \<Rightarrow> bool" where
  "outside_up env c e \<longleftrightarrow>
     conf_load (st_read_in env) (st_unmarshal env) ''./config.yaml'' = Inr c \<and> services_up env c e"

lemma open_stores_seeded:
  assumes "outside_up env c e" and "cf_data_sources c = None" and "su_etcd s = e"
    and "etcd_loader (st_etcd env) e = Inr \<lparr>rc_mysql_routes = seed_rules, rc_redis_routes = seed_rules\<rparr>"
  shows "\<exists>s'. su_etcd s' = e \<and> open_stores env c s =
    Inr (\<lparr>mysqlPools = [''default'' \<mapsto> 0], redisPools = [''default'' \<mapsto> 0],
          mysqlRoutes = seed_rules, redisRoutes = seed_rules\<rparr>, s')"
proof -
  obtain vs where vs: "eo_get (st_etcd env) ''health'' e = Inr vs" using assms(1) unfolding outside_up_def services_up_def by blast
  have cl: "fst (registry_newClient (st_etcd env) (ec_endpoints (cf_etcd c)) e) = None"
    using assms(1) vs by (simp add: outside_up_def services_up_def registry_newClient_def)
  show ?thesis
    using assms(1-4) cl seeded_router_ok[of "0::nat" "0::nat"]
    by (auto simp: open_stores_def toDSRouteConfig_def getDataSourcesOrSynthesize_def pool_entries_def
        List.map_filter_simps to_mysql_spec_def to_redis_spec_def redis_client_options_def outside_up_def services_up_def Let_def
        connect_etcd_def load_router_def)
qed

lemma seeded_start:
  assumes "etcd_contract (st_etcd env) kv" and "seed_main (st_etcd env) codec flag e0 = (0, e)"
    and "outside_up env c e" and "cf_data_sources c = None"
  shows "\<exists>p s. user_main env e = Inr (p, s) \<and>
    (\<forall>key. resolveDB (up_router p) key = Inr (Some 0, ''default'') \<and>
           resolveRedis (up_router p) key = Inr (Some 0, ''default'')) \<and>
    mysqlPools (up_router p) = [''default'' \<mapsto> 0] \<and> up_ttl p = token_ttl c"
proof -
  have gets: "\<forall>k. \<exists>vs. eo_get (st_etcd env) k e = Inr vs" using assms(3) by (simp add: outside_up_def services_up_def)
  let ?r = "\<lparr>mysqlPools = [''default'' \<mapsto> 0 :: nat], redisPools = [''default'' \<mapsto> 0 :: nat],
    mysqlRoutes = seed_rules, redisRoutes = seed_rules\<rparr>"
  let ?s = "defers Tracing_shut_down (performs (Tracing (sc_name (cf_server c) @ ''-user-service''))
    (performs (Logging_to (lc_level (cf_log c)) (lc_file_path (cf_log c)) ''user-service.log'')
      \<lparr>su_effects = [], su_deferred = [], su_etcd = e\<rparr>))"
  obtain s1 where s1: "su_etcd s1 = e" "open_stores env c ?s = Inr (?r, s1)"
    using open_stores_seeded[OF assms(3,4) _ seeded_rules_loaded[OF assms(1,2) gets], of ?s] by auto
  then have b: "start_base env ''user-service.log'' ''-user-service'' e = Inr ((c, ?r), s1)"
    using assms(3) by (simp add: start_base_def outside_up_def services_up_def Let_def)
  have reg: "fst (registerService (st_etcd env) name addr e) = None" for name addr
    using assms(3) by (simp add: outside_up_def services_up_def)
  have "\<exists>addr s. serve_and_register env c ''kd48/user-service'' (usc_port (cf_user_service c)) s1 = Inr (addr, s)"
    using assms(3) reg s1(1)
    by (auto simp: serve_and_register_def outside_up_def services_up_def advertise_host_def register_address_def performs_def
        split: prod.split option.split) (metis fst_conv option.distinct(1))+
  then obtain addr s where sr: "serve_and_register env c ''kd48/user-service'' (usc_port (cf_user_service c)) s1 = Inr (addr, s)"
    by blast
  have "user_main env e = Inr (\<lparr>up_router = ?r, up_ttl = token_ttl c, up_addr = addr\<rparr>, s)"
    by (simp add: user_main_def b sr)
  moreover have "resolveDB ?r key = Inr (Some 0, ''default'')" "resolveRedis ?r key = Inr (Some 0, ''default'')" for key
    by (rule seeded_router[OF seeded_router_ok])+
  ultimately show ?thesis by auto
qed

text \<open>
  C19. On a seeded cluster a service whose configuration names no data sources comes up, if
  only the outside is there, and sends every routing key, on both sides, to the one pool it
  opened: the seed, the configuration's default and the loader agree on the key, the format
  and the name of the pool.
\<close>

theorem seeded_service_comes_up:
  assumes "etcd_contract (st_etcd env) kv" and "seed_main (st_etcd env) codec flag e0 = (0, e)"
    and "outside_up env c e" and "cf_data_sources c = None"
  shows "\<exists>p s. user_main env e = Inr (p, s) \<and>
    (\<forall>key. resolveDB (up_router p) key = Inr (Some 0, ''default'') \<and>
           resolveRedis (up_router p) key = Inr (Some 0, ''default''))"
  using seeded_start[OF assms] by blast

text \<open>
  C36. A configuration file without a session lifetime is not refused: on a seeded cluster,
  if only the outside is there, the user service comes up and registers, and then answers
  no login and no registration with success, because Redis rejects the time to live.
\<close>

theorem missing_lifetime_refuses_logins:
  assumes "etcd_contract (st_etcd env) kv" and "seed_main (st_etcd env) codec flag e0 = (0, e)"
    and "st_read_in env ''./config.yaml'' = Inr v" and "st_unmarshal env v = Inr c"
    and "services_up env (fill_prefixes c) e" and "cf_data_sources c = None"
    and "ssc_expire_hours (cf_session c) = 0" and "redis_contract rops en"
  shows "\<exists>p s. user_main env e = Inr (p, s) \<and> Registered ''kd48/user-service'' (up_addr p) \<in> set (su_effects s) \<and>
    (\<forall>(dops :: 'd db_ops) bops ce req w rep.
       fst (user_login (newUserService (up_router p) (up_ttl p) rops dops bops) ce req w) \<noteq> Replied rep \<and>
       fst (user_register (newUserService (up_router p) (up_ttl p) rops dops bops) ce req w) \<noteq> Replied rep)"
proof -
  have "conf_load (st_read_in env) (st_unmarshal env) ''./config.yaml'' = Inr (fill_prefixes c)"
    by (simp add: conf_load_def assms(3,4))
  then have up: "outside_up env (fill_prefixes c) e" using assms(5) by (simp add: outside_up_def)
  have "cf_data_sources (fill_prefixes c) = None" using assms(6) by (simp add: fill_prefixes_def)
  then obtain p s where ps: "user_main env e = Inr (p, s)" "up_ttl p = token_ttl (fill_prefixes c)"
    using seeded_start[OF assms(1,2) up] by blast
  have "Registered ''kd48/user-service'' (up_addr p) \<in> set (su_effects s)"
    by (rule user_main_ok[OF ps(1)]) (auto dest!: serve_and_register_ok[OF assms(1)])
  moreover have "us_tokenTTL (newUserService (up_router p) (up_ttl p) rops dops bops) \<le> 0" for dops :: "'d db_ops" and bops
    using assms(7) by (simp add: newUserService_def ps(2) token_ttl_def ttl_seconds_def fill_prefixes_def)
  moreover have "redis_contract (us_redisOps (newUserService (up_router p) (up_ttl p) rops dops bops)) en" for dops :: "'d db_ops" and bops
    using assms(8) by (simp add: newUserService_def)
  ultimately show ?thesis using ps(1) login_without_lifetime register_without_lifetime by blast
qed

text \<open>
  The lobby neither dies of a nil pool while it loads its configurations at the start,
  nor afterwards in its watcher, whatever is registered, whatever the databases answer and
  whatever arrives on the channel.
\<close>

theorem lobby_survives_loading:
  "case lobby_main env dat e of
     Inl (f, s) \<Rightarrow> f \<noteq> Panics Nil_pool_used
   | Inr (p, s) \<Rightarrow> config_watcher_start (lp_watcher p) subscribed evs (lp_store p) \<noteq> None"
proof (cases "start_base env ''lobby-service.log'' ''-lobby-service'' e")
  case (Inl f)
  then show ?thesis using start_no_nil[of env "''lobby-service.log''" "''-lobby-service''" e]
    by (auto simp: lobby_main_def split: prod.split)
next
  case (Inr x)
  obtain c r s where x: "x = ((c, r), s)" by (metis prod.exhaust)
  let ?l = "lobby_loader r dat"
  have v: "valid_router (cl_router ?l)" using start_base_valid Inr unfolding x by (simp add: lobby_loader_def)
  obtain cs where cs: "loadAll ?l (ld_now dat) (ld_dbs dat) (ld_store dat) = Some cs"
    using loadAll_no_panic[OF v] by blast
  let ?s = "performs (Config_updates_watched ''lobby:config-notify'') (performs Configs_loaded s)"
  show ?thesis
    using watch_no_panic[OF v, of evs cs] watcher_cases[of "newConfigWatcher r ''lobby:config-notify'' ?l configNotifyChannel" subscribed evs cs] register_no_nil[of env c "''kd48/lobby-service''" "lobby_port c" ?s]
    by (cases "serve_and_register env c ''kd48/lobby-service'' (lobby_port c) ?s")
       (auto simp: lobby_main_def lobby_serve_def newConfigWatcher_def Inr x cs Let_def split: prod.split)
qed

section \<open>A cluster and a process\<close>

definition demo_file :: config where
  "demo_file =
     demo_config\<lparr>cf_server := \<lparr>sc_name = ''kd48'', sc_env = ''dev''\<rparr>, cf_user_service := \<lparr>usc_port = 9000\<rparr>,
                 cf_session := \<lparr>ssc_expire_hours = 0\<rparr>\<rparr>"

definition start_config :: config where
  "start_config = fill_prefixes demo_file"

definition demo_start :: "(unit, (string \<times> string) list) start_env" where
  "demo_start =
     \<lparr>st_read_in = (\<lambda>path. Inr ()),
      st_unmarshal = (\<lambda>v. Inr demo_file),
      st_tracer = (\<lambda>name. True), st_mysql_order = [''default''], st_redis_order = [''default''],
      st_sql_open = (\<lambda>dsn. True), st_mysql_ping = (\<lambda>dsn. True), st_redis_ping = (\<lambda>opts. True),
      st_etcd = demo_etcd, st_listen = (\<lambda>port. True), st_advertise = []\<rparr>"

lemma demo_start_simps:
  "st_etcd demo_start = demo_etcd"
  "conf_load (st_read_in demo_start) (st_unmarshal demo_start) ''./config.yaml'' = Inr start_config"
  by (simp_all add: demo_start_def conf_load_def start_config_def)

lemma demo_up: "outside_up demo_start start_config e"
  by (simp add: outside_up_def services_up_def demo_start_simps)
     (simp add: demo_start_def start_config_def demo_file_def demo_etcd_def registerService_def fill_prefixes_def)

lemma start_config_facts: "cf_data_sources start_config = None" "ssc_expire_hours (cf_session start_config) = 0"
  by (simp_all add: start_config_def demo_file_def fill_prefixes_def demo_config_def)

lemma demo_process:
  obtains p s where "user_main demo_start seeded = Inr (p, s)" "mysqlPools (up_router p) = [''default'' \<mapsto> 0]"
  using seeded_start[of demo_start map_of, unfolded demo_start_simps(1), OF demo_etcd_contract seeded_ok demo_up
      start_config_facts(1)]
  by blast


lemma started_user_service_never_panics_witness:
  "\<exists>p s. user_main demo_start seeded = Inr (p, s) \<and>
     (\<forall>(rops :: kv_store redis_ops) (dops :: user_table db_ops) bops ce req w.
        fst (user_login (newUserService (up_router p) (up_ttl p) rops dops bops) ce req w) \<noteq> Panicked)"
proof -
  obtain p s where ps: "user_main demo_start seeded = Inr (p, s)" by (rule demo_process)
  then show ?thesis using started_user_service_never_panics[OF ps] by blast
qed

lemma seeded_service_comes_up_witness:
  "\<exists>p s. user_main demo_start seeded = Inr (p, s) \<and>
    (\<forall>key. resolveDB (up_router p) key = Inr (Some 0, ''default'') \<and>
           resolveRedis (up_router p) key = Inr (Some 0, ''default''))"
  by (rule seeded_service_comes_up[of demo_start map_of, unfolded demo_start_simps(1), OF demo_etcd_contract seeded_ok
        demo_up start_config_facts(1)])

lemma missing_lifetime_refuses_logins_witness:
  "\<exists>p s. user_main demo_start seeded = Inr (p, s) \<and>
     (\<forall>(dops :: user_table db_ops) bops ce req w rep.
        fst (user_login (newUserService (up_router p) (up_ttl p) kv_ops dops bops) ce req w) \<noteq> Replied rep)"
proof -
  have c: "st_unmarshal demo_start () = Inr demo_file" "st_read_in demo_start ''./config.yaml'' = Inr ()"
    "fill_prefixes demo_file = start_config" "cf_data_sources demo_file = None" "ssc_expire_hours (cf_session demo_file) = 0"
    by (simp_all add: demo_start_def demo_file_def start_config_def demo_config_def)
  have "services_up demo_start (fill_prefixes demo_file) seeded"
    using demo_up[of seeded] by (simp add: outside_up_def c(3))
  then show ?thesis
    using missing_lifetime_refuses_logins[of demo_start map_of, unfolded demo_start_simps(1),
        OF demo_etcd_contract seeded_ok c(2,1) _ c(4,5) kv_contract] by blast
qed

lemma reload_can_crash_logins_witness:
  "\<exists>p s. user_main demo_start seeded = Inr (p, s) \<and>
     (\<forall>(rops :: kv_store redis_ops) (dops :: user_table db_ops) bops ce req w.
        user_login (newUserService (watch_router (newRouteLoader (Some 0) [])
            [(Dsroute_Loader.demo_etcd, WatchKeys [''kd48/routing/mysql_routes''])] (up_router p))
          (up_ttl p) rops dops bops) ce req w = (Panicked, w))"
proof -
  obtain p s where ps: "user_main demo_start seeded = Inr (p, s)" "mysqlPools (up_router p) = [''default'' \<mapsto> 0]"
    by (rule demo_process)
  have c: "List.map_filter (watch_one (newRouteLoader (Some 0) []))
      [(Dsroute_Loader.demo_etcd, WatchKeys [''kd48/routing/mysql_routes''])] =
    [] @ [\<lparr>rc_mysql_routes = [\<lparr>rr_prefix = [], rr_pool = ''gone''\<rparr>], rc_redis_routes = []\<rparr>]"
    using demo_reload by (simp add: List.map_filter_simps)
  have m: "is_lpm (rc_mysql_routes \<lparr>rc_mysql_routes = [\<lparr>rr_prefix = [], rr_pool = ''gone''\<rparr>], rc_redis_routes = []\<rparr>)
      key \<lparr>rr_prefix = [], rr_pool = ''gone''\<rparr>" for key
    by (simp add: is_lpm_def candidates_def first_longest_single)
  have "mysqlPools (up_router p) (rr_pool \<lparr>rr_prefix = [], rr_pool = ''gone''\<rparr>) = None" by (simp add: ps(2))
  then show ?thesis using reload_can_crash_logins[OF ps(1) c refl] m ps(1) by blast
qed

end
