(* ===== verification/Heartbeat.thy ===== *)
theory Heartbeat
  imports Go_Base
begin

text \<open>
  \<open>gateway/internal/ws/heartbeat.go\<close>: per-client heartbeat states and the timeout check.
  An instant is an \<^typ>\<open>int\<close>, nanoseconds since Go's zero time, so \<open>t.IsZero()\<close> is
  \<open>t = 0\<close>; every operation that reads the clock takes the instant it reads. A duration
  is a number of nanoseconds; \<open>time.Since\<close> saturates at the range of \<open>int64\<close>. The
  manager's own lock makes each operation atomic.
\<close>

section \<open>State\<close>

record heartbeat_config =
  hc_interval :: int
  hc_timeout :: int
  hc_max_missed :: int
  hc_idle_timeout :: int

record connection_state =
  last_ping :: int
  last_pong :: int
  last_activity :: int
  missed_count :: int
  is_alive :: bool

record heartbeat_manager =
  hm_config :: heartbeat_config
  hm_conns :: "string \<Rightarrow> connection_state option"

definition time_since :: "int \<Rightarrow> int \<Rightarrow> int" where
  "time_since now t = max (- (2 ^ 63)) (min (2 ^ 63 - 1) (now - t))"

section \<open>Operations\<close>

definition newHeartbeatManager :: "heartbeat_config \<Rightarrow> heartbeat_manager" where
  "newHeartbeatManager cfg = \<lparr>hm_config = cfg, hm_conns = Map.empty\<rparr>"

definition hb_recordPing :: "int \<Rightarrow> string \<Rightarrow> heartbeat_manager \<Rightarrow> heartbeat_manager" where
  "hb_recordPing now cid hm =
     hm\<lparr>hm_conns := (hm_conns hm)(cid \<mapsto>
       (case hm_conns hm cid of
          Some st \<Rightarrow> st\<lparr>last_ping := now, last_activity := now, missed_count := 0\<rparr>
        | None \<Rightarrow> \<lparr>last_ping = now, last_pong = 0, last_activity = now,
                   missed_count = 0, is_alive = True\<rparr>))\<rparr>"

definition hb_recordPong :: "int \<Rightarrow> string \<Rightarrow> heartbeat_manager \<Rightarrow> heartbeat_manager" where
  "hb_recordPong now cid hm =
     (case hm_conns hm cid of
        Some st \<Rightarrow> hm\<lparr>hm_conns := (hm_conns hm)(cid \<mapsto> st\<lparr>last_pong := now, missed_count := 0\<rparr>)\<rparr>
      | None \<Rightarrow> hm)"

definition hb_recordActivity :: "int \<Rightarrow> string \<Rightarrow> heartbeat_manager \<Rightarrow> heartbeat_manager" where
  "hb_recordActivity now cid hm =
     (case hm_conns hm cid of
        Some st \<Rightarrow> hm\<lparr>hm_conns := (hm_conns hm)(cid \<mapsto> st\<lparr>last_activity := now\<rparr>)\<rparr>
      | None \<Rightarrow> hm)"

text \<open>A copy of the state, \<open>None\<close> for nil.\<close>

definition hb_getState :: "heartbeat_manager \<Rightarrow> string \<Rightarrow> connection_state option" where
  "hb_getState hm cid = hm_conns hm cid"

text \<open>The instant the timeout counts from: the last pong, or the last ping before any pong.\<close>

definition check_time :: "connection_state \<Rightarrow> int" where
  "check_time st = (if last_pong st = 0 then last_ping st else last_pong st)"

definition hb_checkTimeout ::
  "int \<Rightarrow> string \<Rightarrow> heartbeat_manager \<Rightarrow> bool \<times> heartbeat_manager" where
  "hb_checkTimeout now cid hm =
     (case hm_conns hm cid of
        None \<Rightarrow> (False, hm)
      | Some st \<Rightarrow>
          if \<not> is_alive st then (False, hm)
          else if hc_timeout (hm_config hm) < time_since now (check_time st)
          then (let missed = missed_count st + 1
                in if hc_max_missed (hm_config hm) \<le> missed
                   then (True, hm\<lparr>hm_conns := (hm_conns hm)
                                (cid \<mapsto> st\<lparr>missed_count := missed, is_alive := False\<rparr>)\<rparr>)
                   else (False, hm\<lparr>hm_conns := (hm_conns hm)
                                (cid \<mapsto> st\<lparr>missed_count := missed\<rparr>)\<rparr>))
          else (False, hm))"

section \<open>Facts\<close>

lemma hb_config [simp]:
  "hm_config (hb_recordPing now cid hm) = hm_config hm"
  "hm_config (hb_recordPong now cid hm) = hm_config hm"
  "hm_config (hb_recordActivity now cid hm) = hm_config hm"
  "hm_config (snd (hb_checkTimeout now cid hm)) = hm_config hm"
  by (simp_all add: hb_recordPing_def hb_recordPong_def hb_recordActivity_def hb_checkTimeout_def
      Let_def split: option.split)

lemma hb_other [simp]:
  assumes "c \<noteq> cid"
  shows "hm_conns (hb_recordPing now cid hm) c = hm_conns hm c"
    and "hm_conns (hb_recordPong now cid hm) c = hm_conns hm c"
    and "hm_conns (hb_recordActivity now cid hm) c = hm_conns hm c"
    and "hm_conns (snd (hb_checkTimeout now cid hm)) c = hm_conns hm c"
  using assms
  by (auto simp: hb_recordPing_def hb_recordPong_def hb_recordActivity_def hb_checkTimeout_def
      Let_def split: option.split)

lemma hb_dom [simp]:
  "dom (hm_conns (hb_recordPing now cid hm)) = insert cid (dom (hm_conns hm))"
  "dom (hm_conns (hb_recordPong now cid hm)) = dom (hm_conns hm)"
  "dom (hm_conns (hb_recordActivity now cid hm)) = dom (hm_conns hm)"
  "dom (hm_conns (snd (hb_checkTimeout now cid hm))) = dom (hm_conns hm)"
  by (auto simp: hb_recordPing_def hb_recordPong_def hb_recordActivity_def hb_checkTimeout_def
      Let_def split: option.splits if_splits)

lemma hb_recordPing_same:
  "hm_conns (hb_recordPing now cid hm) cid = Some
     (case hm_conns hm cid of
        Some st \<Rightarrow> st\<lparr>last_ping := now, last_activity := now, missed_count := 0\<rparr>
      | None \<Rightarrow> \<lparr>last_ping = now, last_pong = 0, last_activity = now,
                 missed_count = 0, is_alive = True\<rparr>)"
  by (simp add: hb_recordPing_def)

lemma hb_recordPong_same:
  "hm_conns (hb_recordPong now cid hm) cid =
     map_option (\<lambda>st. st\<lparr>last_pong := now, missed_count := 0\<rparr>) (hm_conns hm cid)"
  by (simp add: hb_recordPong_def split: option.split)

lemma hb_recordActivity_same:
  "hm_conns (hb_recordActivity now cid hm) cid =
     map_option (\<lambda>st. st\<lparr>last_activity := now\<rparr>) (hm_conns hm cid)"
  by (simp add: hb_recordActivity_def split: option.split)

text \<open>The check of one state: the verdict and the state afterwards.\<close>

definition overdue :: "heartbeat_config \<Rightarrow> int \<Rightarrow> connection_state \<Rightarrow> bool" where
  "overdue cfg now st \<longleftrightarrow> is_alive st \<and> hc_timeout cfg < time_since now (check_time st)"

definition checked :: "heartbeat_config \<Rightarrow> int \<Rightarrow> connection_state \<Rightarrow> connection_state" where
  "checked cfg now st =
     (if overdue cfg now st
      then st\<lparr>missed_count := missed_count st + 1,
              is_alive := (missed_count st + 1 < hc_max_missed cfg)\<rparr>
      else st)"

definition expires :: "heartbeat_config \<Rightarrow> int \<Rightarrow> connection_state \<Rightarrow> bool" where
  "expires cfg now st \<longleftrightarrow> overdue cfg now st \<and> hc_max_missed cfg \<le> missed_count st + 1"

lemma hb_checkTimeout_verdict:
  "fst (hb_checkTimeout now cid hm) \<longleftrightarrow>
     (\<exists>st. hm_conns hm cid = Some st \<and> expires (hm_config hm) now st)"
  by (auto simp: hb_checkTimeout_def expires_def overdue_def Let_def split: option.splits if_splits)

lemma hb_checkTimeout_same:
  "hm_conns (snd (hb_checkTimeout now cid hm)) cid =
     map_option (checked (hm_config hm) now) (hm_conns hm cid)"
  by (cases "hm_conns hm cid")
     (simp_all add: hb_checkTimeout_def checked_def overdue_def Let_def)

text \<open>A state that was declared dead stays dead: nothing sets \<open>is_alive\<close> again.\<close>

lemma hb_dead_stays_dead:
  assumes "hm_conns hm cid = Some st" and "\<not> is_alive st"
  shows "\<exists>st'. hm_conns (hb_recordPing now c hm) cid = Some st' \<and> \<not> is_alive st'"
    and "\<exists>st'. hm_conns (hb_recordPong now c hm) cid = Some st' \<and> \<not> is_alive st'"
    and "\<exists>st'. hm_conns (hb_recordActivity now c hm) cid = Some st' \<and> \<not> is_alive st'"
    and "\<exists>st'. hm_conns (snd (hb_checkTimeout now c hm)) cid = Some st' \<and> \<not> is_alive st'"
  using assms
  by (cases "c = cid";
      simp add: hb_recordPing_same hb_recordPong_same hb_recordActivity_same hb_checkTimeout_same
        checked_def overdue_def)+

end
