(* ===== verification/Connection_Manager.thy ===== *)
theory Connection_Manager
  imports Heartbeat "HOL-Library.Multiset"
begin

text \<open>
  \<open>gateway/internal/ws/connection_manager.go\<close>: the registry of the gateway's WebSocket
  connections. A connection is the handle of an open socket (\<open>None\<close> is a nil pointer).
  What an operation does to sockets is returned as the list of its socket actions, in
  order; the errors of the writes are only logged by the code, so an action has no result.
  Every operation holds \<open>connMu\<close> for its whole effect on the state and is one step. A map
  iteration takes the order in which Go happens to visit the keys as an argument, and a
  sweep takes, for every client visited, the two instants the code reads the clock at.
  The counters are \<open>int64\<close> in the code; no run of fewer than \<open>2 ^ 63\<close> steps wraps them.
\<close>

section \<open>State\<close>

record connection_metrics =
  total_connections :: int
  active_connections :: int
  disconnected_count :: int
  heartbeat_failures :: int

record connection_manager =
  cm_heartbeat :: heartbeat_manager
  cm_conns :: "string \<Rightarrow> nat option option"
  cm_users :: "int \<Rightarrow> string option"
  cm_stopped :: bool
  cm_metrics :: connection_metrics

datatype ws_action =
    Write_text nat string
  | Write_close nat nat string
  | Pause_ms nat
  | Close_conn nat

definition newConnectionManager :: "heartbeat_config \<Rightarrow> connection_manager" where
  "newConnectionManager cfg =
     \<lparr>cm_heartbeat = newHeartbeatManager cfg, cm_conns = Map.empty, cm_users = Map.empty,
      cm_stopped = False,
      cm_metrics = \<lparr>total_connections = 0, active_connections = 0,
                    disconnected_count = 0, heartbeat_failures = 0\<rparr>\<rparr>"

section \<open>Operations\<close>

definition getMetrics :: "connection_manager \<Rightarrow> connection_metrics" where
  "getMetrics cm = cm_metrics cm"

definition registerConnection ::
  "int \<Rightarrow> string \<Rightarrow> nat option \<Rightarrow> connection_manager \<Rightarrow> bool \<times> connection_manager" where
  "registerConnection now cid conn cm =
     (case cm_conns cm cid of
        Some _ \<Rightarrow> (False, cm)
      | None \<Rightarrow>
          (True, cm\<lparr>cm_conns := (cm_conns cm)(cid \<mapsto> conn),
                    cm_metrics := (cm_metrics cm)
                      \<lparr>total_connections := total_connections (cm_metrics cm) + 1,
                       active_connections := active_connections (cm_metrics cm) + 1\<rparr>,
                    cm_heartbeat := hb_recordPing now cid (cm_heartbeat cm)\<rparr>))"

text \<open>\<open>ActiveConnections--\<close>, then back to zero if it went below.\<close>

definition drop_active :: "connection_metrics \<Rightarrow> connection_metrics" where
  "drop_active m =
     (let a = active_connections m - 1
      in m\<lparr>active_connections := (if a < 0 then 0 else a)\<rparr>)"

definition count_disconnect :: "connection_metrics \<Rightarrow> connection_metrics" where
  "count_disconnect m = m\<lparr>disconnected_count := disconnected_count m + 1\<rparr>"

text \<open>
  The loop over \<open>userConnections\<close> deletes the first entry it meets for the client and
  breaks; \<open>order\<close> lists the users in the order of the iteration.
\<close>

definition unregisterConnection ::
  "int list \<Rightarrow> string \<Rightarrow> connection_manager \<Rightarrow> connection_manager" where
  "unregisterConnection order cid cm =
     (case cm_conns cm cid of
        None \<Rightarrow> cm
      | Some _ \<Rightarrow>
          cm\<lparr>cm_conns := (cm_conns cm)(cid := None),
             cm_metrics := drop_active (cm_metrics cm),
             cm_users := (case find (\<lambda>uid. cm_users cm uid = Some cid) order of
                            Some uid \<Rightarrow> (cm_users cm)(uid := None)
                          | None \<Rightarrow> cm_users cm)\<rparr>)"

definition disconnectClientUnlocked ::
  "string \<Rightarrow> nat option \<Rightarrow> string \<Rightarrow> connection_manager
     \<Rightarrow> connection_manager \<times> ws_action list" where
  "disconnectClientUnlocked cid conn reason cm =
     (cm\<lparr>cm_conns := (cm_conns cm)(cid := None),
         cm_metrics := count_disconnect (drop_active (cm_metrics cm))\<rparr>,
      (case conn of
         Some h \<Rightarrow> [Write_close h 1000 reason, Close_conn h]
       | None \<Rightarrow> []))"

text \<open>One client of the sweep: heartbeat first, the idle check only if that did not expire.\<close>

type_synonym visit = "string \<times> int \<times> int"

definition idle_expired :: "heartbeat_config \<Rightarrow> int \<Rightarrow> connection_state \<Rightarrow> bool" where
  "idle_expired cfg now st \<longleftrightarrow>
     0 < hc_idle_timeout cfg \<and> last_activity st \<noteq> 0 \<and>
     hc_idle_timeout cfg < time_since now (last_activity st)"

fun sweep_classify ::
  "visit list \<Rightarrow> heartbeat_manager \<Rightarrow> heartbeat_manager \<times> string list \<times> string list" where
  "sweep_classify [] hm = (hm, [], [])"
| "sweep_classify ((cid, t1, t2) # vs) hm =
     (let (expired, hm') = hb_checkTimeout t1 cid hm;
          idle = (\<not> expired \<and>
                  (case hb_getState hm' cid of
                     Some st \<Rightarrow> idle_expired (hm_config hm') t2 st
                   | None \<Rightarrow> False));
          (hm'', hbs, idles) = sweep_classify vs hm'
      in (hm'', if expired then cid # hbs else hbs, if idle then cid # idles else idles))"

definition count_failure :: "connection_manager \<Rightarrow> connection_manager" where
  "count_failure cm = cm\<lparr>cm_metrics := (cm_metrics cm)
     \<lparr>heartbeat_failures := heartbeat_failures (cm_metrics cm) + 1\<rparr>\<rparr>"

fun disconnect_listed ::
  "bool \<Rightarrow> string \<Rightarrow> string list \<Rightarrow> connection_manager
     \<Rightarrow> connection_manager \<times> ws_action list" where
  "disconnect_listed failure reason [] cm = (cm, [])"
| "disconnect_listed failure reason (cid # cids) cm =
     (case cm_conns cm cid of
        None \<Rightarrow> disconnect_listed failure reason cids cm
      | Some conn \<Rightarrow>
          (let (cm1, acts) = disconnectClientUnlocked cid conn reason cm;
               cm2 = (if failure then count_failure cm1 else cm1);
               (cm3, acts') = disconnect_listed failure reason cids cm2
           in (cm3, acts @ acts')))"

definition checkAllConnections ::
  "visit list \<Rightarrow> connection_manager \<Rightarrow> connection_manager \<times> ws_action list" where
  "checkAllConnections visits cm =
     (let (hm, hbs, idles) = sweep_classify visits (cm_heartbeat cm);
          cm0 = cm\<lparr>cm_heartbeat := hm\<rparr>;
          (cm1, acts1) = disconnect_listed True ''heartbeat timeout'' hbs cm0;
          (cm2, acts2) = disconnect_listed False ''idle timeout'' idles cm1
      in (cm2, acts1 @ acts2))"

text \<open>One turn of the loop of \<open>Start\<close>: whether it returns, and the effect of the turn.\<close>

datatype loop_event = Context_done | Stop_received | Tick "visit list"

fun start_turn ::
  "loop_event \<Rightarrow> connection_manager \<Rightarrow> bool \<times> connection_manager \<times> ws_action list" where
  "start_turn Context_done cm = (True, cm, [])"
| "start_turn Stop_received cm = (True, cm, [])"
| "start_turn (Tick visits) cm = (False, checkAllConnections visits cm)"

definition cm_stop :: "connection_manager \<Rightarrow> connection_manager" where
  "cm_stop cm = (if cm_stopped cm then cm else cm\<lparr>cm_stopped := True\<rparr>)"

definition getConnection :: "connection_manager \<Rightarrow> string \<Rightarrow> nat option option" where
  "getConnection cm cid = cm_conns cm cid"

definition cm_recordPing :: "int \<Rightarrow> string \<Rightarrow> connection_manager \<Rightarrow> connection_manager" where
  "cm_recordPing now cid cm = cm\<lparr>cm_heartbeat := hb_recordPing now cid (cm_heartbeat cm)\<rparr>"

definition cm_recordPong :: "int \<Rightarrow> string \<Rightarrow> connection_manager \<Rightarrow> connection_manager" where
  "cm_recordPong now cid cm = cm\<lparr>cm_heartbeat := hb_recordPong now cid (cm_heartbeat cm)\<rparr>"

definition cm_recordActivity :: "int \<Rightarrow> string \<Rightarrow> connection_manager \<Rightarrow> connection_manager" where
  "cm_recordActivity now cid cm =
     cm\<lparr>cm_heartbeat := hb_recordActivity now cid (cm_heartbeat cm)\<rparr>"

definition getHeartbeatState :: "connection_manager \<Rightarrow> string \<Rightarrow> connection_state option" where
  "getHeartbeatState cm cid = hb_getState (cm_heartbeat cm) cid"

definition getActiveConnectionCount :: "connection_manager \<Rightarrow> nat" where
  "getActiveConnectionCount cm = card (dom (cm_conns cm))"

definition registerUserConnection ::
  "int \<Rightarrow> string \<Rightarrow> connection_manager \<Rightarrow> connection_manager" where
  "registerUserConnection uid cid cm = cm\<lparr>cm_users := (cm_users cm)(uid \<mapsto> cid)\<rparr>"

definition getUserClientID :: "connection_manager \<Rightarrow> int \<Rightarrow> string option" where
  "getUserClientID cm uid = cm_users cm uid"

definition kick_msg :: string where
  "kick_msg = ''{\"method\":\"session_kicked\",\"code\":1008,\"msg\":\"session replaced\"}''"

definition disconnectByUserID ::
  "int \<Rightarrow> string \<Rightarrow> connection_manager \<Rightarrow> connection_manager \<times> ws_action list" where
  "disconnectByUserID uid reason cm =
     (case cm_users cm uid of
        None \<Rightarrow> (cm, [])
      | Some cid \<Rightarrow>
          (let cm' = cm\<lparr>cm_conns := (cm_conns cm)(cid := None),
                        cm_users := (cm_users cm)(uid := None),
                        cm_metrics := drop_active (count_disconnect (cm_metrics cm))\<rparr>
           in case cm_conns cm cid of
                Some (Some h) \<Rightarrow>
                  (cm', [Write_text h kick_msg, Pause_ms 100, Write_close h 1008 reason,
                         Close_conn h])
              | _ \<Rightarrow> (cm', [])))"

section \<open>Steps\<close>

text \<open>
  The operations other goroutines perform on the manager, interleaved in any order. A map
  iteration visits every key of the map once.
\<close>

datatype cm_event =
    Ev_register int string "nat option"
  | Ev_unregister "int list" string
  | Ev_tick "visit list"
  | Ev_ping int string
  | Ev_pong int string
  | Ev_activity int string
  | Ev_login int string
  | Ev_kick int string
  | Ev_stop

fun cm_apply :: "cm_event \<Rightarrow> connection_manager \<Rightarrow> connection_manager \<times> ws_action list" where
  "cm_apply (Ev_register now cid conn) cm = (snd (registerConnection now cid conn cm), [])"
| "cm_apply (Ev_unregister order cid) cm = (unregisterConnection order cid cm, [])"
| "cm_apply (Ev_tick visits) cm = snd (start_turn (Tick visits) cm)"
| "cm_apply (Ev_ping now cid) cm = (cm_recordPing now cid cm, [])"
| "cm_apply (Ev_pong now cid) cm = (cm_recordPong now cid cm, [])"
| "cm_apply (Ev_activity now cid) cm = (cm_recordActivity now cid cm, [])"
| "cm_apply (Ev_login uid cid) cm = (registerUserConnection uid cid cm, [])"
| "cm_apply (Ev_kick uid reason) cm = disconnectByUserID uid reason cm"
| "cm_apply Ev_stop cm = (cm_stop cm, [])"

definition enumerates :: "'a list \<Rightarrow> ('a \<Rightarrow> 'b option) \<Rightarrow> bool" where
  "enumerates xs m \<longleftrightarrow> distinct xs \<and> set xs = dom m"

fun cm_enabled :: "cm_event \<Rightarrow> connection_manager \<Rightarrow> bool" where
  "cm_enabled (Ev_unregister order cid) cm = enumerates order (cm_users cm)"
| "cm_enabled (Ev_tick visits) cm = enumerates (map fst visits) (cm_conns cm)"
| "cm_enabled _ cm = True"

inductive cm_step :: "connection_manager \<Rightarrow> connection_manager \<Rightarrow> bool" where
  cm_step: "cm_enabled ev cm \<Longrightarrow> cm_step cm (fst (cm_apply ev cm))"

inductive_cases cm_stepE: "cm_step cm cm'"

fun cm_run :: "cm_event list \<Rightarrow> connection_manager \<Rightarrow> connection_manager \<times> ws_action list" where
  "cm_run [] cm = (cm, [])"
| "cm_run (ev # evs) cm =
     (let (cm1, acts1) = cm_apply ev cm; (cm2, acts2) = cm_run evs cm1
      in (cm2, acts1 @ acts2))"

fun cm_run_enabled :: "cm_event list \<Rightarrow> connection_manager \<Rightarrow> bool" where
  "cm_run_enabled [] cm = True"
| "cm_run_enabled (ev # evs) cm =
     (cm_enabled ev cm \<and> cm_run_enabled evs (fst (cm_apply ev cm)))"

lemma cm_run_steps:
  "cm_run_enabled evs cm \<Longrightarrow> cm_step\<^sup>*\<^sup>* cm (fst (cm_run evs cm))"
proof (induction evs arbitrary: cm)
  case Nil
  then show ?case by simp
next
  case (Cons ev evs)
  then have "cm_step cm (fst (cm_apply ev cm))" by (auto intro: cm_step)
  with Cons show ?case
    by (auto simp: split_beta Let_def intro: converse_rtranclp_into_rtranclp)
qed

definition manager_start :: "connection_manager \<Rightarrow> bool" where
  "manager_start cm \<longleftrightarrow> (\<exists>cfg. cm = newConnectionManager cfg)"

section \<open>The parts of a sweep\<close>

lemma drop_active_simps [simp]:
  "active_connections (drop_active m) = max 0 (active_connections m - 1)"
  "total_connections (drop_active m) = total_connections m"
  "disconnected_count (drop_active m) = disconnected_count m"
  "heartbeat_failures (drop_active m) = heartbeat_failures m"
  by (auto simp: drop_active_def Let_def)

lemma count_disconnect_simps [simp]:
  "active_connections (count_disconnect m) = active_connections m"
  "total_connections (count_disconnect m) = total_connections m"
  "disconnected_count (count_disconnect m) = disconnected_count m + 1"
  "heartbeat_failures (count_disconnect m) = heartbeat_failures m"
  by (auto simp: count_disconnect_def)

lemma count_failure_simps [simp]:
  "cm_conns (count_failure cm) = cm_conns cm"
  "cm_users (count_failure cm) = cm_users cm"
  "cm_heartbeat (count_failure cm) = cm_heartbeat cm"
  "cm_stopped (count_failure cm) = cm_stopped cm"
  "active_connections (cm_metrics (count_failure cm)) = active_connections (cm_metrics cm)"
  "total_connections (cm_metrics (count_failure cm)) = total_connections (cm_metrics cm)"
  "disconnected_count (cm_metrics (count_failure cm)) = disconnected_count (cm_metrics cm)"
  "heartbeat_failures (cm_metrics (count_failure cm)) = heartbeat_failures (cm_metrics cm) + 1"
  by (simp_all add: count_failure_def)

text \<open>The verdicts of the two checks, read off the state before the sweep.\<close>

definition hb_expired :: "heartbeat_manager \<Rightarrow> visit \<Rightarrow> bool" where
  "hb_expired hm v =
     (case v of (cid, t1, t2) \<Rightarrow>
        (case hm_conns hm cid of
           Some st \<Rightarrow> expires (hm_config hm) t1 st
         | None \<Rightarrow> False))"

definition idle_only :: "heartbeat_manager \<Rightarrow> visit \<Rightarrow> bool" where
  "idle_only hm v =
     (\<not> hb_expired hm v \<and>
      (case v of (cid, t1, t2) \<Rightarrow>
        (case hm_conns hm cid of
           Some st \<Rightarrow> 0 < hc_idle_timeout (hm_config hm) \<and> last_activity st \<noteq> 0 \<and>
             hc_idle_timeout (hm_config hm) < time_since t2 (last_activity st)
         | None \<Rightarrow> False)))"

lemma checked_last_activity [simp]: "last_activity (checked cfg t st) = last_activity st"
  by (simp add: checked_def)

lemma sweep_cong:
  assumes "hm_config hm' = hm_config hm" and "hm_conns hm' (fst v) = hm_conns hm (fst v)"
  shows "hb_expired hm' v = hb_expired hm v" and "idle_only hm' v = idle_only hm v"
  using assms by (simp_all add: hb_expired_def idle_only_def split_beta split: option.split)

lemma filter_hb_cong:
  assumes "hm_config hm' = hm_config hm"
    and "\<And>v. v \<in> set vs \<Longrightarrow> hm_conns hm' (fst v) = hm_conns hm (fst v)"
  shows "filter (hb_expired hm') vs = filter (hb_expired hm) vs"
    and "filter (idle_only hm') vs = filter (idle_only hm) vs"
  by (rule filter_cong, simp, rule sweep_cong[OF assms(1)], simp add: assms(2),
      rule filter_cong, simp, rule sweep_cong[OF assms(1)], simp add: assms(2))

lemma sweep_classify_lists:
  assumes "distinct (map fst vs)"
  shows "snd (sweep_classify vs hm) =
           (map fst (filter (hb_expired hm) vs), map fst (filter (idle_only hm) vs))"
  using assms
proof (induction vs arbitrary: hm)
  case Nil
  then show ?case by simp
next
  case (Cons v vs)
  obtain cid t1 t2 where v: "v = (cid, t1, t2)" by (cases v) auto
  define hm' where "hm' = snd (hb_checkTimeout t1 cid hm)"
  have other: "hm_conns hm' (fst w) = hm_conns hm (fst w)" if "w \<in> set vs" for w
    using Cons.prems that by (auto simp: v hm'_def image_iff intro!: hb_other)
  have cfg: "hm_config hm' = hm_config hm" by (simp add: hm'_def)
  have IH: "snd (sweep_classify vs hm') =
      (map fst (filter (hb_expired hm) vs), map fst (filter (idle_only hm) vs))"
    using Cons.IH[of hm'] Cons.prems filter_hb_cong[OF cfg other] by simp
  have fst_v: "fst (hb_checkTimeout t1 cid hm) = hb_expired hm v"
    by (auto simp: hb_checkTimeout_verdict hb_expired_def v split: option.split)
  have idle: "(\<not> hb_expired hm v \<and> (case hb_getState hm' cid of
        Some st \<Rightarrow> idle_expired (hm_config hm') t2 st | None \<Rightarrow> False)) = idle_only hm v"
    by (auto simp: idle_only_def v hb_getState_def hm'_def hb_checkTimeout_same idle_expired_def
        split: option.split)
  show ?case
    using IH fst_v idle
    by (simp add: v split_beta Let_def flip: hm'_def)
qed

lemma sweep_classify_Cons:
  "fst (sweep_classify (v # vs) hm) =
     fst (sweep_classify vs (snd (hb_checkTimeout (fst (snd v)) (fst v) hm)))"
  by (cases v) (simp add: split_beta Let_def)

lemma sweep_classify_state:
  assumes "distinct (map fst vs)"
  shows "hm_config (fst (sweep_classify vs hm)) = hm_config hm"
    and "dom (hm_conns (fst (sweep_classify vs hm))) = dom (hm_conns hm)"
    and "hm_conns (fst (sweep_classify vs hm)) cid =
           (case map_of vs cid of
              Some (t1, t2) \<Rightarrow> map_option (checked (hm_config hm) t1) (hm_conns hm cid)
            | None \<Rightarrow> hm_conns hm cid)"
proof -
  show "hm_config (fst (sweep_classify vs hm)) = hm_config hm"
    by (induction vs arbitrary: hm) (simp_all add: sweep_classify_Cons del: sweep_classify.simps(2))
  show "dom (hm_conns (fst (sweep_classify vs hm))) = dom (hm_conns hm)"
    by (induction vs arbitrary: hm) (simp_all add: sweep_classify_Cons del: sweep_classify.simps(2))
  show "hm_conns (fst (sweep_classify vs hm)) cid =
           (case map_of vs cid of
              Some (t1, t2) \<Rightarrow> map_option (checked (hm_config hm) t1) (hm_conns hm cid)
            | None \<Rightarrow> hm_conns hm cid)"
    using assms
  proof (induction vs arbitrary: hm)
    case Nil
    then show ?case by simp
  next
    case (Cons v vs)
    obtain c t1 t2 where v: "v = (c, t1, t2)" by (cases v) auto
    have none: "map_of vs c = None" using Cons.prems by (simp add: v map_of_eq_None_iff)
    have step: "fst (sweep_classify (v # vs) hm) =
        fst (sweep_classify vs (snd (hb_checkTimeout t1 c hm)))"
      by (simp add: v sweep_classify_Cons del: sweep_classify.simps(2))
    have "distinct (map fst vs)" using Cons.prems by simp
    note IH = Cons.IH[OF this, of "snd (hb_checkTimeout t1 c hm)"]
    show ?case
    proof (cases "cid = c")
      case True
      then show ?thesis
        using IH none unfolding step by (simp add: v hb_checkTimeout_same)
    next
      case False
      then show ?thesis using IH unfolding step by (simp add: v split: option.split)
    qed
  qed
qed

definition closing :: "(string \<Rightarrow> nat option option) \<Rightarrow> string \<Rightarrow> string list \<Rightarrow> ws_action list" where
  "closing conns reason cids =
     concat (map (\<lambda>cid. case conns cid of
                          Some (Some h) \<Rightarrow> [Write_close h 1000 reason, Close_conn h]
                        | _ \<Rightarrow> []) cids)"


lemma closing_Cons: "closing conns reason (cid # cids) = closing conns reason [cid] @ closing conns reason cids"
  by (simp add: closing_def)

lemma closing_cong:
  assumes "\<forall>cid \<in> set cids. conns' cid = conns cid"
  shows "closing conns' reason cids = closing conns reason cids"
  using assms unfolding closing_def by (intro arg_cong[where f = concat] map_cong) auto

text \<open>The metrics after some disconnections.\<close>

definition dropped :: "bool \<Rightarrow> nat \<Rightarrow> connection_metrics \<Rightarrow> connection_metrics" where
  "dropped failure n m =
     m\<lparr>active_connections := max 0 (active_connections m - int n),
       disconnected_count := disconnected_count m + int n,
       heartbeat_failures := heartbeat_failures m + (if failure then int n else 0)\<rparr>"

lemma dropped_simps [simp]:
  "0 \<le> active_connections m \<Longrightarrow> dropped failure 0 m = m"
  "dropped failure n (dropped failure 1 m) = dropped failure (Suc n) m"
  "active_connections (dropped failure n m) = max 0 (active_connections m - int n)"
  "disconnected_count (dropped failure n m) = disconnected_count m + int n"
  "heartbeat_failures (dropped failure n m) = heartbeat_failures m + (if failure then int n else 0)"
  "total_connections (dropped failure n m) = total_connections m"
  by (simp_all add: dropped_def)

lemma disconnect_listed_step:
  fixes failure :: bool
  assumes "cm_conns cm cid = Some conn"
  defines "cm1 \<equiv> cm\<lparr>cm_conns := (cm_conns cm)(cid := None), cm_metrics := dropped failure 1 (cm_metrics cm)\<rparr>"
  shows "disconnect_listed failure reason (cid # cids) cm =
    (fst (disconnect_listed failure reason cids cm1),
     closing (cm_conns cm) reason [cid] @ snd (disconnect_listed failure reason cids cm1))"
proof -
  let ?cm = "fst (disconnectClientUnlocked cid conn reason cm)"
  have "(if failure then count_failure ?cm else ?cm) = cm1"
    by (simp add: cm1_def dropped_def disconnectClientUnlocked_def count_failure_def drop_active_def
        count_disconnect_def Let_def)
  moreover have "snd (disconnectClientUnlocked cid conn reason cm) = closing (cm_conns cm) reason [cid]"
    using assms(1) by (simp add: disconnectClientUnlocked_def closing_def split: option.split)
  ultimately show ?thesis using assms(1) by (simp add: split_beta Let_def)
qed

lemma disconnect_listed_eq:
  assumes "distinct cids" and "set cids \<subseteq> dom (cm_conns cm)" and "0 \<le> active_connections (cm_metrics cm)"
  shows "disconnect_listed failure reason cids cm =
    (cm\<lparr>cm_conns := cm_conns cm |` (- set cids), cm_metrics := dropped failure (length cids) (cm_metrics cm)\<rparr>,
     closing (cm_conns cm) reason cids)"
  using assms
proof (induction cids arbitrary: cm)
  case Nil
  then show ?case by (simp add: closing_def restrict_map_def)
next
  case (Cons cid cids)
  let ?cm = "cm\<lparr>cm_conns := (cm_conns cm)(cid := None), cm_metrics := dropped failure 1 (cm_metrics cm)\<rparr>"
  obtain conn where conn: "cm_conns cm cid = Some conn" using Cons.prems(2) by auto
  have IH: "disconnect_listed failure reason cids ?cm =
      (?cm\<lparr>cm_conns := cm_conns ?cm |` (- set cids), cm_metrics := dropped failure (length cids) (cm_metrics ?cm)\<rparr>,
       closing (cm_conns ?cm) reason cids)"
    by (rule Cons.IH) (use Cons.prems in auto)
  have "cm_conns ?cm |` (- set cids) = cm_conns cm |` (- set (cid # cids))" by (auto simp: restrict_map_def)
  moreover have "closing (cm_conns ?cm) reason cids = closing (cm_conns cm) reason cids"
    using Cons.prems(1) by (intro closing_cong) auto
  ultimately show ?case
    unfolding disconnect_listed_step[OF conn] IH closing_Cons[of _ _ cid cids] by (simp del: dropped_simps(1))
qed

text \<open>What a sweep does, read off the state it starts in.\<close>

definition swept :: "connection_manager \<Rightarrow> visit list \<Rightarrow> string set" where
  "swept cm visits =
     set (map fst (filter (\<lambda>v. hb_expired (cm_heartbeat cm) v \<or> idle_only (cm_heartbeat cm) v)
       visits))"

lemma expired_not_idle:
  assumes "distinct (map fst visits)" and "x \<in> fst ` set (filter (idle_only hm) visits)"
  shows "x \<notin> fst ` set (filter (hb_expired hm) visits)"
proof
  assume "x \<in> fst ` set (filter (hb_expired hm) visits)"
  then obtain v w where "x = fst v" "x = fst w" "v \<in> set visits" "w \<in> set visits" "hb_expired hm v" "idle_only hm w"
    using assms(2) by auto
  moreover from this have "v = w" using assms(1) by (auto simp: distinct_map dest: inj_onD)
  ultimately show False by (simp add: idle_only_def)
qed

lemma checkAll_eq:
  assumes enum: "enumerates (map fst visits) (cm_conns cm)"
    and active: "0 \<le> active_connections (cm_metrics cm)"
  defines "hbs \<equiv> map fst (filter (hb_expired (cm_heartbeat cm)) visits)"
    and "idles \<equiv> map fst (filter (idle_only (cm_heartbeat cm)) visits)"
  shows "checkAllConnections visits cm =
    (cm\<lparr>cm_heartbeat := fst (sweep_classify visits (cm_heartbeat cm)), cm_conns := cm_conns cm |` (- swept cm visits),
        cm_metrics := dropped False (length idles) (dropped True (length hbs) (cm_metrics cm))\<rparr>,
     closing (cm_conns cm) ''heartbeat timeout'' hbs @ closing (cm_conns cm) ''idle timeout'' idles)"
proof -
  have dist: "distinct (map fst visits)" and dom: "fst ` set visits = dom (cm_conns cm)"
    using enum by (auto simp: enumerates_def)
  then have lists: "distinct hbs" "distinct idles" "set hbs \<subseteq> dom (cm_conns cm)" "set idles \<subseteq> dom (cm_conns cm)"
    by (auto simp: hbs_def idles_def distinct_map_filter)
  have apart: "set idles \<inter> set hbs = {}"
    using expired_not_idle[OF dist] by (auto simp: hbs_def idles_def)
  define cm0 where "cm0 = cm\<lparr>cm_heartbeat := fst (sweep_classify visits (cm_heartbeat cm))\<rparr>"
  define cm1 where "cm1 = cm0\<lparr>cm_conns := cm_conns cm0 |` (- set hbs), cm_metrics := dropped True (length hbs) (cm_metrics cm0)\<rparr>"
  have "disconnect_listed True ''heartbeat timeout'' hbs cm0 = (cm1, closing (cm_conns cm0) ''heartbeat timeout'' hbs)"
    unfolding cm1_def by (rule disconnect_listed_eq) (use lists active in \<open>simp_all add: cm0_def\<close>)
  moreover have "disconnect_listed False ''idle timeout'' idles cm1 =
      (cm1\<lparr>cm_conns := cm_conns cm1 |` (- set idles), cm_metrics := dropped False (length idles) (cm_metrics cm1)\<rparr>,
       closing (cm_conns cm1) ''idle timeout'' idles)"
    by (rule disconnect_listed_eq) (use lists apart in \<open>auto simp: cm1_def cm0_def\<close>)
  moreover have "closing (cm_conns cm1) ''idle timeout'' idles = closing (cm_conns cm) ''idle timeout'' idles"
    using apart by (intro closing_cong) (auto simp: cm1_def cm0_def restrict_map_def)
  moreover have "swept cm visits = set hbs \<union> set idles" by (auto simp: swept_def hbs_def idles_def)
  ultimately show ?thesis
    using sweep_classify_lists[OF dist, of "cm_heartbeat cm", folded hbs_def idles_def]
    by (simp add: checkAllConnections_def split_beta Let_def flip: cm0_def) (simp add: cm1_def cm0_def Compl_Un)
qed

lemma checkAll_spec:
  assumes "enumerates (map fst visits) (cm_conns cm)" and "0 \<le> active_connections (cm_metrics cm)"
  defines "hbs \<equiv> filter (hb_expired (cm_heartbeat cm)) visits"
    and "idles \<equiv> filter (idle_only (cm_heartbeat cm)) visits"
    and "r \<equiv> checkAllConnections visits cm"
  shows "cm_conns (fst r) = cm_conns cm |` (- swept cm visits)"
    and "snd r = closing (cm_conns cm) ''heartbeat timeout'' (map fst hbs) @
                 closing (cm_conns cm) ''idle timeout'' (map fst idles)"
    and "active_connections (cm_metrics (fst r)) =
           max 0 (active_connections (cm_metrics cm) - int (length hbs + length idles))"
    and "disconnected_count (cm_metrics (fst r)) =
           disconnected_count (cm_metrics cm) + int (length hbs + length idles)"
    and "heartbeat_failures (cm_metrics (fst r)) =
           heartbeat_failures (cm_metrics cm) + int (length hbs)"
    and "total_connections (cm_metrics (fst r)) = total_connections (cm_metrics cm)"
    and "cm_users (fst r) = cm_users cm"
    and "cm_heartbeat (fst r) = fst (sweep_classify visits (cm_heartbeat cm))"
    and "cm_stopped (fst r) = cm_stopped cm"
  by (simp_all add: r_def checkAll_eq[OF assms(1,2)] hbs_def idles_def)

section \<open>The invariant of the manager\<close>

text \<open>
  The maps are finite, every open connection has a heartbeat state, the active counter is
  between zero and the number of open connections, and the other counters are consistent.
\<close>

definition counters_ok :: "connection_manager \<Rightarrow> bool" where
  "counters_ok cm \<longleftrightarrow>
     0 \<le> active_connections (cm_metrics cm) \<and>
     active_connections (cm_metrics cm) \<le> int (card (dom (cm_conns cm))) \<and>
     int (card (dom (cm_conns cm))) \<le> total_connections (cm_metrics cm) \<and>
     0 \<le> heartbeat_failures (cm_metrics cm) \<and>
     heartbeat_failures (cm_metrics cm) \<le> disconnected_count (cm_metrics cm)"

definition cm_inv :: "connection_manager \<Rightarrow> bool" where
  "cm_inv cm \<longleftrightarrow>
     finite (dom (cm_conns cm)) \<and> finite (dom (cm_users cm)) \<and>
     dom (cm_conns cm) \<subseteq> dom (hm_conns (cm_heartbeat cm)) \<and> counters_ok cm"

lemmas cm_inv_defs = cm_inv_def counters_ok_def

lemma card_remove_bounds:
  assumes "finite (dom m)"
  shows "int (card (dom (m(k := None)))) \<le> int (card (dom m))"
    and "int (card (dom m)) - 1 \<le> int (card (dom (m(k := None))))"
    and "m k = Some v \<Longrightarrow> int (card (dom (m(k := None)))) = int (card (dom m)) - 1"
proof -
  have *: "card (dom (m(k := None))) = (if k \<in> dom m then card (dom m) - 1 else card (dom m))"
    using assms by (simp add: dom_fun_upd)
  have "0 < card (dom m)" if "k \<in> dom m" using that assms by (auto simp: card_gt_0_iff)
  then show "int (card (dom (m(k := None)))) \<le> int (card (dom m))"
    and "int (card (dom m)) - 1 \<le> int (card (dom (m(k := None))))"
    and "m k = Some v \<Longrightarrow> int (card (dom (m(k := None)))) = int (card (dom m)) - 1"
    unfolding * by (auto simp: domIff)
qed

lemma cm_inv_start: "manager_start cm \<Longrightarrow> cm_inv cm"
  by (auto simp: manager_start_def newConnectionManager_def newHeartbeatManager_def cm_inv_defs)

lemma cm_inv_register [wf_intros]:
  assumes "cm_inv cm"
  shows "cm_inv (snd (registerConnection now cid conn cm))"
  using assms
  by (auto simp: registerConnection_def cm_inv_defs card_dom_insert domIff split: option.split)

lemma find_None_or_Some_dom:
  "case find (\<lambda>u. m u = Some c) order of Some u \<Rightarrow> m u = Some c | None \<Rightarrow> True"
  by (auto split: option.split simp: find_Some_iff)

lemma cm_inv_unregister [wf_intros]:
  assumes "cm_inv cm"
  shows "cm_inv (unregisterConnection order cid cm)"
proof (cases "cm_conns cm cid")
  case None
  with assms show ?thesis by (simp add: unregisterConnection_def)
next
  case (Some conn)
  have fin: "finite (dom (cm_conns cm))" using assms by (simp add: cm_inv_def)
  have card: "int (card (dom ((cm_conns cm)(cid := None)))) = int (card (dom (cm_conns cm))) - 1"
    using card_remove_bounds(3)[OF fin Some] .
  show ?thesis
    using assms Some card
    by (auto simp: unregisterConnection_def cm_inv_defs split: option.split)
qed

lemma cm_inv_kick [wf_intros]:
  assumes "cm_inv cm"
  shows "cm_inv (fst (disconnectByUserID uid reason cm))"
proof (cases "cm_users cm uid")
  case None
  with assms show ?thesis by (simp add: disconnectByUserID_def)
next
  case (Some cid)
  have fin: "finite (dom (cm_conns cm))" using assms by (simp add: cm_inv_def)
  have "cm_conns (fst (disconnectByUserID uid reason cm)) = (cm_conns cm)(cid := None)"
    "cm_users (fst (disconnectByUserID uid reason cm)) = (cm_users cm)(uid := None)"
    "cm_metrics (fst (disconnectByUserID uid reason cm)) =
       drop_active (count_disconnect (cm_metrics cm))"
    "cm_heartbeat (fst (disconnectByUserID uid reason cm)) = cm_heartbeat cm"
    using Some by (simp_all add: disconnectByUserID_def Let_def split: option.split)
  then show ?thesis
    using assms card_remove_bounds[OF fin, of cid] unfolding cm_inv_defs
    by (auto split: option.split)
qed

lemma swept_subset:
  assumes "enumerates (map fst visits) (cm_conns cm)"
  shows "swept cm visits \<subseteq> dom (cm_conns cm)"
  using assms by (auto simp: enumerates_def swept_def)

lemma card_swept:
  assumes "enumerates (map fst visits) (cm_conns cm)"
  shows "card (swept cm visits) =
    length (filter (hb_expired (cm_heartbeat cm)) visits) +
    length (filter (idle_only (cm_heartbeat cm)) visits)"
proof -
  let ?hm = "cm_heartbeat cm"
  have dist: "distinct (map fst visits)" using assms by (simp add: enumerates_def)
  let ?P = "\<lambda>v. hb_expired ?hm v \<or> idle_only ?hm v"
  have "swept cm visits = set (map fst (filter ?P visits))" by (auto simp: swept_def)
  then have "card (swept cm visits) = length (filter ?P visits)"
    using distinct_card[OF distinct_map_filter[OF dist, of ?P]] by (simp only: length_map)
  also have "\<dots> = length (filter (hb_expired ?hm) visits) + length (filter (idle_only ?hm) visits)"
    by (induction visits) (auto simp: idle_only_def)
  finally show ?thesis .
qed

lemma cm_inv_tick [wf_intros]:
  assumes inv: "cm_inv cm" and enum: "enumerates (map fst visits) (cm_conns cm)"
  shows "cm_inv (fst (checkAllConnections visits cm))"
proof -
  have a: "0 \<le> active_connections (cm_metrics cm)" using inv by (simp add: cm_inv_defs)
  note spec = checkAll_spec[OF enum a]
  have fin: "finite (dom (cm_conns cm))" using inv by (simp add: cm_inv_def)
  have dist: "distinct (map fst visits)" using enum by (simp add: enumerates_def)
  have dom: "dom (cm_conns (fst (checkAllConnections visits cm))) =
      dom (cm_conns cm) - swept cm visits"
    by (auto simp: spec(1))
  have "card (dom (cm_conns cm) - swept cm visits) = card (dom (cm_conns cm)) - card (swept cm visits)"
    using swept_subset[OF enum] fin by (simp add: card_Diff_subset finite_subset)
  moreover have "card (swept cm visits) \<le> card (dom (cm_conns cm))"
    using swept_subset[OF enum] fin by (rule card_mono[rotated])
  moreover note le = this
  ultimately have card: "int (card (dom (cm_conns (fst (checkAllConnections visits cm))))) =
      int (card (dom (cm_conns cm))) - int (card (swept cm visits))"
    unfolding dom by linarith
  have counters: "counters_ok (fst (checkAllConnections visits cm))"
    using inv unfolding cm_inv_defs card spec(3-6) card_swept[OF enum, symmetric]
    using le by (auto simp: card_swept[OF enum])
  have "finite (dom (cm_conns (fst (checkAllConnections visits cm))))"
    and "dom (cm_conns (fst (checkAllConnections visits cm))) \<subseteq>
      dom (hm_conns (cm_heartbeat (fst (checkAllConnections visits cm))))"
    using inv unfolding dom cm_inv_def spec(8) sweep_classify_state(2)[OF dist] by auto
  then show ?thesis
    using inv counters by (simp add: cm_inv_def spec(7))
qed

lemma cm_inv_records [wf_intros]:
  assumes "cm_inv cm"
  shows "cm_inv (cm_recordPing now cid cm)"
    and "cm_inv (cm_recordPong now cid cm)"
    and "cm_inv (cm_recordActivity now cid cm)"
    and "cm_inv (registerUserConnection uid cid cm)"
    and "cm_inv (cm_stop cm)"
  using assms
  by (auto simp: cm_inv_defs cm_recordPing_def cm_recordPong_def cm_recordActivity_def
      registerUserConnection_def cm_stop_def)

lemma cm_inv_apply:
  assumes "cm_inv cm" and "cm_enabled ev cm"
  shows "cm_inv (fst (cm_apply ev cm))"
  using assms by (cases ev) (auto intro: wf_intros)

interpretation cm: safe_system manager_start cm_step cm_inv
  by unfold_locales (auto intro: cm_inv_start cm_inv_apply elim: cm_stepE)

section \<open>Exactness of the active counter\<close>

text \<open>A kick is stale when the user is mapped to a client that is no longer connected.\<close>

fun stale_kick :: "cm_event \<Rightarrow> connection_manager \<Rightarrow> bool" where
  "stale_kick (Ev_kick uid reason) cm =
     (case cm_users cm uid of Some cid \<Rightarrow> cm_conns cm cid = None | None \<Rightarrow> False)"
| "stale_kick _ cm = False"

fun no_stale_kick :: "cm_event list \<Rightarrow> connection_manager \<Rightarrow> bool" where
  "no_stale_kick [] cm = True"
| "no_stale_kick (ev # evs) cm =
     (\<not> stale_kick ev cm \<and> no_stale_kick evs (fst (cm_apply ev cm)))"

definition exact_count :: "connection_manager \<Rightarrow> bool" where
  "exact_count cm \<longleftrightarrow>
     active_connections (getMetrics cm) = int (getActiveConnectionCount cm)"

lemmas exact_defs = exact_count_def getMetrics_def getActiveConnectionCount_def

lemma exact_register:
  assumes "cm_inv cm" and "exact_count cm"
  shows "exact_count (snd (registerConnection now cid conn cm))"
  using assms
  by (auto simp: registerConnection_def exact_defs cm_inv_def card_dom_insert domIff
      split: option.split)

lemma exact_unregister:
  assumes "cm_inv cm" and "exact_count cm"
  shows "exact_count (unregisterConnection order cid cm)"
proof (cases "cm_conns cm cid")
  case None
  with assms show ?thesis by (simp add: unregisterConnection_def)
next
  case (Some conn)
  have fin: "finite (dom (cm_conns cm))" using assms by (simp add: cm_inv_def)
  have "0 < card (dom (cm_conns cm))" using card_dom_pos[OF fin Some] .
  then show ?thesis
    using assms(2) Some card_remove_bounds(3)[OF fin Some]
    by (simp add: unregisterConnection_def exact_defs)
qed

lemma exact_kick:
  assumes "cm_inv cm" and "exact_count cm" and "\<not> stale_kick (Ev_kick uid reason) cm"
  shows "exact_count (fst (disconnectByUserID uid reason cm))"
proof (cases "cm_users cm uid")
  case None
  with assms show ?thesis by (simp add: disconnectByUserID_def)
next
  case (Some cid)
  then obtain conn where conn: "cm_conns cm cid = Some conn" using assms(3) by auto
  have fin: "finite (dom (cm_conns cm))" using assms by (simp add: cm_inv_def)
  have "0 < card (dom (cm_conns cm))" using card_dom_pos[OF fin conn] .
  then show ?thesis
    using assms(2) Some conn card_remove_bounds(3)[OF fin conn]
    by (simp add: disconnectByUserID_def exact_defs Let_def split: option.split)
qed

lemma exact_tick:
  assumes inv: "cm_inv cm" and exact: "exact_count cm"
    and enum: "enumerates (map fst visits) (cm_conns cm)"
  shows "exact_count (fst (checkAllConnections visits cm))"
proof -
  have a: "0 \<le> active_connections (cm_metrics cm)" using inv by (simp add: cm_inv_defs)
  note spec = checkAll_spec[OF enum a]
  have fin: "finite (dom (cm_conns cm))" using inv by (simp add: cm_inv_def)
  have dom: "dom (cm_conns (fst (checkAllConnections visits cm))) =
      dom (cm_conns cm) - swept cm visits"
    by (auto simp: spec(1))
  have "card (swept cm visits) \<le> card (dom (cm_conns cm))"
    using swept_subset[OF enum] fin by (rule card_mono[rotated])
  moreover have "card (dom (cm_conns cm) - swept cm visits) =
      card (dom (cm_conns cm)) - card (swept cm visits)"
    using swept_subset[OF enum] fin by (simp add: card_Diff_subset finite_subset)
  ultimately show ?thesis
    using exact unfolding exact_defs dom spec(3) card_swept[OF enum, symmetric] by simp
qed

lemma exact_apply:
  assumes "cm_inv cm" and "exact_count cm" and "cm_enabled ev cm" and "\<not> stale_kick ev cm"
  shows "exact_count (fst (cm_apply ev cm))"
proof (cases ev)
  case (Ev_register now cid conn)
  with assms show ?thesis by (simp add: exact_register)
next
  case (Ev_unregister order cid)
  with assms show ?thesis by (simp add: exact_unregister)
next
  case (Ev_tick visits)
  with assms show ?thesis by (simp add: exact_tick)
next
  case (Ev_kick uid reason)
  with assms show ?thesis by (simp add: exact_kick)
next
  case Ev_stop
  with assms(2) show ?thesis by (simp add: exact_defs cm_stop_def)
qed (use assms(2) in \<open>simp_all add: exact_defs cm_recordPing_def cm_recordPong_def
      cm_recordActivity_def registerUserConnection_def\<close>)

lemma exact_run:
  assumes "cm_inv cm" and "exact_count cm" and "cm_run_enabled evs cm" and "no_stale_kick evs cm"
  shows "exact_count (fst (cm_run evs cm))"
  using assms
proof (induction evs arbitrary: cm)
  case Nil
  then show ?case by simp
next
  case (Cons ev evs)
  have "exact_count (fst (cm_run evs (fst (cm_apply ev cm))))"
    using Cons.prems by (intro Cons.IH) (auto intro: cm_inv_apply exact_apply)
  then show ?case by (simp add: split_beta Let_def)
qed

section \<open>A client that never sends a heartbeat\<close>

text \<open>
  The events that leave the heartbeat of a client alone, and the sweeps that find it
  overdue.
\<close>

fun silent_for :: "string \<Rightarrow> cm_event \<Rightarrow> bool" where
  "silent_for cid (Ev_register now c conn) = (c \<noteq> cid)"
| "silent_for cid (Ev_ping now c) = (c \<noteq> cid)"
| "silent_for cid (Ev_pong now c) = (c \<noteq> cid)"
| "silent_for cid _ = True"

fun late_sweep :: "string \<Rightarrow> heartbeat_config \<Rightarrow> int \<Rightarrow> cm_event \<Rightarrow> bool" where
  "late_sweep cid cfg t0 (Ev_tick visits) =
     (\<forall>v \<in> set visits. fst v = cid \<longrightarrow> hc_timeout cfg < time_since (fst (snd v)) t0)"
| "late_sweep cid cfg t0 _ = False"

text \<open>A client that is gone, or has \<open>k\<close> overdue sweeps to live.\<close>

definition doomed :: "string \<Rightarrow> heartbeat_config \<Rightarrow> int \<Rightarrow> nat \<Rightarrow> connection_manager \<Rightarrow> bool" where
  "doomed cid cfg t0 k cm \<longleftrightarrow>
     hm_config (cm_heartbeat cm) = cfg \<and>
     (cm_conns cm cid = None \<or>
      (\<exists>st. hm_conns (cm_heartbeat cm) cid = Some st \<and> is_alive st \<and> check_time st = t0 \<and>
            hc_max_missed cfg \<le> missed_count st + int k \<and> 0 < k))"

lemma doomed_tick:
  assumes inv: "cm_inv cm" and enum: "enumerates (map fst visits) (cm_conns cm)"
    and doom: "doomed cid cfg t0 k cm"
  shows "doomed cid cfg t0 (if late_sweep cid cfg t0 (Ev_tick visits) then k - 1 else k)
           (fst (checkAllConnections visits cm))"
proof -
  have a: "0 \<le> active_connections (cm_metrics cm)" using inv by (simp add: cm_inv_defs)
  note spec = checkAll_spec[OF enum a]
  let ?cm' = "fst (checkAllConnections visits cm)"
  have dist: "distinct (map fst visits)" using enum by (simp add: enumerates_def)
  have cfg: "hm_config (cm_heartbeat cm) = cfg" using doom by (simp add: doomed_def)
  have cfg': "hm_config (cm_heartbeat ?cm') = cfg"
    by (simp add: spec(8) sweep_classify_state(1)[OF dist] cfg)
  show ?thesis
  proof (cases "cm_conns cm cid = None \<or> cid \<in> swept cm visits")
    case True
    then have "cm_conns ?cm' cid = None" by (auto simp: spec(1) restrict_map_def)
    then show ?thesis by (simp add: doomed_def cfg')
  next
    case False
    then obtain st where st: "hm_conns (cm_heartbeat cm) cid = Some st" "is_alive st"
        "check_time st = t0" "hc_max_missed cfg \<le> missed_count st + int k" "0 < k"
      using doom by (auto simp: doomed_def)
    have "cid \<in> fst ` set visits" using False enum by (auto simp: enumerates_def)
    then obtain t1 t2 where v: "(cid, t1, t2) \<in> set visits" by auto
    then have map: "map_of visits cid = Some (t1, t2)" using dist by (simp add: map_of_eq_Some_iff)
    have "\<not> hb_expired (cm_heartbeat cm) (cid, t1, t2)"
      using False v by (auto simp: swept_def image_iff)
    then have alive: "\<not> expires cfg t1 st" by (simp add: hb_expired_def st(1) cfg)
    have st': "hm_conns (cm_heartbeat ?cm') cid = Some (checked cfg t1 st)"
      by (simp add: spec(8) sweep_classify_state(3)[OF dist] map st(1) cfg)
    have late: "overdue cfg t1 st" if "late_sweep cid cfg t0 (Ev_tick visits)"
      using that v st by (fastforce simp: overdue_def)
    have "check_time (checked cfg t1 st) = t0" using st(3) by (auto simp: checked_def check_time_def split: if_splits)
    moreover have "is_alive (checked cfg t1 st)"
      using alive st(2) by (auto simp: checked_def expires_def)
    moreover have "hc_max_missed cfg \<le> missed_count (checked cfg t1 st) +
        int (if late_sweep cid cfg t0 (Ev_tick visits) then k - 1 else k)"
      using late st(4,5) by (auto simp: checked_def)
    moreover have "0 < (if late_sweep cid cfg t0 (Ev_tick visits) then k - 1 else k)"
      using late st(4,5) alive by (auto simp: expires_def)
    ultimately show ?thesis
      using cfg' st' unfolding doomed_def by blast
  qed
qed

lemma doomed_other:
  assumes "doomed cid cfg t0 k cm" and "silent_for cid ev" and "\<forall>visits. ev \<noteq> Ev_tick visits"
  shows "doomed cid cfg t0 k (fst (cm_apply ev cm))"
proof (cases ev)
  case (Ev_register now c conn)
  with assms show ?thesis
    by (auto simp: doomed_def registerConnection_def split: option.split)
next
  case (Ev_unregister order c)
  with assms show ?thesis
    by (auto simp: doomed_def unregisterConnection_def split: option.split)
next
  case (Ev_activity now c)
  with assms show ?thesis
    by (cases "c = cid")
       (auto simp: doomed_def cm_recordActivity_def hb_recordActivity_same check_time_def)
next
  case (Ev_kick uid reason)
  with assms show ?thesis
    by (auto simp: doomed_def disconnectByUserID_def Let_def split: option.split)
qed (use assms in \<open>auto simp: doomed_def cm_recordPing_def cm_recordPong_def cm_stop_def
      registerUserConnection_def\<close>)

lemma doomed_run:
  assumes "cm_inv cm" and "cm_run_enabled evs cm" and "list_all (silent_for cid) evs"
    and "doomed cid cfg t0 k cm"
  shows "doomed cid cfg t0 (k - length (filter (late_sweep cid cfg t0) evs)) (fst (cm_run evs cm))"
  using assms
proof (induction evs arbitrary: cm k)
  case Nil
  then show ?case by simp
next
  case (Cons ev evs)
  define k' where "k' = (if late_sweep cid cfg t0 ev then k - 1 else k)"
  have "doomed cid cfg t0 k' (fst (cm_apply ev cm))"
  proof (cases "\<exists>visits. ev = Ev_tick visits")
    case True
    then obtain visits where ev: "ev = Ev_tick visits" by blast
    then have enum: "enumerates (map fst visits) (cm_conns cm)" using Cons.prems(2) by simp
    show ?thesis using doomed_tick[OF Cons.prems(1) enum Cons.prems(4)] by (simp add: ev k'_def)
  next
    case False
    then have "k' = k" by (cases ev) (simp_all add: k'_def)
    then show ?thesis using doomed_other[OF Cons.prems(4)] Cons.prems(3) False by simp
  qed
  then have "doomed cid cfg t0 (k' - length (filter (late_sweep cid cfg t0) evs))
      (fst (cm_run evs (fst (cm_apply ev cm))))"
    using Cons.prems by (intro Cons.IH) (auto intro: cm_inv_apply)
  then show ?case by (simp add: split_beta Let_def k'_def split: if_splits)
qed

section \<open>Properties\<close>

text \<open>
  C4. In every state the manager can reach from its construction, whatever the interleaving
  of registrations, sweeps, logins and kicks, the active counter lies between zero and the
  number of open connections, no more connections are open than were ever registered,
  heartbeat failures are counted among the disconnections, and every open connection has a
  heartbeat state, so the sweep can time it out.
\<close>

theorem manager_counters:
  assumes "reachable manager_start cm_step cm"
  shows "0 \<le> active_connections (getMetrics cm) \<and>
    active_connections (getMetrics cm) \<le> int (getActiveConnectionCount cm) \<and>
    int (getActiveConnectionCount cm) \<le> total_connections (getMetrics cm) \<and>
    heartbeat_failures (getMetrics cm) \<le> disconnected_count (getMetrics cm) \<and>
    (\<forall>cid. getConnection cm cid \<noteq> None \<longrightarrow> getHeartbeatState cm cid \<noteq> None)"
  using cm.reachable_inv[OF assms]
  by (auto simp: cm_inv_defs getMetrics_def getActiveConnectionCount_def getConnection_def
      getHeartbeatState_def hb_getState_def domIff)

definition sample_config :: heartbeat_config where
  "sample_config = \<lparr>hc_interval = 30, hc_timeout = 60, hc_max_missed = 3, hc_idle_timeout = 0\<rparr>"

lemma manager_counters_witness:
  "active_connections (getMetrics (snd (registerConnection 7 ''conn-1'' (Some 4)
     (newConnectionManager sample_config)))) \<le>
   int (getActiveConnectionCount (snd (registerConnection 7 ''conn-1'' (Some 4)
     (newConnectionManager sample_config))))"
proof -
  let ?cm = "newConnectionManager sample_config"
  have "reachable manager_start cm_step ?cm"
    by (rule reachable_start) (auto simp: manager_start_def)
  moreover have "cm_step ?cm (fst (cm_apply (Ev_register 7 ''conn-1'' (Some 4)) ?cm))"
    by (rule cm_step) simp
  ultimately have "reachable manager_start cm_step
      (fst (cm_apply (Ev_register 7 ''conn-1'' (Some 4)) ?cm))"
    by (rule reachable_step)
  then show ?thesis using manager_counters by fastforce
qed

text \<open>
  As long as no kick hits a user whose client is already gone, the metric
  \<open>ActiveConnections\<close> is exactly the number of open connections, through registrations,
  unregistrations, sweeps and kicks in any order.
\<close>

theorem active_count_exact:
  assumes "cm_run_enabled evs (newConnectionManager cfg)"
    and "no_stale_kick evs (newConnectionManager cfg)"
  shows "active_connections (getMetrics (fst (cm_run evs (newConnectionManager cfg)))) =
         int (getActiveConnectionCount (fst (cm_run evs (newConnectionManager cfg))))"
proof -
  have "cm_inv (newConnectionManager cfg)" by (rule cm_inv_start) (auto simp: manager_start_def)
  moreover have "exact_count (newConnectionManager cfg)"
    by (simp add: exact_defs newConnectionManager_def)
  ultimately show ?thesis using exact_run[OF _ _ assms] by (simp add: exact_count_def)
qed

definition two_clients :: "cm_event list" where
  "two_clients =
     [Ev_register 7 ''conn-1'' (Some 1), Ev_login 42 ''conn-1'',
      Ev_register 9 ''conn-2'' (Some 2), Ev_kick 42 ''replaced'']"

lemmas cm_eval = newConnectionManager_def newHeartbeatManager_def registerConnection_def
  registerUserConnection_def disconnectByUserID_def drop_active_def count_disconnect_def
  hb_recordPing_def Let_def

lemma active_count_exact_witness:
  "active_connections (getMetrics (fst (cm_run two_clients (newConnectionManager sample_config)))) =
   int (getActiveConnectionCount (fst (cm_run two_clients (newConnectionManager sample_config))))"
  by (rule active_count_exact) (simp_all add: two_clients_def cm_eval)

text \<open>
  C22. A sweep closes exactly the connections that expired: those whose heartbeat check
  fires, and of the others those idle for too long. It sends each of them a normal close
  frame and closes it, heartbeat timeouts before idle ones; every other connection and
  every user mapping stays; heartbeat failures count the heartbeat timeouts only.
\<close>

theorem sweep_closes_expired:
  assumes "cm_inv cm" and "enumerates (map fst visits) (cm_conns cm)"
  shows "start_turn (Tick visits) cm = (False, cm', acts) \<Longrightarrow>
    getConnection cm' cid = (if cid \<in> swept cm visits then None else getConnection cm cid) \<and>
    cm_users cm' = cm_users cm \<and>
    acts = closing (cm_conns cm) ''heartbeat timeout''
             (map fst (filter (hb_expired (cm_heartbeat cm)) visits)) @
           closing (cm_conns cm) ''idle timeout''
             (map fst (filter (idle_only (cm_heartbeat cm)) visits)) \<and>
    heartbeat_failures (cm_metrics cm') = heartbeat_failures (cm_metrics cm) +
      int (length (filter (hb_expired (cm_heartbeat cm)) visits)) \<and>
    disconnected_count (cm_metrics cm') = disconnected_count (cm_metrics cm) +
      int (card (swept cm visits))"
proof -
  assume r: "start_turn (Tick visits) cm = (False, cm', acts)"
  have a: "0 \<le> active_connections (cm_metrics cm)" using assms(1) by (simp add: cm_inv_defs)
  have "cm' = fst (checkAllConnections visits cm)" "acts = snd (checkAllConnections visits cm)"
    using r by simp_all
  then show ?thesis
    using checkAll_spec[OF assms(2) a]
    by (simp add: getConnection_def card_swept[OF assms(2)] restrict_map_def)
qed

definition one_client :: connection_manager where
  "one_client = snd (registerConnection 7 ''conn-1'' (Some 1)
     (newConnectionManager (sample_config\<lparr>hc_max_missed := 1\<rparr>)))"

lemma one_client_facts:
  "cm_inv one_client" "enumerates (map fst [(''conn-1'', 100, 100)]) (cm_conns one_client)"
proof -
  have "cm_inv (newConnectionManager (sample_config\<lparr>hc_max_missed := 1\<rparr>))"
    by (rule cm_inv_start) (auto simp: manager_start_def)
  then show "cm_inv one_client" unfolding one_client_def by (rule cm_inv_register)
  show "enumerates (map fst [(''conn-1'', 100, 100)]) (cm_conns one_client)"
    by (simp add: one_client_def enumerates_def cm_eval)
qed

lemma sweep_closes_expired_witness:
  "getConnection (fst (snd (start_turn (Tick [(''conn-1'', 100, 100)]) one_client))) ''conn-1'' =
     None"
proof -
  let ?v = "[(''conn-1'', 100, 100)]"
  have "''conn-1'' \<in> swept one_client ?v"
    by (simp add: swept_def hb_expired_def idle_only_def one_client_def cm_eval sample_config_def
        expires_def overdue_def check_time_def time_since_def)
  then show ?thesis
    using sweep_closes_expired[OF one_client_facts, of "fst (snd (start_turn (Tick ?v) one_client))"
        "snd (snd (start_turn (Tick ?v) one_client))" "''conn-1''"]
    by (simp del: start_turn.simps add: start_turn.simps(3))
qed

text \<open>
  The outcome of a sweep does not depend on the order in which Go iterates over the map
  of connections: two orders of the same visits leave the same state.
\<close>

theorem sweep_order_irrelevant:
  assumes "cm_inv cm" and "enumerates (map fst visits) (cm_conns cm)"
    and "mset visits' = mset visits"
  shows "fst (checkAllConnections visits' cm) = fst (checkAllConnections visits cm)"
proof -
  have a: "0 \<le> active_connections (cm_metrics cm)" using assms(1) by (simp add: cm_inv_defs)
  have set: "set visits' = set visits" using assms(3) by (rule mset_eq_setD)
  have "mset (map fst visits') = mset (map fst visits)" using assms(3) by simp
  then have dist': "distinct (map fst visits')"
    using assms(2) by (metis enumerates_def mset_eq_imp_distinct_iff)
  have dist: "distinct (map fst visits)" using assms(2) by (simp add: enumerates_def)
  have enum': "enumerates (map fst visits') (cm_conns cm)"
    using assms(2) dist' by (simp add: enumerates_def set)
  note spec = checkAll_spec[OF assms(2) a] and spec' = checkAll_spec[OF enum' a]
  have swept: "swept cm visits' = swept cm visits" by (simp add: swept_def set)
  have len: "length (filter P visits') = length (filter P visits)" for P
    using assms(3) by (metis mset_filter size_mset)
  have map_of: "map_of visits' = map_of visits"
    using dist dist' set by (metis map_of_inject_set)
  have "hm_conns (fst (sweep_classify visits' hm)) = hm_conns (fst (sweep_classify visits hm))" for hm
    by (rule ext) (simp add: sweep_classify_state(3)[OF dist] sweep_classify_state(3)[OF dist']
        map_of)
  then have hb: "fst (sweep_classify visits' hm) = fst (sweep_classify visits hm)" for hm
    by (intro heartbeat_manager.equality)
       (simp_all add: sweep_classify_state(1)[OF dist] sweep_classify_state(1)[OF dist'])
  show ?thesis
  proof (rule connection_manager.equality)
    show "cm_metrics (fst (checkAllConnections visits' cm)) =
        cm_metrics (fst (checkAllConnections visits cm))"
      by (rule connection_metrics.equality)
         (simp_all add: spec(3-6) spec'(3-6) len)
  qed (simp_all add: spec spec' swept hb)
qed

definition pair_state :: connection_manager where
  "pair_state = fst (cm_run [Ev_register 7 ''conn-1'' (Some 1), Ev_register 9 ''conn-2'' (Some 2)]
     (newConnectionManager (sample_config\<lparr>hc_max_missed := 1\<rparr>)))"

lemma pair_state_facts:
  "cm_inv pair_state"
  "enumerates (map fst [(''conn-1'', 100, 100), (''conn-2'', 100, 100)]) (cm_conns pair_state)"
proof -
  have "cm_inv (newConnectionManager (sample_config\<lparr>hc_max_missed := 1\<rparr>))"
    by (rule cm_inv_start) (auto simp: manager_start_def)
  then show "cm_inv pair_state" by (simp add: pair_state_def cm_inv_register)
  show "enumerates (map fst [(''conn-1'', 100, 100), (''conn-2'', 100, 100)]) (cm_conns pair_state)"
    by (simp add: pair_state_def enumerates_def cm_eval insert_commute)
qed

lemma sweep_order_irrelevant_witness:
  "fst (checkAllConnections [(''conn-2'', 100, 100), (''conn-1'', 100, 100)] pair_state) =
   fst (checkAllConnections [(''conn-1'', 100, 100), (''conn-2'', 100, 100)] pair_state)"
  by (rule sweep_order_irrelevant[OF pair_state_facts]) (simp add: add_mset_commute)

text \<open>
  Kicking a user closes that user's connection and no other: the client gets the
  \<open>session_kicked\<close> message before the policy-violation close frame, its entry and the
  mapping of the user disappear, every other connection and mapping stays, and a user
  without a mapping costs nothing.
\<close>

theorem kick_exactly_one:
  "disconnectByUserID uid reason cm =
     (case getUserClientID cm uid of
        None \<Rightarrow> (cm, [])
      | Some cid \<Rightarrow>
          (cm\<lparr>cm_conns := cm_conns cm |` (- {cid}), cm_users := cm_users cm |` (- {uid}),
              cm_metrics := (cm_metrics cm)
                \<lparr>active_connections := max 0 (active_connections (cm_metrics cm) - 1),
                 disconnected_count := disconnected_count (cm_metrics cm) + 1\<rparr>\<rparr>,
           case getConnection cm cid of
             Some (Some h) \<Rightarrow>
               [Write_text h kick_msg, Pause_ms 100, Write_close h 1008 reason, Close_conn h]
           | _ \<Rightarrow> []))"
proof -
  have del: "(m :: 'k \<Rightarrow> 'v option)(k := None) = m |` (- {k})" for m k
    by (auto simp: restrict_map_def)
  have drop: "drop_active (count_disconnect m) =
      m\<lparr>active_connections := max 0 (active_connections m - 1),
        disconnected_count := disconnected_count m + 1\<rparr>" for m
    by (simp add: drop_active_def count_disconnect_def Let_def)
  show ?thesis
    by (simp add: disconnectByUserID_def getUserClientID_def getConnection_def del drop Let_def
        split: option.split)
qed

text \<open>
  C37. A kick that finds the user's client already gone (a sweep closed it: sweeps do not
  clear user mappings) still counts a disconnection: the active counter drops although no
  connection was closed, and right after the kick it is below the number of open connections.
\<close>

theorem stale_kick_drifts:
  assumes "cm_inv cm" and "stale_kick (Ev_kick uid reason) cm" and "exact_count cm"
    and "0 < getActiveConnectionCount cm"
  shows "cm_conns (fst (cm_apply (Ev_kick uid reason) cm)) = cm_conns cm \<and>
    snd (cm_apply (Ev_kick uid reason) cm) = [] \<and>
    active_connections (getMetrics (fst (cm_apply (Ev_kick uid reason) cm))) <
      int (getActiveConnectionCount (fst (cm_apply (Ev_kick uid reason) cm))) \<and>
    disconnected_count (getMetrics (fst (cm_apply (Ev_kick uid reason) cm))) =
      disconnected_count (getMetrics cm) + 1"
proof -
  obtain cid where cid: "cm_users cm uid = Some cid" "cm_conns cm cid = None"
    using assms(2) by (auto split: option.splits)
  then have "(cm_conns cm)(cid := None) = cm_conns cm" by auto
  then show ?thesis
    using assms(3,4) cid by (simp add: disconnectByUserID_def exact_defs Let_def)
qed

text \<open>A client is swept away, another one connects, and the first one's user is kicked.\<close>

definition stale_state :: connection_manager where
  "stale_state = fst (cm_run
     [Ev_register 7 ''conn-1'' (Some 1), Ev_login 42 ''conn-1'',
      Ev_tick [(''conn-1'', 100, 100)], Ev_register 101 ''conn-2'' (Some 2)]
     (newConnectionManager (sample_config\<lparr>hc_max_missed := 1\<rparr>)))"

lemmas sweep_eval = cm_eval checkAllConnections_def hb_checkTimeout_def hb_getState_def
  idle_expired_def check_time_def time_since_def disconnectClientUnlocked_def count_failure_def
  sample_config_def

lemma stale_state_eval:
  "cm_conns stale_state = [''conn-2'' \<mapsto> Some 2]" "cm_users stale_state = [42 \<mapsto> ''conn-1'']"
  "active_connections (cm_metrics stale_state) = 1"
  "total_connections (cm_metrics stale_state) = 2"
  "disconnected_count (cm_metrics stale_state) = 1"
  "heartbeat_failures (cm_metrics stale_state) = 1"
  "''conn-2'' \<in> dom (hm_conns (cm_heartbeat stale_state))"
  by (auto simp: stale_state_def sweep_eval)

lemma stale_kick_drifts_witness:
  "active_connections (getMetrics (fst (cm_apply (Ev_kick 42 ''replaced'') stale_state))) <
   int (getActiveConnectionCount (fst (cm_apply (Ev_kick 42 ''replaced'') stale_state)))"
proof -
  have "cm_inv stale_state"
    using stale_state_eval by (simp add: cm_inv_defs)
  moreover have "exact_count stale_state" "0 < getActiveConnectionCount stale_state"
    using stale_state_eval by (simp_all add: exact_defs)
  moreover have "stale_kick (Ev_kick 42 ''replaced'') stale_state"
    using stale_state_eval by simp
  ultimately show ?thesis using stale_kick_drifts by blast
qed

text \<open>
  C23. A client that sends no ping and no pong is disconnected, however much other traffic
  it sends: activity does not reset the heartbeat check, so after \<open>MaxMissed\<close> sweeps later
  than the timeout its connection is gone.
\<close>

theorem silent_client_disconnected:
  assumes "reachable manager_start cm_step cm" and "cm_run_enabled evs cm"
    and "getHeartbeatState cm cid = Some st" and "is_alive st" and "missed_count st = 0"
    and "list_all (silent_for cid) evs"
    and "max 1 (hc_max_missed (hm_config (cm_heartbeat cm))) \<le> int (length
           (filter (late_sweep cid (hm_config (cm_heartbeat cm)) (check_time st)) evs))"
  shows "getConnection (fst (cm_run evs cm)) cid = None"
proof -
  let ?cfg = "hm_config (cm_heartbeat cm)"
  let ?k = "length (filter (late_sweep cid ?cfg (check_time st)) evs)"
  have "doomed cid ?cfg (check_time st) ?k cm"
    using assms(3-5,7) by (auto simp: doomed_def getHeartbeatState_def hb_getState_def)
  then have "doomed cid ?cfg (check_time st) (?k - ?k) (fst (cm_run evs cm))"
    using assms by (intro doomed_run cm.reachable_inv)
  then show ?thesis by (simp add: doomed_def getConnection_def)
qed

definition chatty :: "cm_event list" where
  "chatty = [Ev_activity 90 ''conn-1'', Ev_tick [(''conn-1'', 100, 100)], Ev_activity 101 ''conn-1'']"

lemma silent_client_disconnected_witness:
  "getConnection (fst (cm_run chatty one_client)) ''conn-1'' = None"
proof -
  let ?cm = "newConnectionManager (sample_config\<lparr>hc_max_missed := 1\<rparr>)"
  have "reachable manager_start cm_step ?cm" by (rule reachable_start) (auto simp: manager_start_def)
  moreover have "cm_step ?cm (fst (cm_apply (Ev_register 7 ''conn-1'' (Some 1)) ?cm))"
    by (rule cm_step) simp
  ultimately have "reachable manager_start cm_step one_client"
    by (auto simp: one_client_def intro: reachable_step)
  then show ?thesis
    by (rule silent_client_disconnected[where st = "\<lparr>last_ping = 7, last_pong = 0,
          last_activity = 7, missed_count = 0, is_alive = True\<rparr>"])
       (simp_all add: chatty_def one_client_def getHeartbeatState_def enumerates_def
          cm_recordActivity_def hb_recordActivity_def sweep_eval)
qed

text \<open>
  Unregistering a connected client removes its connection and exactly one of the user
  mappings that lead to it, whatever the iteration order; a client that logged in as one
  user leaves no mapping behind, one that logged in as several leaves all but one.
\<close>

theorem unregister_one_mapping:
  assumes "cm_inv cm" and "enumerates order (cm_users cm)" and "getConnection cm cid = Some conn"
  shows "getConnection (unregisterConnection order cid cm) cid = None \<and>
    card {uid. getUserClientID (unregisterConnection order cid cm) uid = Some cid} =
      card {uid. getUserClientID cm uid = Some cid} - 1 \<and>
    (\<forall>uid. getUserClientID cm uid \<noteq> Some cid \<longrightarrow>
      getUserClientID (unregisterConnection order cid cm) uid = getUserClientID cm uid)"
proof (cases "find (\<lambda>uid. cm_users cm uid = Some cid) order")
  case None
  then have "{uid. cm_users cm uid = Some cid} = {}"
    using assms(2) by (auto simp: find_None_iff enumerates_def)
  then show ?thesis
    using assms(3) None
    by (simp add: unregisterConnection_def getConnection_def getUserClientID_def)
next
  case (Some u)
  then have u: "cm_users cm u = Some cid" by (auto simp: find_Some_iff)
  have "{uid. ((cm_users cm)(u := None)) uid = Some cid} = {uid. cm_users cm uid = Some cid} - {u}"
    by auto
  then show ?thesis
    using assms(3) Some u
    by (auto simp: unregisterConnection_def getConnection_def getUserClientID_def)
qed

lemma unregister_one_mapping_witness:
  "getConnection (unregisterConnection [] ''conn-1'' one_client) ''conn-1'' = None"
  by (rule unregister_one_mapping[THEN conjunct1, OF one_client_facts(1)])
     (simp_all add: one_client_def enumerates_def getConnection_def cm_eval)

end
