(* ===== verification/Ws_Handler.thy ===== *)
theory Ws_Handler
  imports Ws_Router Connection_Manager Json_Print
begin

text \<open>
  \<open>gateway/internal/ws/handler.go\<close>: the life of a WebSocket connection in the gateway.
  \<open>ServeWS\<close> is modelled as its three parts: the opening (up to the read loop), one turn of
  the read loop for what \<open>ReadMessage\<close> returned, and the deferred cleanup; the step
  relation interleaves those of all connections with the sweeps and kicks of the connection
  manager, the publication of new routes and the changes of the outside world.

  The 64-bit connection counter wraps. Message types are those of RFC 6455 (1 text,
  9 ping). The conversion of a float64 outside the range of \<open>int64\<close> is left to the
  implementation by Go and is the parameter \<open>cd_float_oor\<close>.
\<close>

section \<open>State\<close>

record 'm codec =
  cd_marshal :: "'m \<Rightarrow> (string, string) result"
  cd_json_err :: "string \<Rightarrow> string"
  cd_float_oor :: "f64 \<Rightarrow> int"

record ('w, 'm) gateway =
  gw_router :: "('w, 'm) ws_handler atomic_router"
  gw_clients :: "64 word \<Rightarrow> client_meta option"
  gw_connCounter :: "64 word"
  gw_connManager :: "connection_manager option"

datatype gw_action =
    Set_read_deadline nat "int option"
  | Respond nat ws_response
  | Write_pong nat
  | Close_socket nat

datatype frame = Read_error | Frame int string

definition newHandler ::
  "('w, 'm) ws_handler atomic_router \<Rightarrow> connection_manager option \<Rightarrow> ('w, 'm) gateway" where
  "newHandler router mgr =
     \<lparr>gw_router = router, gw_clients = Map.empty, gw_connCounter = 0, gw_connManager = mgr\<rparr>"

definition with_manager ::
  "(connection_manager \<Rightarrow> connection_manager) \<Rightarrow> ('w, 'm) gateway \<Rightarrow> ('w, 'm) gateway" where
  "with_manager f gw = gw\<lparr>gw_connManager := map_option f (gw_connManager gw)\<rparr>"

section \<open>Opening and closing\<close>

definition client_id :: "64 word \<Rightarrow> string" where
  "client_id connID = ''conn-'' @ show_nat (unat connID)"

definition serve_open :: "int \<Rightarrow> nat \<Rightarrow> ('w, 'm) gateway \<Rightarrow> 64 word \<times> ('w, 'm) gateway" where
  "serve_open now conn gw =
     (let connID = gw_connCounter gw + 1;
          cid = client_id connID;
          meta = \<lparr>cmt_connID = connID, cmt_conn = conn, cmt_clientID = cid,
                  cmt_isAuthenticated = False, cmt_userID = 0, cmt_token = []\<rparr>
      in (connID,
          with_manager (\<lambda>cm. snd (registerConnection now cid (Some conn) cm))
            (gw\<lparr>gw_connCounter := connID, gw_clients := (gw_clients gw)(connID \<mapsto> meta)\<rparr>)))"

definition serve_close ::
  "int list \<Rightarrow> client_meta \<Rightarrow> ('w, 'm) gateway \<Rightarrow> ('w, 'm) gateway \<times> gw_action list" where
  "serve_close order meta gw =
     (with_manager (unregisterConnection order (cmt_clientID meta))
        (gw\<lparr>gw_clients := (gw_clients gw)(cmt_connID meta := None)\<rparr>),
      [Close_socket (cmt_conn meta)])"

section \<open>One turn of the read loop\<close>

definition read_deadline :: "int \<Rightarrow> client_meta \<Rightarrow> gw_action" where
  "read_deadline now meta =
     Set_read_deadline (cmt_conn meta)
       (if cmt_isAuthenticated meta then None else Some (now + 10 * 10 ^ 9))"

definition record_activity :: "int \<Rightarrow> client_meta \<Rightarrow> ('w, 'm) gateway \<Rightarrow> ('w, 'm) gateway" where
  "record_activity now meta gw = with_manager (cm_recordActivity now (cmt_clientID meta)) gw"

definition reply :: "string \<Rightarrow> int \<Rightarrow> string \<Rightarrow> goval \<Rightarrow> ws_response" where
  "reply method code msg data =
     \<lparr>wrs_method = method, wrs_code = code, wrs_msg = msg, wrs_data = data\<rparr>"

fun error_reply :: "string \<Rightarrow> handler_error \<Rightarrow> ws_response" where
  "error_reply method (Status_error code msg) = reply method code msg GNil"
| "error_reply method (Plain_error msg) = reply method 13 msg GNil"

definition f64_to_int64 :: "(f64 \<Rightarrow> int) \<Rightarrow> f64 \<Rightarrow> int" where
  "f64_to_int64 oor x = (if in_range 64 (f64_trunc x) then f64_trunc x else oor x)"

definition extractUserID :: "(f64 \<Rightarrow> int) \<Rightarrow> goval \<Rightarrow> int" where
  "extractUserID oor data =
     (case data of
        GMap ms \<Rightarrow>
          (case gmap_get ms ''user_id'' of
             None \<Rightarrow> 0
           | Some v \<Rightarrow>
               (case v of
                  GFloat64 x \<Rightarrow> f64_to_int64 oor x
                | GInt i \<Rightarrow> i
                | GInt64 i \<Rightarrow> i
                | GUint64 u \<Rightarrow> sint u
                | GInt32 i \<Rightarrow> i
                | GUint32 u \<Rightarrow> uint u
                | GFloat32 x \<Rightarrow> f64_to_int64 oor x
                | _ \<Rightarrow> 0))
      | _ \<Rightarrow> 0)"

definition establish_session ::
  "(f64 \<Rightarrow> int) \<Rightarrow> goval \<Rightarrow> client_meta \<Rightarrow> ('w, 'm) gateway \<Rightarrow> client_meta \<times> ('w, 'm) gateway"
where
  "establish_session oor data meta gw =
     (let meta1 = meta\<lparr>cmt_isAuthenticated := True\<rparr>;
          uid = extractUserID oor data
      in if 0 < uid
         then (meta1\<lparr>cmt_userID := uid\<rparr>,
               with_manager (registerUserConnection uid (cmt_clientID meta)) gw)
         else (meta1, gw))"

text \<open>The outcome of a turn: whether the loop goes on, and the states afterwards.\<close>

type_synonym ('w, 'm) turn = "bool \<times> client_meta \<times> ('w, 'm) gateway \<times> 'w \<times> gw_action list"

definition serve_request ::
  "'m codec \<Rightarrow> int \<Rightarrow> ws_request \<Rightarrow> client_meta \<Rightarrow> ('w, 'm) gateway \<Rightarrow> 'w \<Rightarrow> ('w, 'm) turn"
where
  "serve_request env now req meta gw w =
     (let m = wrq_method req; c = cmt_conn meta
      in case router_get (gw_router gw) m of
           None \<Rightarrow> (False, meta, gw, w, [Respond c (reply m 5 ''unknown method'' GNil)])
         | Some route \<Rightarrow>
             if \<not> rb_public route \<and> \<not> cmt_isAuthenticated meta
             then (False, meta, gw, w,
                   [Respond c (reply m 16 ''unauthorized: please login first'' GNil)])
             else
               (case rb_handler route (wrq_payload req) meta w of
                  (w', Inl e) \<Rightarrow>
                    (\<not> rb_establishSession route, meta, gw, w', [Respond c (error_reply m e)])
                | (w', Inr resp) \<Rightarrow>
                    (case dataFromWsHandlerResult (cd_marshal env) (cd_json_err env) resp of
                       Inl t \<Rightarrow>
                         (\<not> rb_establishSession route, meta, gw, w', [Respond c (reply m 13 t GNil)])
                     | Inr data \<Rightarrow>
                         (let (meta', gw') =
                                (if rb_establishSession route
                                 then establish_session (cd_float_oor env) data meta gw
                                 else (meta, gw));
                              gw'' = (if cmt_clientID meta' \<noteq> []
                                      then record_activity now meta' gw' else gw')
                          in (True, meta', gw'', w', [Respond c (reply m 0 ''success'' data)])))))"

fun serve_frame ::
  "'m codec \<Rightarrow> int \<Rightarrow> frame \<Rightarrow> client_meta \<Rightarrow> ('w, 'm) gateway \<Rightarrow> 'w \<Rightarrow> ('w, 'm) turn"
where
  "serve_frame env now Read_error meta gw w = (False, meta, gw, w, [])"
| "serve_frame env now (Frame ty msg) meta gw w =
     (if ty = 9 then (True, meta, record_activity now meta gw, w, [Write_pong (cmt_conn meta)])
      else if ty \<noteq> 1
      then (False, meta, gw, w,
            [Respond (cmt_conn meta) (reply [] 3 ''non-text message received'' GNil)])
      else
        (case decode_request msg of
           None \<Rightarrow> (False, meta, gw, w,
                    [Respond (cmt_conn meta) (reply [] 3 ''invalid json format'' GNil)])
         | Some req \<Rightarrow> serve_request env now req meta gw w))"

section \<open>The gateway as a system\<close>

text \<open>
  A connection whose loop has broken waits for its cleanup in \<open>gs_broken\<close>. The log, newest
  entry first, and the number of openings are there for the properties only: the code keeps
  neither. What \<open>Called\<close> logs is observed, not decided: the same turn is run with every
  handler of the snapshot wrapped in a spy, which calls it and notes in the world it is passed
  that it was called.
\<close>

datatype gw_log = Called string bool | Established

record ('w, 'm) gateway_system =
  gs_gateway :: "('w, 'm) gateway"
  gs_world :: 'w
  gs_broken :: "64 word set"
  gs_log :: "(64 word \<times> gw_log) list"
  gs_opened :: nat

text \<open>
  The spy: a handler with a note of each call, the method and the binding it was made for, in
  the world beside the handler's own. \<open>frame_calls\<close> are the calls that the turn of a frame
  really makes.
\<close>

type_synonym ('w, 'm) ws_binding = "('w, 'm) ws_handler route_binding"

type_synonym ('w, 'm) calls = "(string \<times> ('w, 'm) ws_binding) list"

definition spy_binding ::
  "string \<Rightarrow> ('w, 'm) ws_binding \<Rightarrow> ('w \<times> ('w, 'm) calls, 'm) ws_binding" where
  "spy_binding m b =
     \<lparr>rb_handler = (\<lambda>payload meta (w, calls).
        (case rb_handler b payload meta w of (w', r) \<Rightarrow> ((w', calls @ [(m, b)]), r))),
      rb_public = rb_public b, rb_establishSession = rb_establishSession b\<rparr>"

definition spy_router ::
  "('w, 'm) ws_handler atomic_router \<Rightarrow> ('w \<times> ('w, 'm) calls, 'm) ws_handler atomic_router" where
  "spy_router a =
     \<lparr>ar_pointer = map_option
        (\<lambda>t. \<lparr>by_method = (\<lambda>m. map_option (spy_binding m) (by_method t m))\<rparr>) (ar_pointer a)\<rparr>"

definition spy_gateway :: "('w, 'm) gateway \<Rightarrow> ('w \<times> ('w, 'm) calls, 'm) gateway" where
  "spy_gateway gw =
     \<lparr>gw_router = spy_router (gw_router gw), gw_clients = gw_clients gw,
      gw_connCounter = gw_connCounter gw, gw_connManager = gw_connManager gw\<rparr>"

definition frame_calls ::
  "'m codec \<Rightarrow> int \<Rightarrow> frame \<Rightarrow> client_meta \<Rightarrow> ('w, 'm) gateway \<Rightarrow> 'w \<Rightarrow> ('w, 'm) calls" where
  "frame_calls env now fr meta gw w =
     (case serve_frame env now fr meta (spy_gateway gw) (w, []) of
        (go, meta', gw', (w', calls), acts) \<Rightarrow> calls)"

fun background :: "cm_event \<Rightarrow> bool" where
  "background (Ev_tick visits) = True"
| "background (Ev_kick uid reason) = True"
| "background Ev_stop = True"
| "background _ = False"

definition deliver ::
  "'m codec \<Rightarrow> 64 word \<Rightarrow> client_meta \<Rightarrow> int \<Rightarrow> frame \<Rightarrow> ('w, 'm) gateway_system
     \<Rightarrow> ('w, 'm) gateway_system"
where
  "deliver env c meta now fr s =
     (let (go, meta', gw', w', acts) = serve_frame env now fr meta (gs_gateway s) (gs_world s)
      in s\<lparr>gs_gateway := gw'\<lparr>gw_clients := (gw_clients gw')(c \<mapsto> meta')\<rparr>,
           gs_world := w',
           gs_broken := (if go then gs_broken s else insert c (gs_broken s)),
           gs_log :=
             (if cmt_isAuthenticated meta' \<and> \<not> cmt_isAuthenticated meta
              then [(c, Established)] else []) @
             rev (map (\<lambda>(m, b). (c, Called m (rb_public b)))
               (frame_calls env now fr meta (gs_gateway s) (gs_world s))) @
             gs_log s\<rparr>)"

inductive gw_step ::
  "'m codec \<Rightarrow> ('w, 'm) gateway_system \<Rightarrow> ('w, 'm) gateway_system \<Rightarrow> bool" for env where
  gw_open:
    "gw_step env s
       (s\<lparr>gs_gateway := snd (serve_open now conn (gs_gateway s)), gs_opened := Suc (gs_opened s),
          gs_broken := gs_broken s - {fst (serve_open now conn (gs_gateway s))}\<rparr>)"
| gw_deliver:
    "gw_clients (gs_gateway s) c = Some meta \<Longrightarrow> c \<notin> gs_broken s \<Longrightarrow>
     gw_step env s (deliver env c meta now fr s)"
| gw_cleanup:
    "gw_clients (gs_gateway s) c = Some meta \<Longrightarrow> c \<in> gs_broken s \<Longrightarrow>
     (\<forall>cm. gw_connManager (gs_gateway s) = Some cm \<longrightarrow> enumerates order (cm_users cm)) \<Longrightarrow>
     gw_step env s (s\<lparr>gs_gateway := fst (serve_close order meta (gs_gateway s))\<rparr>)"
| gw_manage:
    "gw_connManager (gs_gateway s) = Some cm \<Longrightarrow> background ev \<Longrightarrow> cm_enabled ev cm \<Longrightarrow>
     gw_step env s
       (s\<lparr>gs_gateway := with_manager (\<lambda>cm. fst (cm_apply ev cm)) (gs_gateway s)\<rparr>)"
| gw_publish:
    "gw_step env s
       (s\<lparr>gs_gateway := (gs_gateway s)\<lparr>gw_router :=
            router_store routes (gw_router (gs_gateway s))\<rparr>\<rparr>)"
| gw_outside: "gw_step env s (s\<lparr>gs_world := w\<rparr>)"

inductive_cases gw_stepE: "gw_step env s s'"

definition gw_start :: "('w, 'm) gateway_system \<Rightarrow> bool" where
  "gw_start s \<longleftrightarrow>
     (\<exists>router cfg w mgr.
        s = \<lparr>gs_gateway = newHandler router mgr, gs_world = w, gs_broken = {}, gs_log = [],
             gs_opened = 0\<rparr> \<and>
        (mgr = None \<or> mgr = Some (newConnectionManager cfg)))"

section \<open>The calls of a turn\<close>

lemma router_get_spy: "router_get (spy_router a) m = map_option (spy_binding m) (router_get a m)"
  by (simp add: router_get_def routes_get_def spy_router_def split: option.split)

lemma spy_gateway_simps [simp]:
  "gw_router (spy_gateway gw) = spy_router (gw_router gw)"
  "gw_clients (spy_gateway gw) = gw_clients gw"
  "gw_connManager (spy_gateway gw) = gw_connManager gw"
  by (simp_all add: spy_gateway_def)

lemma spy_with_manager: "with_manager f (spy_gateway gw) = spy_gateway (with_manager f gw)"
  by (simp add: with_manager_def spy_gateway_def)

lemma spy_record_activity:
  "record_activity now meta (spy_gateway gw) = spy_gateway (record_activity now meta gw)"
  by (simp add: record_activity_def spy_with_manager)

lemma spy_establish_session:
  "establish_session oor data meta (spy_gateway gw) =
     (case establish_session oor data meta gw of (meta', gw') \<Rightarrow> (meta', spy_gateway gw'))"
  by (simp add: establish_session_def Let_def spy_with_manager)

text \<open>
  A request of the spied gateway takes the turn of the real one, and the calls it notes are
  of the binding of its method in the snapshot, when the guard lets it through.
\<close>

lemma serve_request_spy:
  "\<exists>calls. serve_request env now req meta (spy_gateway gw) (w, l) =
     (case serve_request env now req meta gw w of
        (go, meta', gw', w', acts) \<Rightarrow> (go, meta', spy_gateway gw', (w', l @ calls), acts)) \<and>
   calls = (case router_get (gw_router gw) (wrq_method req) of
              None \<Rightarrow> []
            | Some b \<Rightarrow>
                if rb_public b \<or> cmt_isAuthenticated meta then [(wrq_method req, b)] else [])"
proof (cases "router_get (gw_router gw) (wrq_method req)")
  case None
  then show ?thesis by (simp add: serve_request_def Let_def router_get_spy)
next
  case (Some b)
  show ?thesis
  proof (cases "rb_public b \<or> cmt_isAuthenticated meta")
    case False
    then show ?thesis by (simp add: serve_request_def Let_def router_get_spy Some spy_binding_def)
  next
    case True
    obtain w1 r where h: "rb_handler b (wrq_payload req) meta w = (w1, r)"
      by (cases "rb_handler b (wrq_payload req) meta w")
    have s: "rb_handler (spy_binding m b) (wrq_payload req) meta (w, l) = ((w1, l @ [(m, b)]), r)" for m
      by (simp add: spy_binding_def h)
    have g: "rb_public (spy_binding m b) = rb_public b"
      "rb_establishSession (spy_binding m b) = rb_establishSession b" for m
      by (simp_all add: spy_binding_def)
    show ?thesis
    proof (cases "\<exists>resp data. r = Inr resp \<and>
        dataFromWsHandlerResult (cd_marshal env) (cd_json_err env) resp = Inr data")
      case False
      have "(\<exists>e. r = Inl e) \<or> (\<exists>resp t. r = Inr resp \<and>
          dataFromWsHandlerResult (cd_marshal env) (cd_json_err env) resp = Inl t)"
        using False by (metis sum.exhaust)
      then show ?thesis using True
        by (auto simp: serve_request_def Let_def router_get_spy Some s g h)
    next
      case dataOK: True
      then obtain resp data where r: "r = Inr resp"
        "dataFromWsHandlerResult (cd_marshal env) (cd_json_err env) resp = Inr data" by blast
      obtain meta' gw' where e: "establish_session (cd_float_oor env) data meta gw = (meta', gw')"
        by (metis prod.exhaust)
      have es: "establish_session (cd_float_oor env) data meta (spy_gateway gw) = (meta', spy_gateway gw')"
        by (simp add: spy_establish_session e)
      show ?thesis using True
        by (cases "rb_establishSession b")
          (simp_all add: serve_request_def Let_def router_get_spy Some s g h r e es spy_record_activity)
    qed
  qed
qed

lemma frame_calls_request:
  "frame_calls env now (Frame ty msg) meta gw w =
     (case decode_request msg of
        None \<Rightarrow> []
      | Some req \<Rightarrow>
          if ty \<noteq> 1 then []
          else (case router_get (gw_router gw) (wrq_method req) of
                  None \<Rightarrow> []
                | Some b \<Rightarrow>
                    if rb_public b \<or> cmt_isAuthenticated meta then [(wrq_method req, b)] else []))"
proof (cases "ty = 1")
  case True
  show ?thesis
  proof (cases "decode_request msg")
    case (Some req)
    obtain calls where c: "serve_request env now req meta (spy_gateway gw) (w, []) =
        (case serve_request env now req meta gw w of
           (go, meta', gw', w', acts) \<Rightarrow> (go, meta', spy_gateway gw', (w', [] @ calls), acts))"
      "calls = (case router_get (gw_router gw) (wrq_method req) of None \<Rightarrow> []
         | Some b \<Rightarrow> if rb_public b \<or> cmt_isAuthenticated meta then [(wrq_method req, b)] else [])"
      using serve_request_spy[of env now req meta gw w "[]"] by (elim exE conjE)
    have "frame_calls env now (Frame ty msg) meta gw w = calls"
      by (simp add: frame_calls_def True Some c(1) split: prod.split)
    then show ?thesis by (simp add: c(2) True Some)
  qed (simp add: frame_calls_def True)
qed (simp add: frame_calls_def split: option.split)

lemma frame_calls_guarded:
  assumes "(m, b) \<in> set (frame_calls env now fr meta gw w)"
  shows "router_get (gw_router gw) m = Some b" and "rb_public b \<or> cmt_isAuthenticated meta"
proof -
  obtain ty msg where fr: "fr = Frame ty msg"
    using assms by (cases fr) (simp_all add: frame_calls_def)
  show "router_get (gw_router gw) m = Some b" "rb_public b \<or> cmt_isAuthenticated meta"
    using assms by (auto simp: fr frame_calls_request split: option.splits if_splits)
qed

text \<open>Watching the calls changes nothing: the spied turn is the real turn.\<close>

lemma frame_calls_faithful:
  "serve_frame env now fr meta (spy_gateway gw) (w, []) =
     (case serve_frame env now fr meta gw w of
        (go, meta', gw', w', acts) \<Rightarrow>
          (go, meta', spy_gateway gw', (w', frame_calls env now fr meta gw w), acts))"
proof (cases fr)
  case (Frame ty msg)
  show ?thesis
  proof (cases "ty = 1 \<and> decode_request msg \<noteq> None")
    case True
    then obtain req where req: "ty = 1" "decode_request msg = Some req" by blast
    show ?thesis
      using serve_request_spy[of env now req meta gw w "[]"]
      by (auto simp: frame_calls_def Frame req split: prod.split)
  qed (auto simp: frame_calls_def Frame spy_record_activity split: option.split)
qed (simp add: frame_calls_def)

section \<open>What a turn changes\<close>

lemma with_manager_simps [simp]:
  "gw_router (with_manager f gw) = gw_router gw"
  "gw_clients (with_manager f gw) = gw_clients gw"
  "gw_connCounter (with_manager f gw) = gw_connCounter gw"
  "gw_connManager (with_manager f gw) = map_option f (gw_connManager gw)"
  by (simp_all add: with_manager_def)

lemma record_activity_simps [simp]:
  "gw_router (record_activity now meta gw) = gw_router gw"
  "gw_clients (record_activity now meta gw) = gw_clients gw"
  "gw_connCounter (record_activity now meta gw) = gw_connCounter gw"
  "gw_connManager (record_activity now meta gw) =
     map_option (cm_recordActivity now (cmt_clientID meta)) (gw_connManager gw)"
  by (simp_all add: record_activity_def)

text \<open>
  The events a turn can cause at the connection manager: none, activity, or a login and
  activity.
\<close>

definition turn_events :: "int \<Rightarrow> string \<Rightarrow> cm_event list \<Rightarrow> bool" where
  "turn_events now cid evs \<longleftrightarrow>
     evs = [] \<or> evs = [Ev_activity now cid] \<or>
     (\<exists>uid > 0. evs = [Ev_login uid cid] \<or> evs = [Ev_login uid cid, Ev_activity now cid])"

definition turn_ok ::
  "int \<Rightarrow> client_meta \<Rightarrow> ('w, 'm) gateway \<Rightarrow> ('w, 'm) turn \<Rightarrow> bool" where
  "turn_ok now meta gw t \<longleftrightarrow>
     (case t of (go, meta', gw', w', acts) \<Rightarrow>
        gw_router gw' = gw_router gw \<and> gw_clients gw' = gw_clients gw \<and>
        gw_connCounter gw' = gw_connCounter gw \<and>
        cmt_connID meta' = cmt_connID meta \<and> cmt_clientID meta' = cmt_clientID meta \<and>
        cmt_conn meta' = cmt_conn meta \<and>
        (cmt_isAuthenticated meta \<longrightarrow> cmt_isAuthenticated meta') \<and>
        (\<exists>evs. turn_events now (cmt_clientID meta) evs \<and>
           gw_connManager gw' = map_option (\<lambda>cm. fst (cm_run evs cm)) (gw_connManager gw)))"

lemma turn_events_intros [intro]:
  "turn_events now cid []" "turn_events now cid [Ev_activity now cid]"
  "0 < uid \<Longrightarrow> turn_events now cid [Ev_login uid cid]"
  "0 < uid \<Longrightarrow> turn_events now cid [Ev_login uid cid, Ev_activity now cid]"
  by (auto simp: turn_events_def)

lemma turn_ok_same: "turn_ok now meta gw (go, meta, gw, w', acts)"
  unfolding turn_ok_def by (auto intro!: exI[of _ "[]"] simp: option.map_ident)

lemma turn_ok_success:
  assumes "(meta', gw') = (if establish then establish_session oor data meta gw else (meta, gw))"
  shows "turn_ok now meta gw (go, meta',
    if cmt_clientID meta' \<noteq> [] then record_activity now meta' gw' else gw', w', acts)"
proof -
  define uid where "uid = extractUserID oor data"
  consider (plain) "meta' = meta" "gw' = gw"
    | (anonymous) "meta' = meta\<lparr>cmt_isAuthenticated := True\<rparr>" "gw' = gw"
    | (user) "0 < uid" "meta' = meta\<lparr>cmt_isAuthenticated := True, cmt_userID := uid\<rparr>"
        "gw' = with_manager (registerUserConnection uid (cmt_clientID meta)) gw"
    using assms by (auto simp: establish_session_def Let_def uid_def split: if_splits)
  then show ?thesis
  proof cases
    case user
    let ?evs = "Ev_login uid (cmt_clientID meta) #
      (if cmt_clientID meta \<noteq> [] then [Ev_activity now (cmt_clientID meta)] else [])"
    have "turn_events now (cmt_clientID meta) ?evs" using user(1) by auto
    then show ?thesis
      using user unfolding turn_ok_def
      by (auto intro!: exI[of _ ?evs] simp: option.map_comp comp_def)
  qed (auto simp: turn_ok_def option.map_ident intro!: exI[of _ "if cmt_clientID meta \<noteq> []
      then [Ev_activity now (cmt_clientID meta)] else []"])
qed

lemma serve_request_ok: "turn_ok now meta gw (serve_request env now req meta gw w)"
proof (cases "router_get (gw_router gw) (wrq_method req)")
  case None
  then show ?thesis by (simp add: serve_request_def turn_ok_same)
next
  case (Some route)
  show ?thesis
  proof (cases "\<not> rb_public route \<and> \<not> cmt_isAuthenticated meta")
    case True
    with Some show ?thesis by (simp add: serve_request_def turn_ok_same)
  next
    case False
    obtain w' r where h: "rb_handler route (wrq_payload req) meta w = (w', r)" by (cases "rb_handler route (wrq_payload req) meta w")
    show ?thesis
    proof (cases r)
      case (Inl e)
      with False Some h show ?thesis by (simp add: serve_request_def Let_def turn_ok_same)
    next
      case (Inr resp)
      show ?thesis
      proof (cases "dataFromWsHandlerResult (cd_marshal env) (cd_json_err env) resp")
        case (Inl t)
        with False Some h Inr show ?thesis by (simp add: serve_request_def Let_def turn_ok_same)
      next
        case data: (Inr data)
        obtain meta' gw' where est: "(meta', gw') = (if rb_establishSession route
            then establish_session (cd_float_oor env) data meta gw else (meta, gw))"
          by (metis prod.exhaust)
        show ?thesis
          using turn_ok_success[OF est]
          by (simp add: serve_request_def Some False h Inr data est[symmetric] Let_def
              del: if_split)
      qed
    qed
  qed
qed

lemma serve_frame_ok: "turn_ok now meta gw (serve_frame env now fr meta gw w)"
proof (cases fr)
  case Read_error
  then show ?thesis by (simp add: turn_ok_same)
next
  case (Frame ty msg)
  have "turn_ok now meta gw (True, meta, record_activity now meta gw, w, acts)" for acts
    unfolding turn_ok_def
    by (auto intro!: exI[of _ "[Ev_activity now (cmt_clientID meta)]"])
  then show ?thesis
    using Frame serve_request_ok by (auto simp: turn_ok_same split: option.split)
qed

section \<open>The invariant of the gateway\<close>

text \<open>Every call of a private handler is preceded by a session of its connection.\<close>

fun calls_ok :: "(64 word \<times> gw_log) list \<Rightarrow> bool" where
  "calls_ok [] = True"
| "calls_ok ((c, Called m pub) # older) = ((pub \<or> (c, Established) \<in> set older) \<and> calls_ok older)"
| "calls_ok ((c, Established) # older) = calls_ok older"

lemma calls_ok_append:
  assumes "calls_ok older"
    and "\<And>c m. (c, Called m False) \<in> set newer \<Longrightarrow> (c, Established) \<in> set older"
  shows "calls_ok (newer @ older)"
  using assms(2)
proof (induction newer)
  case (Cons e newer)
  obtain c ev where e: "e = (c, ev)" by (cases e)
  show ?case using Cons by (cases ev; cases "snd e") (auto simp: e)
qed (simp add: assms(1))

definition clients_ok :: "('w, 'm) gateway_system \<Rightarrow> bool" where
  "clients_ok s \<longleftrightarrow>
     (\<forall>c meta. gw_clients (gs_gateway s) c = Some meta \<longrightarrow>
        cmt_connID meta = c \<and> cmt_clientID meta = client_id c \<and>
        (cmt_isAuthenticated meta \<longrightarrow> (c, Established) \<in> set (gs_log s)))"

definition manager_ok :: "('w, 'm) gateway_system \<Rightarrow> bool" where
  "manager_ok s \<longleftrightarrow>
     (\<forall>cm. gw_connManager (gs_gateway s) = Some cm \<longrightarrow>
        cm_inv cm \<and>
        (gs_opened s < 2 ^ 64 \<longrightarrow>
           dom (cm_conns cm) \<subseteq> client_id ` {c. unat c \<le> gs_opened s}))"

definition gw_inv :: "('w, 'm) gateway_system \<Rightarrow> bool" where
  "gw_inv s \<longleftrightarrow>
     clients_ok s \<and> manager_ok s \<and> calls_ok (gs_log s) \<and>
     gw_connCounter (gs_gateway s) = of_nat (gs_opened s)"

lemma client_id_inj: "client_id a = client_id b \<longleftrightarrow> a = b"
  by (auto simp: client_id_def word_unat_eq_iff dest: show_nat_inj)

lemma serve_open_simps [simp]:
  "fst (serve_open now conn gw) = gw_connCounter gw + 1"
  "gw_router (snd (serve_open now conn gw)) = gw_router gw"
  "gw_connCounter (snd (serve_open now conn gw)) = gw_connCounter gw + 1"
  "gw_clients (snd (serve_open now conn gw)) = (gw_clients gw)(gw_connCounter gw + 1 \<mapsto>
     \<lparr>cmt_connID = gw_connCounter gw + 1, cmt_conn = conn,
      cmt_clientID = client_id (gw_connCounter gw + 1),
      cmt_isAuthenticated = False, cmt_userID = 0, cmt_token = []\<rparr>)"
  "gw_connManager (snd (serve_open now conn gw)) =
     map_option (\<lambda>cm. snd (registerConnection now (client_id (gw_connCounter gw + 1)) (Some conn) cm))
       (gw_connManager gw)"
  by (simp_all add: serve_open_def Let_def)

lemma serve_close_simps [simp]:
  "gw_connCounter (fst (serve_close order meta gw)) = gw_connCounter gw"
  "gw_clients (fst (serve_close order meta gw)) = (gw_clients gw)(cmt_connID meta := None)"
  "gw_connManager (fst (serve_close order meta gw)) =
     map_option (unregisterConnection order (cmt_clientID meta)) (gw_connManager gw)"
  by (simp_all add: serve_close_def)

lemma conns_after:
  "dom (cm_conns (snd (registerConnection now cid conn cm))) = insert cid (dom (cm_conns cm))"
  "dom (cm_conns (unregisterConnection order cid cm)) = dom (cm_conns cm) - {cid}"
  by (auto simp: registerConnection_def unregisterConnection_def domIff split: option.split)

lemma cm_inv_run: "cm_inv cm \<Longrightarrow> cm_run_enabled evs cm \<Longrightarrow> cm_inv (fst (cm_run evs cm))"
  by (rule cm.chain_inv[OF _ cm_run_steps])

lemma turn_events_manager:
  assumes "turn_events now cid evs"
  shows "cm_conns (fst (cm_run evs cm)) = cm_conns cm"
    and "cm_run_enabled evs cm"
    and "list_all (silent_for c) evs"
  using assms by (auto simp: turn_events_def registerUserConnection_def cm_recordActivity_def)

lemma background_conns:
  assumes "background ev" and "cm_enabled ev cm" and "cm_inv cm"
  shows "dom (cm_conns (fst (cm_apply ev cm))) \<subseteq> dom (cm_conns cm)"
proof (cases ev)
  case (Ev_tick visits)
  have "0 \<le> active_connections (cm_metrics cm)" using assms(3) by (simp add: cm_inv_defs)
  then show ?thesis
    using checkAll_spec(1)[of visits cm] assms Ev_tick by auto
next
  case (Ev_kick uid reason)
  then show ?thesis by (auto simp: disconnectByUserID_def Let_def split: option.splits if_splits)
next
  case Ev_stop
  then show ?thesis by (simp add: cm_stop_def)
qed (use assms(1) in simp_all)

lemma gw_inv_start: "gw_start s \<Longrightarrow> gw_inv s"
  by (auto simp: gw_start_def gw_inv_def clients_ok_def manager_ok_def newHandler_def
      newConnectionManager_def newHeartbeatManager_def cm_inv_defs)

text \<open>A step that opens nothing keeps the clauses on the manager if it closes at most.\<close>

lemma manager_ok_shrink:
  assumes "manager_ok s" and "gs_opened s' = gs_opened s"
    and "gw_connManager (gs_gateway s') = map_option f (gw_connManager (gs_gateway s))"
    and "\<And>cm. gw_connManager (gs_gateway s) = Some cm \<Longrightarrow> cm_inv cm \<Longrightarrow>
           cm_inv (f cm) \<and> dom (cm_conns (f cm)) \<subseteq> dom (cm_conns cm)"
  shows "manager_ok s'"
  unfolding manager_ok_def
proof (intro allI impI)
  fix cm'
  assume "gw_connManager (gs_gateway s') = Some cm'"
  then obtain cm where cm: "gw_connManager (gs_gateway s) = Some cm" "cm' = f cm"
    using assms(3) by auto
  from cm(1) assms(1) have inv: "cm_inv cm" "gs_opened s < 2 ^ 64 \<longrightarrow>
      dom (cm_conns cm) \<subseteq> client_id ` {c. unat c \<le> gs_opened s}"
    by (simp_all add: manager_ok_def)
  from assms(4)[OF cm(1) inv(1)] inv(2)
  show "cm_inv cm' \<and> (gs_opened s' < 2 ^ 64 \<longrightarrow>
      dom (cm_conns cm') \<subseteq> client_id ` {c. unat c \<le> gs_opened s'})"
    unfolding cm(2) assms(2) by blast
qed

lemma gw_inv_open:
  assumes "gw_inv s"
  shows "gw_inv (s\<lparr>gs_gateway := snd (serve_open now conn (gs_gateway s)),
    gs_opened := Suc (gs_opened s), gs_broken := b\<rparr>)" (is "gw_inv ?s")
proof -
  let ?c = "gw_connCounter (gs_gateway s) + 1"
  have "?c = of_nat (Suc (gs_opened s))" using assms by (simp add: gw_inv_def)
  then have le: "unat ?c \<le> Suc (gs_opened s)" by (simp only: unat_of_nat) simp
  have "manager_ok ?s"
    unfolding manager_ok_def
  proof (intro allI impI)
    fix cm'
    assume "gw_connManager (gs_gateway ?s) = Some cm'"
    then obtain cm where cm: "gw_connManager (gs_gateway s) = Some cm"
        "cm' = snd (registerConnection now (client_id ?c) (Some conn) cm)"
      by auto
    from cm(1) assms have inv: "cm_inv cm" "gs_opened s < 2 ^ 64 \<longrightarrow>
        dom (cm_conns cm) \<subseteq> client_id ` {c. unat c \<le> gs_opened s}"
      by (simp_all add: gw_inv_def manager_ok_def)
    have "dom (cm_conns cm) \<subseteq> client_id ` {c. unat c \<le> Suc (gs_opened s)}"
      if "Suc (gs_opened s) < 2 ^ 64"
    proof -
      have "{c. unat c \<le> gs_opened s} \<subseteq> {c :: 64 word. unat c \<le> Suc (gs_opened s)}" by auto
      with inv(2) that show ?thesis by (meson Suc_lessD image_mono subset_trans)
    qed
    then show "cm_inv cm' \<and> (gs_opened ?s < 2 ^ 64 \<longrightarrow>
        dom (cm_conns cm') \<subseteq> client_id ` {c. unat c \<le> gs_opened ?s})"
      using inv(1) le unfolding cm(2) by (simp add: cm_inv_register conns_after)
  qed
  then show ?thesis
    using assms by (simp add: gw_inv_def clients_ok_def)
qed

lemma gw_inv_cleanup:
  assumes "gw_inv s"
  shows "gw_inv (s\<lparr>gs_gateway := fst (serve_close order meta (gs_gateway s))\<rparr>)" (is "gw_inv ?s")
proof -
  have "manager_ok ?s"
  proof (rule manager_ok_shrink[of s _ "unregisterConnection order (cmt_clientID meta)"])
    show "manager_ok s" using assms by (simp add: gw_inv_def)
  qed (simp_all add: cm_inv_unregister conns_after Diff_subset)
  then show ?thesis using assms by (simp add: gw_inv_def clients_ok_def)
qed

lemma gw_inv_manage:
  assumes "gw_inv s" and "gw_connManager (gs_gateway s) = Some cm"
    and "background ev" and "cm_enabled ev cm"
  shows "gw_inv (s\<lparr>gs_gateway := with_manager (\<lambda>cm. fst (cm_apply ev cm)) (gs_gateway s)\<rparr>)"
    (is "gw_inv ?s")
proof -
  have "manager_ok ?s"
  proof (rule manager_ok_shrink[of s _ "\<lambda>cm. fst (cm_apply ev cm)"])
    show "manager_ok s" using assms(1) by (simp add: gw_inv_def)
    fix cm'
    assume "gw_connManager (gs_gateway s) = Some cm'" and inv: "cm_inv cm'"
    then have "cm' = cm" using assms(2) by simp
    then show "cm_inv (fst (cm_apply ev cm')) \<and>
        dom (cm_conns (fst (cm_apply ev cm'))) \<subseteq> dom (cm_conns cm')"
      using background_conns[OF assms(3,4)] cm_inv_apply[OF _ assms(4)] inv by blast
  qed simp_all
  then show ?thesis using assms(1) by (simp add: gw_inv_def clients_ok_def)
qed

lemma gw_inv_deliver:
  assumes inv: "gw_inv s" and c: "gw_clients (gs_gateway s) c = Some meta"
  shows "gw_inv (deliver env c meta now fr s)"
proof -
  obtain go meta' gw' w' acts
    where t: "serve_frame env now fr meta (gs_gateway s) (gs_world s) = (go, meta', gw', w', acts)"
    by (metis prod.exhaust)
  have ok: "turn_ok now meta (gs_gateway s) (go, meta', gw', w', acts)"
    using serve_frame_ok t by metis
  obtain evs where evs: "turn_events now (cmt_clientID meta) evs"
      "gw_connManager gw' = map_option (\<lambda>cm. fst (cm_run evs cm)) (gw_connManager (gs_gateway s))"
    using ok by (auto simp: turn_ok_def)
  let ?s = "deliver env c meta now fr s"
  have meta: "cmt_connID meta = c" "cmt_clientID meta = client_id c"
      "cmt_isAuthenticated meta \<Longrightarrow> (c, Established) \<in> set (gs_log s)"
    using inv c by (auto simp: gw_inv_def clients_ok_def)
  have "calls_ok (rev (map (\<lambda>(m, b). (c, Called m (rb_public b)))
      (frame_calls env now fr meta (gs_gateway s) (gs_world s))) @ gs_log s)"
  proof (rule calls_ok_append)
    show "calls_ok (gs_log s)" using inv by (simp add: gw_inv_def)
    fix c' m
    assume "(c', Called m False) \<in> set (rev (map (\<lambda>(m, b). (c, Called m (rb_public b)))
      (frame_calls env now fr meta (gs_gateway s) (gs_world s))))"
    then obtain b where "(m, b) \<in> set (frame_calls env now fr meta (gs_gateway s) (gs_world s))"
      "\<not> rb_public b" "c' = c" by auto
    then show "(c', Established) \<in> set (gs_log s)"
      using frame_calls_guarded(2)[of m b env now fr meta] meta(3) by blast
  qed
  then have "calls_ok (gs_log ?s)"
    by (auto simp: deliver_def t)
  moreover have "clients_ok ?s"
    using inv ok meta by (auto simp: deliver_def t gw_inv_def clients_ok_def turn_ok_def)
  moreover have "manager_ok ?s"
  proof (rule manager_ok_shrink[of s _ "\<lambda>cm. fst (cm_run evs cm)"])
    show "manager_ok s" using inv by (simp add: gw_inv_def)
  qed (simp_all add: deliver_def t evs(2) turn_events_manager[OF evs(1)] cm_inv_run)
  moreover have "gw_connCounter (gs_gateway ?s) = of_nat (gs_opened ?s)"
    using inv ok by (simp add: deliver_def t gw_inv_def turn_ok_def)
  ultimately show ?thesis by (simp add: gw_inv_def)
qed

lemma gw_inv_step:
  assumes "gw_inv s" and "gw_step env s s'"
  shows "gw_inv s'"
  using assms(2)
proof (cases rule: gw_step.cases)
  case (gw_publish routes)
  with assms(1) show ?thesis by (simp add: gw_inv_def clients_ok_def manager_ok_def)
next
  case (gw_outside w)
  with assms(1) show ?thesis by (simp add: gw_inv_def clients_ok_def manager_ok_def)
qed (use assms(1) in \<open>auto intro: gw_inv_open gw_inv_deliver gw_inv_cleanup gw_inv_manage\<close>)

interpretation gw: safe_system gw_start "gw_step env" gw_inv for env
  by unfold_locales (auto intro: gw_inv_start gw_inv_step)

section \<open>Properties\<close>

text \<open>
  C3. No handler of a private route is called on a connection that has no session: in the
  log of every reachable gateway, each call of a private route on a connection comes after
  an event in which a session was established on the same connection.
\<close>

theorem private_calls_need_session:
  assumes "reachable gw_start (gw_step env) s"
    and "gs_log s = newer @ (c, Called m False) # older"
  shows "(c, Established) \<in> set older"
proof -
  have "calls_ok (gs_log s)" using gw.reachable_inv[OF assms(1)] by (simp add: gw_inv_def)
  then have "calls_ok (newer @ (c, Called m False) # older)" by (simp add: assms(2))
  then show ?thesis
  proof (induction newer)
    case (Cons e newer)
    then show ?case by (cases e; cases "snd e") auto
  qed simp
qed

text \<open>
  A gateway with a login route and a private route, over a world that counts the calls of
  the private one.
\<close>

definition demo_codec :: "unit codec" where
  "demo_codec = \<lparr>cd_marshal = (\<lambda>m. Inr ''{}''), cd_json_err = (\<lambda>s. ''unexpected end of JSON input''),
                 cd_float_oor = (\<lambda>x. - (2 ^ 63))\<rparr>"

definition demo_login :: "(nat, unit) ws_handler" where
  "demo_login payload meta w =
     (w, Inr (Some \<lparr>whr_message = None, whr_json = print_obj [(''user_id'', show_nat 42)]\<rparr>))"

definition demo_count :: "(nat, unit) ws_handler" where
  "demo_count payload meta w = (w + 1, Inr None)"

definition demo_routes :: "string \<Rightarrow> (nat, unit) ws_handler route_binding option" where
  "demo_routes =
     [''login'' \<mapsto> \<lparr>rb_handler = demo_login, rb_public = True, rb_establishSession = True\<rparr>,
      ''play'' \<mapsto> \<lparr>rb_handler = demo_count, rb_public = False, rb_establishSession = False\<rparr>]"

definition demo_router :: "(nat, unit) ws_handler atomic_router" where
  "demo_router = router_store (Some (newAtomicRoutes (Some demo_routes))) newAtomicRouter"

definition demo_system :: "(nat, unit) gateway_system" where
  "demo_system =
     \<lparr>gs_gateway = newHandler demo_router (Some (newConnectionManager sample_config)),
      gs_world = 0, gs_broken = {}, gs_log = [], gs_opened = 0\<rparr>"

definition demo_frame :: "string \<Rightarrow> frame" where
  "demo_frame m = Frame 1 (print_obj [(''method'', print_string m), (''payload'', print_string ''{}'')])"

lemma demo_request:
  assumes "list_all plain_char m"
  shows "decode_request (print_obj [(''method'', print_string m), (''payload'', print_string ''{}'')]) =
    Some \<lparr>wrq_method = m, wrq_payload = ''{}''\<rparr>"
proof -
  have "json_parse (print_obj (map (\<lambda>(k, v, j). (k, v))
      [(''method'', print_string m, JStr m), (''payload'', print_string ''{}'', JStr ''{}'')])) =
    Some (JObj (map (\<lambda>(k, v, j). (k, j))
      [(''method'', print_string m, JStr m), (''payload'', print_string ''{}'', JStr ''{}'')]))"
    by (rule json_parse_print) (simp_all add: assms scalar_string plain_char_def)
  then show ?thesis
    by (simp add: decode_request_def decode_struct_def match_field_def set_request_field_def
        set_string_def)
qed

lemma user_id_reply:
  assumes "n < 2 ^ 53"
  shows "\<exists>x. unmarshal_any (print_obj [(''user_id'', show_nat n)]) = Some (GMap [(''user_id'', GFloat64 x)])
    \<and> f64_trunc x = int n"
proof -
  obtain x where x: "parse_float (show_nat n) = Some x" "f64_trunc x = int n"
    using parse_float_show_nat[OF assms] by blast
  have "json_parse (print_obj (map (\<lambda>(k, v, j). (k, v)) [(''user_id'', show_nat n, JNum (show_nat n))])) =
    Some (JObj (map (\<lambda>(k, v, j). (k, j)) [(''user_id'', show_nat n, JNum (show_nat n))]))"
    by (rule json_parse_print) (simp_all add: scalar_nat plain_char_def)
  with x show ?thesis by (simp add: unmarshal_any_def)
qed

text \<open>A client connects, logs in and calls the private route.\<close>

definition demo_connected :: "(nat, unit) gateway_system" where
  "demo_connected =
     demo_system\<lparr>gs_gateway := snd (serve_open 5 3 (gs_gateway demo_system)), gs_opened := 1\<rparr>"

definition demo_meta :: "bool \<Rightarrow> int \<Rightarrow> client_meta" where
  "demo_meta auth uid =
     \<lparr>cmt_connID = 1, cmt_conn = 3, cmt_clientID = client_id 1,
      cmt_isAuthenticated = auth, cmt_userID = uid, cmt_token = []\<rparr>"

lemma demo_connected_reachable: "reachable gw_start (gw_step env) demo_connected"
proof -
  have "reachable gw_start (gw_step env) demo_system"
    by (rule reachable_start) (auto simp: gw_start_def demo_system_def)
  moreover have "gw_step env demo_system demo_connected"
    using gw_step.gw_open[of env demo_system 5 3]
    by (simp add: demo_connected_def demo_system_def)
  ultimately show ?thesis by (rule reachable_step)
qed

lemma demo_connected_simps [simp]:
  "gw_clients (gs_gateway demo_connected) = [1 \<mapsto> demo_meta False 0]"
  "gw_router (gs_gateway demo_connected) = demo_router"
  "gs_world demo_connected = 0" "gs_broken demo_connected = {}" "gs_log demo_connected = []"
  "gw_connManager (gs_gateway demo_connected) =
     Some (snd (registerConnection 5 (client_id 1) (Some 3) (newConnectionManager sample_config)))"
  by (simp_all add: demo_connected_def demo_system_def newHandler_def demo_meta_def)

lemma demo_router_simps [simp]:
  "router_get demo_router ''login'' =
     Some \<lparr>rb_handler = demo_login, rb_public = True, rb_establishSession = True\<rparr>"
  "router_get demo_router ''play'' =
     Some \<lparr>rb_handler = demo_count, rb_public = False, rb_establishSession = False\<rparr>"
  by (simp_all add: demo_router_def demo_routes_def)

lemma plain_names: "list_all plain_char ''login''" "list_all plain_char ''play''"
  by (simp_all add: plain_char_def)

lemmas demo_requests = demo_request[OF plain_names(1)] demo_request[OF plain_names(2)]

lemma demo_login_turn:
  "\<exists>acts. serve_frame demo_codec 6 (demo_frame ''login'') (demo_meta False 0)
     (gs_gateway demo_connected) 0 =
   (True, demo_meta True 42,
    record_activity 6 (demo_meta True 42)
      (with_manager (registerUserConnection 42 (client_id 1)) (gs_gateway demo_connected)), 0, acts)"
proof -
  obtain x where x: "unmarshal_any (print_obj [(''user_id'', show_nat 42)]) =
      Some (GMap [(''user_id'', GFloat64 x)])" "f64_trunc x = 42"
    using user_id_reply[of 42] by auto
  have "print_obj [(''user_id'', show_nat 42)] \<noteq> []" by (simp add: print_obj_def)
  then show ?thesis
    using x
    by (simp add: demo_frame_def demo_requests serve_request_def Let_def demo_login_def
        dataFromWsHandlerResult_def establish_session_def extractUserID_def gmap_get_def
        f64_to_int64_def in_range_def demo_meta_def client_id_def)
qed

lemma private_calls_need_session_witness:
  "\<exists>s :: (nat, unit) gateway_system. reachable gw_start (gw_step demo_codec) s \<and>
     gs_log s = [] @ (1, Called ''play'' False) # [(1, Established), (1, Called ''login'' True)] \<and>
     (1, Established) \<in> set [(1 :: 64 word, Established), (1, Called ''login'' True)]"
proof -
  define s1 where "s1 = deliver demo_codec 1 (demo_meta False 0) 6 (demo_frame ''login'') demo_connected"
  define s2 where "s2 = deliver demo_codec 1 (demo_meta True 42) 7 (demo_frame ''play'') s1"
  obtain acts where t: "serve_frame demo_codec 6 (demo_frame ''login'') (demo_meta False 0)
     (gs_gateway demo_connected) 0 =
   (True, demo_meta True 42,
    record_activity 6 (demo_meta True 42)
      (with_manager (registerUserConnection 42 (client_id 1)) (gs_gateway demo_connected)), 0, acts)"
    using demo_login_turn by blast
  have auth: "cmt_isAuthenticated (demo_meta b i) = b" for b i by (simp add: demo_meta_def)
  have cb: "frame_calls demo_codec 6 (demo_frame ''login'') (demo_meta False 0) (gs_gateway demo_connected) 0 =
      [(''login'', \<lparr>rb_handler = demo_login, rb_public = True, rb_establishSession = True\<rparr>)]"
    by (simp add: frame_calls_request demo_frame_def demo_requests)
  have s1: "gw_clients (gs_gateway s1) 1 = Some (demo_meta True 42)" "gs_broken s1 = {}"
    "gw_router (gs_gateway s1) = demo_router"
    "gs_log s1 = [(1, Established), (1, Called ''login'' True)]"
    by (simp_all add: s1_def deliver_def t auth cb)
  have r1: "reachable gw_start (gw_step demo_codec) s1"
    using demo_connected_reachable unfolding s1_def
    by (rule reachable_step) (rule gw_deliver, simp_all)
  have r2: "reachable gw_start (gw_step demo_codec) s2"
    using r1 unfolding s2_def by (rule reachable_step) (rule gw_deliver, simp_all add: s1)
  have "frame_calls demo_codec 7 (demo_frame ''play'') (demo_meta True 42) (gs_gateway s1) (gs_world s1) =
      [(''play'', \<lparr>rb_handler = demo_count, rb_public = False, rb_establishSession = False\<rparr>)]"
    by (simp add: frame_calls_request demo_frame_def demo_requests s1 auth)
  moreover have "cmt_isAuthenticated (fst (snd (serve_frame demo_codec 7 (demo_frame ''play'')
      (demo_meta True 42) (gs_gateway s1) (gs_world s1))))"
    using serve_frame_ok[of 7 "demo_meta True 42" "gs_gateway s1" demo_codec "demo_frame ''play''" "gs_world s1"]
    by (auto simp: turn_ok_def auth split: prod.splits)
  ultimately have log: "gs_log s2 = [] @ (1, Called ''play'' False) # [(1, Established), (1, Called ''login'' True)]"
    by (auto simp: s2_def deliver_def auth s1 split: prod.split)
  show ?thesis using r2 log private_calls_need_session[OF r2 log] by blast
qed

text \<open>
  C21. One turn of the read loop touches the outside world only by calling the handler bound
  to the frame's method in the current snapshot, and only when the route is public or the
  connection has a session; and a turn gives a connection its session only by a successful
  call of a route that establishes sessions, answered with code 0.
\<close>

theorem frame_effects_need_authorised_call:
  assumes "serve_frame env now fr meta gw w = (go, meta', gw', w', acts)"
    and "w' \<noteq> w \<or> meta' \<noteq> meta"
  shows "\<exists>msg req route data.
    fr = Frame 1 msg \<and> decode_request msg = Some req \<and>
    router_get (gw_router gw) (wrq_method req) = Some route \<and>
    (rb_public route \<or> cmt_isAuthenticated meta) \<and>
    w' = fst (rb_handler route (wrq_payload req) meta w) \<and>
    (meta' \<noteq> meta \<longrightarrow> rb_establishSession route \<and> cmt_isAuthenticated meta' \<and>
       acts = [Respond (cmt_conn meta) (reply (wrq_method req) 0 ''success'' data)])"
proof -
  obtain ty msg where fr: "fr = Frame ty msg" "ty = 1"
    using assms by (cases fr) (auto split: if_splits)
  obtain req where req: "decode_request msg = Some req"
    using assms fr by (cases "decode_request msg") auto
  have turn: "serve_request env now req meta gw w = (go, meta', gw', w', acts)"
    using assms(1) fr req by simp
  obtain route where route: "router_get (gw_router gw) (wrq_method req) = Some route"
    using turn assms(2) by (cases "router_get (gw_router gw) (wrq_method req)")
      (auto simp: serve_request_def)
  have allowed: "rb_public route \<or> cmt_isAuthenticated meta"
    using turn assms(2) route by (auto simp: serve_request_def Let_def split: if_splits)
  obtain w1 r where h: "rb_handler route (wrq_payload req) meta w = (w1, r)"
    by (cases "rb_handler route (wrq_payload req) meta w")
  have world: "w' = w1"
    using turn route allowed h
    by (auto simp: serve_request_def Let_def split: sum.splits prod.splits)
  have session: "rb_establishSession route \<and> cmt_isAuthenticated meta' \<and>
      (\<exists>data. acts = [Respond (cmt_conn meta) (reply (wrq_method req) 0 ''success'' data)])"
    if "meta' \<noteq> meta"
    using turn route allowed h that
    by (auto simp: serve_request_def Let_def establish_session_def
        split: sum.splits prod.splits if_splits)
  show ?thesis
    using fr req route allowed h world session by auto
qed

lemma frame_effects_need_authorised_call_witness:
  "\<exists>msg req route. demo_frame ''login'' = Frame 1 msg \<and> decode_request msg = Some req \<and>
     router_get demo_router (wrq_method req) = Some route \<and> rb_establishSession route"
proof -
  obtain acts where t: "serve_frame demo_codec 6 (demo_frame ''login'') (demo_meta False 0)
     (gs_gateway demo_connected) 0 =
   (True, demo_meta True 42,
    record_activity 6 (demo_meta True 42)
      (with_manager (registerUserConnection 42 (client_id 1)) (gs_gateway demo_connected)), 0, acts)"
    using demo_login_turn by blast
  have ne: "demo_meta True 42 \<noteq> demo_meta False 0" by (simp add: demo_meta_def)
  show ?thesis
    using frame_effects_need_authorised_call[OF t] ne by auto
qed

text \<open>
  C39. As long as fewer than \<open>2 ^ 64\<close> connections have been opened, the client id given to a
  new connection is not in use: the connection manager never refuses a registration, so
  every new connection is watched and counted.
\<close>

theorem new_connection_is_registered:
  assumes "reachable gw_start (gw_step env) s" and "Suc (gs_opened s) < 2 ^ 64"
    and "gw_connManager (gs_gateway s) = Some cm"
  shows "fst (registerConnection now (client_id (gw_connCounter (gs_gateway s) + 1)) (Some conn) cm)
    \<and> (\<exists>cm'. gw_connManager (snd (serve_open now conn (gs_gateway s))) = Some cm' \<and>
         getConnection cm' (client_id (gw_connCounter (gs_gateway s) + 1)) = Some (Some conn) \<and>
         total_connections (getMetrics cm') = total_connections (getMetrics cm) + 1)"
proof -
  let ?c = "gw_connCounter (gs_gateway s) + 1"
  have inv: "gw_inv s" using gw.reachable_inv[OF assms(1)] .
  have "?c = of_nat (Suc (gs_opened s))" using inv by (simp add: gw_inv_def)
  then have c: "unat ?c = Suc (gs_opened s)"
    using assms(2) by (simp only: unat_of_nat) simp
  have dom: "dom (cm_conns cm) \<subseteq> client_id ` {c. unat c \<le> gs_opened s}"
    using inv assms(2,3) by (simp add: gw_inv_def manager_ok_def)
  have "client_id ?c \<notin> client_id ` {c. unat c \<le> gs_opened s}"
    using c by (auto simp: client_id_inj image_iff simp del: of_nat_Suc)
  then have "cm_conns cm (client_id ?c) = None" using dom by (auto simp: domIff)
  then show ?thesis
    using assms(3)
    by (auto simp: registerConnection_def getConnection_def getMetrics_def)
qed

lemma new_connection_is_registered_witness:
  "fst (registerConnection 8 (client_id (gw_connCounter (gs_gateway demo_connected) + 1)) (Some 4)
     (snd (registerConnection 5 (client_id 1) (Some 3) (newConnectionManager sample_config))))"
  by (rule new_connection_is_registered[THEN conjunct1, OF demo_connected_reachable[of demo_codec]])
     (simp_all add: demo_connected_def demo_system_def newHandler_def)

text \<open>
  C40. Nothing a client sends refreshes its heartbeat: whatever frame a turn handles, the
  instant the timeout check counts from, the number of missed beats and the alive flag of
  every client stay as they were. (The code's comments and the heartbeat design have
  messages keep a connection alive.)
\<close>

theorem frames_never_refresh_heartbeat:
  assumes "serve_frame env now fr meta gw w = (go, meta', gw', w', acts)"
    and "gw_connManager gw = Some cm"
  shows "\<exists>cm'. gw_connManager gw' = Some cm' \<and>
    map_option check_time (getHeartbeatState cm' c) = map_option check_time (getHeartbeatState cm c) \<and>
    map_option missed_count (getHeartbeatState cm' c) = map_option missed_count (getHeartbeatState cm c) \<and>
    map_option is_alive (getHeartbeatState cm' c) = map_option is_alive (getHeartbeatState cm c)"
proof -
  have act: "map_option f (getHeartbeatState (cm_recordActivity now cid x) c) =
      map_option f (getHeartbeatState x c)"
    if "\<And>st t. f (st\<lparr>last_activity := t\<rparr>) = f st" for f :: "connection_state \<Rightarrow> 'x" and cid x
    using that
    by (cases "cid = c") (auto simp: getHeartbeatState_def hb_getState_def cm_recordActivity_def
        hb_recordActivity_same option.map_comp comp_def)
  have acts: "map_option f (getHeartbeatState (fst (cm_run evs cm)) c) =
      map_option f (getHeartbeatState cm c)"
    if "turn_events now cid evs" "\<And>st t. f (st\<lparr>last_activity := t\<rparr>) = f st"
    for f :: "connection_state \<Rightarrow> 'x" and cid evs
    using that(1) act[of f, OF that(2)]
    by (auto simp: turn_events_def) (auto simp: getHeartbeatState_def registerUserConnection_def)
  obtain evs where evs: "turn_events now (cmt_clientID meta) evs"
      "gw_connManager gw' = map_option (\<lambda>cm. fst (cm_run evs cm)) (gw_connManager gw)"
    using serve_frame_ok[of now meta gw env fr w] assms(1) by (auto simp: turn_ok_def)
  show ?thesis
    using evs(2) assms(2) acts[OF evs(1), of check_time] acts[OF evs(1), of missed_count]
      acts[OF evs(1), of is_alive]
    by (simp add: check_time_def)
qed

lemma frames_never_refresh_heartbeat_witness:
  "\<exists>cm'. gw_connManager (record_activity 6 (demo_meta True 42)
      (with_manager (registerUserConnection 42 (client_id 1)) (gs_gateway demo_connected))) = Some cm' \<and>
    map_option check_time (getHeartbeatState cm' (client_id 1)) = Some 5"
proof -
  obtain acts where t: "serve_frame demo_codec 6 (demo_frame ''login'') (demo_meta False 0)
     (gs_gateway demo_connected) 0 =
   (True, demo_meta True 42,
    record_activity 6 (demo_meta True 42)
      (with_manager (registerUserConnection 42 (client_id 1)) (gs_gateway demo_connected)), 0, acts)"
    using demo_login_turn by blast
  have "map_option check_time (getHeartbeatState (snd (registerConnection 5 (client_id 1) (Some 3)
      (newConnectionManager sample_config))) (client_id 1)) = Some 5"
    by (simp add: cm_eval getHeartbeatState_def hb_getState_def check_time_def)
  then show ?thesis
    using frames_never_refresh_heartbeat[OF t demo_connected_simps(6), of "client_id 1"] by auto
qed

end
