(* ===== verification/Session_Subscriber.thy ===== *)
theory Session_Subscriber
  imports Ws_Handler
begin

text \<open>
  \<open>gateway/internal/ws/session_subscriber.go\<close>: the gateway's side of single sessions. The
  user service publishes \<open>{"user_id":N}\<close> when a login replaces a session; every gateway
  kicks the user's connection. The Redis subscription is third-party: the loop is modelled
  over what its channel delivers.
\<close>

definition sessionInvalidateChannel :: string where
  "sessionInvalidateChannel = ''kd48:session:invalidate''"

definition kick_reason :: string where
  "kick_reason = ''session replaced''"

definition set_user_id :: "string \<Rightarrow> json \<Rightarrow> int \<Rightarrow> int option" where
  "set_user_id n v old = set_int64 v old"

definition decode_invalidate :: "string \<Rightarrow> int option" where
  "decode_invalidate payload =
     Option.bind (json_parse payload) (decode_struct [''user_id''] set_user_id 0)"

definition handleMessage ::
  "string \<Rightarrow> connection_manager \<Rightarrow> connection_manager \<times> ws_action list" where
  "handleMessage payload cm =
     (case decode_invalidate payload of
        None \<Rightarrow> (cm, [])
      | Some uid \<Rightarrow> disconnectByUserID uid kick_reason cm)"

text \<open>
  \<open>Start\<close>: the subscription may fail; then each turn of the loop sees the context done, the
  channel closed or a message. The result says whether the loop has returned.
\<close>

datatype sub_event = Sub_done | Sub_closed | Sub_message string

fun subscriber_loop ::
  "sub_event list \<Rightarrow> connection_manager \<Rightarrow> bool \<times> connection_manager \<times> ws_action list" where
  "subscriber_loop [] cm = (False, cm, [])"
| "subscriber_loop (Sub_done # evs) cm = (True, cm, [])"
| "subscriber_loop (Sub_closed # evs) cm = (True, cm, [])"
| "subscriber_loop (Sub_message p # evs) cm =
     (let (cm1, acts1) = handleMessage p cm;
          (stopped, cm2, acts2) = subscriber_loop evs cm1
      in (stopped, cm2, acts1 @ acts2))"

definition subscriber_start ::
  "bool \<Rightarrow> sub_event list \<Rightarrow> connection_manager
     \<Rightarrow> bool \<times> connection_manager \<times> ws_action list" where
  "subscriber_start subscribed evs cm =
     (if \<not> subscribed then (True, cm, []) else subscriber_loop evs cm)"

section \<open>Facts\<close>

lemma decode_invalidate_nat:
  "decode_invalidate (print_obj [(''user_id'', show_nat n)]) =
     (if int n < 2 ^ 63 then Some (int n) else None)"
proof -
  have "json_parse (print_obj (map (\<lambda>(k, v, j). (k, v)) [(''user_id'', show_nat n, JNum (show_nat n))])) =
    Some (JObj (map (\<lambda>(k, v, j). (k, j)) [(''user_id'', show_nat n, JNum (show_nat n))]))"
    by (rule json_parse_print) (simp_all add: scalar_nat plain_char_def)
  then show ?thesis
    by (simp add: decode_invalidate_def decode_struct_def match_field_def set_user_id_def
        set_int64_def parse_int_def in_range_def)
qed

text \<open>The subscriber only ever kicks: its loop is a run of kick events of the manager.\<close>

lemma subscriber_loop_kicks:
  "\<exists>kicks. fst (snd (subscriber_loop evs cm)) =
       fst (cm_run (map (\<lambda>uid. Ev_kick uid kick_reason) kicks) cm) \<and>
     snd (snd (subscriber_loop evs cm)) =
       snd (cm_run (map (\<lambda>uid. Ev_kick uid kick_reason) kicks) cm)"
proof (induction evs cm rule: subscriber_loop.induct)
  case (4 p evs cm)
  define cm1 where "cm1 = fst (handleMessage p cm)"
  obtain kicks where k: "fst (snd (subscriber_loop evs cm1)) =
       fst (cm_run (map (\<lambda>uid. Ev_kick uid kick_reason) kicks) cm1)"
     "snd (snd (subscriber_loop evs cm1)) =
       snd (cm_run (map (\<lambda>uid. Ev_kick uid kick_reason) kicks) cm1)"
    using 4 unfolding cm1_def by (metis prod.collapse)
  show ?case
  proof (cases "decode_invalidate p")
    case None
    then have "handleMessage p cm = (cm, [])" by (simp add: handleMessage_def)
    then show ?thesis using k by (auto simp: cm1_def split_beta Let_def)
  next
    case (Some uid)
    then have h: "handleMessage p cm = disconnectByUserID uid kick_reason cm"
      by (simp add: handleMessage_def)
    then show ?thesis
      using k by (intro exI[of _ "uid # kicks"]) (simp add: cm1_def split_beta Let_def)
  qed
qed (auto intro: exI[of _ "[]"])

lemma kicks_enabled: "cm_run_enabled (map (\<lambda>uid. Ev_kick uid kick_reason) kicks) cm"
  by (induction kicks arbitrary: cm) simp_all

text \<open>The turn of the read loop that handles a login whose reply is an object.\<close>

lemma ingress_login_turn:
  assumes "decode_request msg = Some req"
    and "router_get (gw_router gw) (wrq_method req) =
           Some \<lparr>rb_handler = wrapIngress call route, rb_public = True, rb_establishSession = True\<rparr>"
    and "call route (wrq_payload req) w = (w', Inr json)"
    and "unmarshal_any json = Some (GMap ms)" and "json \<noteq> []"
  shows "serve_frame env now (Frame 1 msg) meta gw w =
      (let (meta', gw') = establish_session (cd_float_oor env) (GMap ms) meta gw
       in (True, meta', if cmt_clientID meta' \<noteq> [] then record_activity now meta' gw' else gw', w',
           [Respond (cmt_conn meta) (reply (wrq_method req) 0 ''success'' (GMap ms))]))"
  using assms
  by (simp add: serve_request_def Let_def wrapIngress_def dataFromWsHandlerResult_def split: prod.split)

lemma ingress_login_nobody:
  assumes "decode_request msg = Some req"
    and "router_get (gw_router gw) (wrq_method req) =
           Some \<lparr>rb_handler = wrapIngress call route, rb_public = True, rb_establishSession = True\<rparr>"
    and "call route (wrq_payload req) w = (w', Inr json)"
    and "unmarshal_any json = Some (GMap ms)" and "json \<noteq> []"
    and "gw_connManager gw = Some cm" and "gmap_get ms ''user_id'' = None"
  shows "\<exists>meta' gw' acts cm'.
    serve_frame env now (Frame 1 msg) meta gw w = (True, meta', gw', w', acts) \<and>
    cmt_isAuthenticated meta' \<and> cmt_userID meta' = cmt_userID meta \<and>
    gw_connManager gw' = Some cm' \<and> cm_users cm' = cm_users cm"
  using ingress_login_turn[OF assms(1-5)] assms(6,7)
  by (simp add: establish_session_def extractUserID_def Let_def cm_recordActivity_def)

section \<open>Properties\<close>

text \<open>
  Every invalidation message kicks exactly the user it names, with the reason
  \<open>session replaced\<close>, if the id fits an \<open>int64\<close>; a message for a larger id (they are
  unsigned in the user service) is dropped and the old session stays connected.
\<close>

theorem invalidation_kicks_named_user:
  "handleMessage (print_obj [(''user_id'', show_nat n)]) cm =
     (if n < 2 ^ 63 then cm_apply (Ev_kick (int n) ''session replaced'') cm else (cm, []))"
proof -
  have "int n < 2 ^ 63 \<longleftrightarrow> n < 2 ^ 63" by (metis of_nat_less_numeral_power_cancel_iff)
  then show ?thesis
    by (simp add: handleMessage_def decode_invalidate_nat kick_reason_def)
qed

text \<open>
  Whatever arrives on the channel, the subscriber keeps the manager's invariant: its
  counters stay consistent and every open connection keeps its heartbeat state; messages
  that do not decode change nothing.
\<close>

theorem subscriber_keeps_invariant:
  assumes "cm_inv cm"
  shows "cm_inv (fst (snd (subscriber_start subscribed evs cm)))"
proof -
  obtain kicks where k: "fst (snd (subscriber_loop evs cm)) =
       fst (cm_run (map (\<lambda>uid. Ev_kick uid kick_reason) kicks) cm)"
    using subscriber_loop_kicks by blast
  have "cm_inv (fst (cm_run (map (\<lambda>uid. Ev_kick uid kick_reason) kicks) cm))"
    by (rule cm_inv_run[OF assms kicks_enabled])
  then show ?thesis using assms k by (simp add: subscriber_start_def)
qed

lemma subscriber_keeps_invariant_witness:
  "cm_inv (fst (snd (subscriber_start True [Sub_message ''no json'', Sub_closed] one_client)))"
  by (rule subscriber_keeps_invariant[OF one_client_facts(1)])

text \<open>
  A login over the WebSocket whose reply carries a numeric \<open>user_id\<close> below \<open>2 ^ 53\<close>
  establishes the session, records the user on the connection and maps the user to the
  connection's client id, so that a later invalidation message for that user kicks this
  connection; a reply without a member of that exact name establishes the session but maps
  nobody.
\<close>

theorem login_maps_user:
  assumes "decode_request msg = Some req"
    and "router_get (gw_router gw) (wrq_method req) =
           Some \<lparr>rb_handler = wrapIngress call route, rb_public = True, rb_establishSession = True\<rparr>"
    and "call route (wrq_payload req) w = (w', Inr json)"
    and "unmarshal_any json = Some (GMap ms)" and "json \<noteq> []"
    and "gw_connManager gw = Some cm"
    and "gmap_get ms ''user_id'' = None \<or>
         (0 < uid \<and> uid < 2 ^ 53 \<and> json = print_obj [(''user_id'', show_nat uid)])"
  shows "\<exists>meta' gw' acts cm'.
    serve_frame env now (Frame 1 msg) meta gw w = (True, meta', gw', w', acts) \<and>
    cmt_isAuthenticated meta' \<and> gw_connManager gw' = Some cm' \<and> cm_conns cm' = cm_conns cm \<and>
    (if gmap_get ms ''user_id'' = None
     then cm_users cm' = cm_users cm
     else cmt_userID meta' = int uid \<and>
          cm_users cm' = (cm_users cm)(int uid \<mapsto> cmt_clientID meta))"
proof -
  note turn = ingress_login_turn[OF assms(1-5), of env now meta]
  show ?thesis
  proof (cases "gmap_get ms ''user_id''")
    case None
    then show ?thesis
      using turn assms(6)
      by (simp add: establish_session_def extractUserID_def Let_def cm_recordActivity_def)
  next
    case (Some v)
    then have n: "0 < uid" "uid < 2 ^ 53" and json: "json = print_obj [(''user_id'', show_nat uid)]"
      using assms(7) by auto
    obtain x where x: "ms = [(''user_id'', GFloat64 x)]" "f64_trunc x = int uid"
      using user_id_reply[OF n(2)] assms(4) json by auto
    have uid: "extractUserID (cd_float_oor env) (GMap ms) = int uid"
      using n(2) by (simp add: extractUserID_def x gmap_get_def f64_to_int64_def in_range_def)
    show ?thesis
      using turn assms(6) n(1) Some
      by (simp add: establish_session_def uid Let_def cm_recordActivity_def
          registerUserConnection_def)
  qed
qed

definition demo_ingress :: "string \<Rightarrow> string \<Rightarrow> nat \<Rightarrow> nat \<times> (handler_error, string) result" where
  "demo_ingress route payload w = (w, Inr (print_obj [(''user_id'', show_nat 42)]))"

definition ingress_gateway :: "(nat, unit) gateway" where
  "ingress_gateway = newHandler
     (router_store (Some (newAtomicRoutes (Some
        [''login'' \<mapsto> \<lparr>rb_handler = wrapIngress demo_ingress ''/user.v1/Login'', rb_public = True,
                      rb_establishSession = True\<rparr>]))) newAtomicRouter)
     (Some (newConnectionManager sample_config))"

lemma login_maps_user_witness:
  "\<exists>meta' gw' acts cm'.
    serve_frame demo_codec 6 (demo_frame ''login'') (demo_meta False 0) ingress_gateway 0 =
      (True, meta', gw', 0, acts) \<and>
    gw_connManager gw' = Some cm' \<and> cm_users cm' = [42 \<mapsto> client_id 1]"
proof -
  obtain x where x: "unmarshal_any (print_obj [(''user_id'', show_nat 42)]) =
      Some (GMap [(''user_id'', GFloat64 x)])"
    using user_id_reply[of 42] by auto
  have users: "cm_users (newConnectionManager sample_config) = Map.empty"
    by (simp add: newConnectionManager_def)
  have some: "gmap_get [(''user_id'', GFloat64 x)] ''user_id'' \<noteq> None" by (simp add: gmap_get_def)
  have ne: "print_obj [(''user_id'', show_nat 42)] \<noteq> []" by (simp add: print_obj_def)
  have id: "cmt_clientID (demo_meta False 0) = client_id 1" by (simp add: demo_meta_def)
  have "\<exists>meta' gw' acts cm'.
    serve_frame demo_codec 6 (Frame 1 (print_obj [(''method'', print_string ''login''),
        (''payload'', print_string ''{}'')])) (demo_meta False 0) ingress_gateway 0 =
      (True, meta', gw', 0, acts) \<and>
    cmt_isAuthenticated meta' \<and> gw_connManager gw' = Some cm' \<and>
    cm_conns cm' = cm_conns (newConnectionManager sample_config) \<and>
    (if gmap_get [(''user_id'', GFloat64 x)] ''user_id'' = None
     then cm_users cm' = cm_users (newConnectionManager sample_config)
     else cmt_userID meta' = int 42 \<and>
          cm_users cm' = (cm_users (newConnectionManager sample_config))
            (int 42 \<mapsto> cmt_clientID (demo_meta False 0)))"
    by (rule login_maps_user[OF demo_requests(1), where route = "''/user.v1/Login''"
          and call = demo_ingress and json = "print_obj [(''user_id'', show_nat 42)]"])
       (simp_all add: ingress_gateway_def newHandler_def demo_ingress_def x ne)
  then show ?thesis using some unfolding demo_frame_def users id by auto
qed

end
