(* ===== verification/Gateway_Start.thy ===== *)
theory Gateway_Start
  imports Service_Start Session_Subscriber
begin

text \<open>
  The start and the end of the gateway process, \<open>gateway/cmd/gateway/main.go\<close> with the routes
  of \<open>router.go\<close> and the client of \<open>pkg/rediskit\<close>: the order in which the parts of the
  gateway are made, what each is given, and every way to end early. The environment and the
  effects are those of \<open>Service_Start\<close>, with the gateway's own effects beside them.
\<close>

section \<open>The HTTP routes (\<open>router.go\<close>)\<close>

datatype http_answer = Plain_text string | Upgrade_required | Serve_websocket | No_route

text \<open>
  Fiber decides whether a path belongs to the path of a \<open>Get\<close> or of a \<open>Use\<close>: \<open>get\<close> and \<open>below\<close>.
  The routes are tried in the order of their registration; the first that answers ends it, and
  the check of the upgrade passes on to the next when it holds.
\<close>

definition setupRoutes ::
  "(string \<Rightarrow> string \<Rightarrow> bool) \<Rightarrow> (string \<Rightarrow> string \<Rightarrow> bool) \<Rightarrow> string \<Rightarrow> bool \<Rightarrow> http_answer" where
  "setupRoutes get below path upgrade =
     (if get ''/health'' path then Plain_text ''ok''
      else if below ''/ws'' path \<and> \<not> upgrade then Upgrade_required
      else if get ''/ws'' path then Serve_websocket
      else No_route)"

lemma websocket_needs_upgrade:
  assumes "\<And>path. get ''/ws'' path \<Longrightarrow> below ''/ws'' path"
  shows "setupRoutes get below path upgrade = Serve_websocket \<Longrightarrow> upgrade"
  using assms by (auto simp: setupRoutes_def split: if_splits)

section \<open>The Redis client (\<open>rediskit\<close>)\<close>

definition rediskit_options :: "redis_conf \<Rightarrow> redis_options" where
  "rediskit_options c =
     \<lparr>rop_addr = rdc_addr c, rop_password = rdc_password c, rop_db = rdc_db c, rop_poolSize = 0,
      rop_minIdleConns = 0, rop_dialTimeout = 0, rop_readTimeout = 0, rop_writeTimeout = 0\<rparr>"

definition rediskit_newClient :: "(redis_options \<Rightarrow> bool) \<Rightarrow> redis_conf \<Rightarrow> redis_options option" where
  "rediskit_newClient ping c = (if ping (rediskit_options c) then Some (rediskit_options c) else None)"

section \<open>The process\<close>

text \<open>Times in nanoseconds.\<close>

definition gateway_heartbeat :: heartbeat_config where
  "gateway_heartbeat =
     \<lparr>hc_interval = 30000000000, hc_timeout = 45000000000, hc_max_missed = 3,
      hc_idle_timeout = 1800000000000\<rparr>"

datatype gateway_failure =
    Base_failed start_failure
  | Redis_failed redis_options
  | Resolver_failed
  | Bootstrap_failed "string build_error"

datatype gateway_effect =
    Base start_effect
  | Bootstrapped
  | Meta_watched
  | Connections_swept
  | Invalidations_subscribed string
  | Http_listening int
  | Meta_cancelled
  | Sweeps_cancelled
  | Connection_manager_stopped
  | Http_shut_down
  | Subscriber_cancelled
  | Manager_closed

record ('w, 'm) gateway_process =
  gp_manager :: "('w, 'm) manager"
  gp_handler :: "('w, 'm) gateway"
  gp_effects :: "gateway_effect list"
  gp_deferred :: "gateway_effect list"

type_synonym ('w, 'm) gateway_started =
  "(nat option \<times> gateway_failure \<times> gateway_effect list, ('w, 'm) gateway_process) result"

text \<open>A failure with no exit code is a panic and runs the deferred calls.\<close>

definition gw_panics ::
  "gateway_failure \<Rightarrow> gateway_effect list \<Rightarrow> gateway_effect list \<Rightarrow> ('w, 'm) gateway_started" where
  "gw_panics f effs deferred = Inl (None, f, effs @ deferred)"

text \<open>
  The connections, from the tracer to the resolver: the configuration with the effects and
  the deferred calls so far.
\<close>

definition gateway_connect ::
  "('v, 'e) start_env \<Rightarrow> bool \<Rightarrow> 'e
     \<Rightarrow> (nat option \<times> gateway_failure \<times> gateway_effect list,
         config \<times> gateway_effect list \<times> gateway_effect list) result" where
  "gateway_connect env resolver_ok e =
     (case conf_load (st_read_in env) (st_unmarshal env) ''./config.yaml'' of
        Inl x \<Rightarrow> Inl (None, Base_failed (Config_unusable x), [])
      | Inr c \<Rightarrow>
          (let name = sc_name (cf_server c) @ ''-gateway'';
               effs1 = [Base (Logging_to (lc_level (cf_log c)) (lc_file_path (cf_log c)) ''gateway.log'')];
               opts = rediskit_options (cf_redis c)
           in if \<not> st_tracer env name then Inl (None, Base_failed Tracer_failed, effs1)
              else
                (let effs2 = effs1 @ [Base (Tracing name)]; def2 = [Base Tracing_shut_down]
                 in case rediskit_newClient (st_redis_ping env) (cf_redis c) of
                      None \<Rightarrow> Inl (None, Redis_failed opts, effs2 @ def2)
                    | Some opts \<Rightarrow>
                        (let effs3 = effs2 @ [Base (Redis_opened [] opts)]; def3 = Base Redis_pools_closed # def2
                         in case fst (registry_newClient (st_etcd env) (ec_endpoints (cf_etcd c)) e) of
                              Some x \<Rightarrow> Inl (None, Base_failed (Etcd_unusable x), effs3 @ def3)
                            | None \<Rightarrow>
                                (let effs4 = effs3 @ [Base (Etcd_connected (ec_endpoints (cf_etcd c)))];
                                     def4 = Base Etcd_closed # def3
                                 in if \<not> resolver_ok then Inl (None, Resolver_failed, effs4 @ def4)
                                    else Inr (c, effs4, def4))))))"

definition gateway_main ::
  "('v, 'e) start_env \<Rightarrow> bool \<Rightarrow> 'w build_env \<Rightarrow> int \<Rightarrow> 'e \<Rightarrow> ('w, 'm) gateway_started" where
  "gateway_main env resolver_ok benv now e =
     bind_result (gateway_connect env resolver_ok e)
       (\<lambda>(c, effs, deferred).
          (let tpre = gc_types_prefix (cf_gateway c); rpre = gc_routes_prefix (cf_gateway c)
           in case bootstrap benv now (read_meta (st_etcd env) tpre rpre e) (newManager newAtomicRouter tpre rpre) of
                (Some x, m) \<Rightarrow> Inl (Some 1, Bootstrap_failed x, effs)
              | (None, m) \<Rightarrow>
                  Inr \<lparr>gp_manager = m,
                       gp_handler = newHandler (m_router m) (Some (newConnectionManager gateway_heartbeat)),
                       gp_effects = effs @ [Bootstrapped, Meta_watched, Connections_swept,
                         Invalidations_subscribed sessionInvalidateChannel, Http_listening (gc_port (cf_gateway c))],
                       gp_deferred = [Subscriber_cancelled, Sweeps_cancelled, Manager_closed, Meta_cancelled] @ deferred\<rparr>))"

text \<open>
  After the signal: the explicit calls, then the deferred ones, after which \<open>main\<close> returns and
  the process ends, whatever its goroutines are doing. \<open>Stop\<close> of the connection manager and
  \<open>Close\<close> of the gateway's manager change their parts' states. What else happens between the
  calls is in \<open>Deployment\<close>.
\<close>

definition shutdown_calls :: "('w, 'm) gateway_process \<Rightarrow> gateway_effect list" where
  "shutdown_calls p =
     [Meta_cancelled, Sweeps_cancelled, Connection_manager_stopped, Http_shut_down] @ gp_deferred p"

definition shutdown_call :: "gateway_effect \<Rightarrow> ('w, 'm) gateway_process \<Rightarrow> ('w, 'm) gateway_process" where
  "shutdown_call x p =
     (case x of
        Connection_manager_stopped \<Rightarrow> p\<lparr>gp_handler := with_manager cm_stop (gp_handler p)\<rparr>
      | Manager_closed \<Rightarrow> p\<lparr>gp_manager := m_close (gp_manager p)\<rparr>
      | _ \<Rightarrow> p)
     \<lparr>gp_effects := gp_effects p @ [x]\<rparr>"

section \<open>Facts\<close>

lemma gateway_connect_conf:
  "gateway_connect env rok e = Inr (c, effs, deferred) \<Longrightarrow>
     conf_load (st_read_in env) (st_unmarshal env) ''./config.yaml'' = Inr c"
  by (auto simp: gateway_connect_def Let_def split: sum.splits if_splits option.splits)

lemma gateway_main_ok:
  fixes p :: "('w, 'm) gateway_process"
  assumes "gateway_main env rok benv now e = Inr p"
  obtains c tpre rpre where
    "conf_load (st_read_in env) (st_unmarshal env) ''./config.yaml'' = Inr c"
    "tpre = gc_types_prefix (cf_gateway c)" "rpre = gc_routes_prefix (cf_gateway c)"
    "bootstrap benv now (read_meta (st_etcd env) tpre rpre e) (newManager newAtomicRouter tpre rpre) =
       (None, gp_manager p)"
    "gp_handler p = newHandler (m_router (gp_manager p)) (Some (newConnectionManager gateway_heartbeat))"
    "\<exists>deferred. gp_deferred p = [Subscriber_cancelled, Sweeps_cancelled, Manager_closed, Meta_cancelled] @ deferred"
proof (cases "gateway_connect env rok e")
  case (Inl x)
  then show ?thesis using assms by (simp add: gateway_main_def)
next
  case (Inr y)
  obtain c effs deferred where y: "y = (c, effs, deferred)" by (metis prod.exhaust)
  let ?b = "bootstrap benv now (read_meta (st_etcd env) (gc_types_prefix (cf_gateway c)) (gc_routes_prefix (cf_gateway c)) e)
       (newManager newAtomicRouter (gc_types_prefix (cf_gateway c)) (gc_routes_prefix (cf_gateway c))) ::
       string build_error option \<times> ('w, 'm) manager"
  obtain err m where b: "?b = (err, m)" by (cases ?b)
  show ?thesis
  proof (cases err)
    case None
    then show ?thesis
      using assms that[OF gateway_connect_conf[OF Inr[unfolded y]] refl refl] b
      by (auto simp: gateway_main_def Inr y Let_def)
  next
    case (Some z)
    then show ?thesis using assms b by (simp add: gateway_main_def Inr y Let_def)
  qed
qed

section \<open>Properties\<close>

text \<open>
  A gateway that has started is in the first states of its parts: the manager of its
  routes in a state reached by a bootstrap from the empty one, the handler in a starting
  state of the frame loop, serving what the bootstrap published, with a connection manager
  that runs the heartbeat of the deployment. What holds of all reachable states of the parts
  holds of the process from here on.
\<close>

theorem started_gateway_parts:
  fixes p :: "('w, 'm) gateway_process"
  assumes "gateway_main env rok benv now e = Inr p"
  shows "reachable m_start (m_step benv) (gp_manager p) \<and>
    gw_start \<lparr>gs_gateway = gp_handler p, gs_world = w, gs_broken = {}, gs_log = [], gs_opened = 0\<rparr> \<and>
    gw_router (gp_handler p) = m_router (gp_manager p) \<and>
    (\<exists>cm. gw_connManager (gp_handler p) = Some cm \<and> reachable manager_start cm_step cm \<and>
          hm_config (cm_heartbeat cm) = gateway_heartbeat)"
proof -
  obtain c tpre rpre where b: "bootstrap benv now (read_meta (st_etcd env) tpre rpre e) (newManager newAtomicRouter tpre rpre) =
       (None, gp_manager p)"
    "gp_handler p = newHandler (m_router (gp_manager p)) (Some (newConnectionManager gateway_heartbeat))"
    using assms by (rule gateway_main_ok) blast
  have "m_start (newManager newAtomicRouter tpre rpre :: ('w, 'm) manager)" by (auto simp: m_start_def)
  then have "reachable m_start (m_step benv) (gp_manager p)"
    using m_bootstrap[of benv "newManager newAtomicRouter tpre rpre" now "read_meta (st_etcd env) tpre rpre e"] b(1)
    by (metis reachable_start reachable_step snd_conv)
  moreover have "reachable manager_start cm_step (newConnectionManager gateway_heartbeat)"
    by (rule reachable_start) (auto simp: manager_start_def)
  ultimately show ?thesis
    by (auto simp: b(2) gw_start_def newHandler_def newConnectionManager_def newHeartbeatManager_def)
qed

definition gateway_up :: "('v, 'e) start_env \<Rightarrow> config \<Rightarrow> 'e \<Rightarrow> bool" where
  "gateway_up env c e \<longleftrightarrow>
     conf_load (st_read_in env) (st_unmarshal env) ''./config.yaml'' = Inr c \<and>
     (\<forall>name. st_tracer env name) \<and> st_redis_ping env (rediskit_options (cf_redis c)) \<and>
     eo_connect (st_etcd env) (ec_endpoints (cf_etcd c)) \<and>
     (\<forall>k. \<exists>vs. eo_get (st_etcd env) k e = Inr vs) \<and> (\<forall>p. \<exists>r. eo_range (st_etcd env) p e = Inr r)"

lemma gateway_connect_up:
  assumes "gateway_up env c e"
  shows "\<exists>effs deferred. gateway_connect env True e = Inr (c, effs, deferred)"
proof -
  obtain vs where "eo_get (st_etcd env) ''health'' e = Inr vs" using assms unfolding gateway_up_def by blast
  then show ?thesis
    using assms by (simp add: gateway_up_def gateway_connect_def Let_def rediskit_newClient_def registry_newClient_def)
qed

text \<open>
  On a freshly seeded cluster the gateway comes up and serves exactly the two methods of the
  user service, whatever the order of the keys in etcd's answer.
\<close>

lemma seeded_gateway_start:
  fixes benv :: "'w build_env"
  assumes "etcd_contract (st_etcd env) kv" and "seed_main (st_etcd env) codec flag e0 = (0, e)"
    and "\<forall>k. prefix ''kd48/meta/'' k \<longrightarrow> kv e0 k = None" and "codec_agrees codec benv"
    and "gateway_up env c e"
    and "gc_types_prefix (cf_gateway c) = ''kd48/meta/service-types/''"
    and "gc_routes_prefix (cf_gateway c) = ''kd48/meta/gateway-routes/''"
    and "be_dial_ok benv 0 ''etcd:///kd48/user-service'' round_robin_config"
  shows "\<exists>p :: ('w, 'm) gateway_process. gateway_main env True benv now e = Inr p \<and>
    m_activeConns (gp_manager p) = [0] \<and>
    (\<forall>method. router_get (gw_router (gp_handler p)) method =
      (if method \<in> {''/user.v1.UserService/Login'', ''/user.v1.UserService/Register''}
       then Some \<lparr>rb_handler = wrapIngress (be_call benv 0) method, rb_public = True, rb_establishSession = True\<rparr>
       else None))"
proof -
  let ?t = "gc_types_prefix (cf_gateway c)" and ?r = "gc_routes_prefix (cf_gateway c)"
  let ?b = "bootstrap benv now (read_meta (st_etcd env) ?t ?r e) (newManager newAtomicRouter ?t ?r) ::
       string build_error option \<times> ('w, 'm) manager"
  obtain types routes where rd: "eo_range (st_etcd env) ?t e = Inr types" "eo_range (st_etcd env) ?r e = Inr routes"
    using assms(5) unfolding gateway_up_def by blast
  obtain err m where b: "?b = (err, m)" by (cases ?b)
  note sb = seeded_bootstrap[OF assms(1-4,6,7) rd assms(8) b]
  obtain effs deferred where g: "gateway_connect env True e = Inr (c, effs, deferred)"
    using gateway_connect_up[OF assms(5)] by blast
  show ?thesis
    using sb b by (simp add: gateway_main_def g Let_def newHandler_def)
qed

lemma demo_gateway_up: "gateway_up demo_start start_config e"
  by (simp add: gateway_up_def demo_start_simps) (simp add: demo_start_def demo_etcd_def)

lemma start_config_prefixes:
  "gc_types_prefix (cf_gateway start_config) = ''kd48/meta/service-types/''"
  "gc_routes_prefix (cf_gateway start_config) = ''kd48/meta/gateway-routes/''"
  by (simp_all add: start_config_def demo_file_def fill_prefixes_def demo_config_def with_default_def)

lemma demo_gateway:
  obtains p :: "(nat, nat) gateway_process" where "gateway_main demo_start True seed_env 0 seeded = Inr p"
proof -
  have clean: "\<forall>k. prefix ''kd48/meta/'' k \<longrightarrow> map_of ([] :: (string \<times> string) list) k = None" by simp
  have dial: "be_dial_ok seed_env 0 ''etcd:///kd48/user-service'' round_robin_config" by (simp add: seed_env_def)
  let ?t = "gc_types_prefix (cf_gateway start_config)" and ?r = "gc_routes_prefix (cf_gateway start_config)"
  let ?b = "bootstrap seed_env 0 (read_meta demo_etcd ?t ?r seeded) (newManager newAtomicRouter ?t ?r) ::
       string build_error option \<times> (nat, nat) manager"
  obtain err m where b: "?b = (err, m)" by (cases ?b)
  obtain types routes where rd: "eo_range demo_etcd ?t seeded = Inr types" "eo_range demo_etcd ?r seeded = Inr routes"
    by (simp add: demo_etcd_def)
  have "err = None"
    using seeded_bootstrap[OF demo_etcd_contract seeded_ok clean seed_env_agrees start_config_prefixes rd dial b] by simp
  moreover obtain effs deferred where g: "gateway_connect demo_start True seeded = Inr (start_config, effs, deferred)"
    using gateway_connect_up[OF demo_gateway_up] by blast
  ultimately show ?thesis using that b by (simp add: gateway_main_def g Let_def demo_start_simps)
qed

lemma started_gateway_parts_witness:
  "\<exists>p :: (nat, nat) gateway_process. gateway_main demo_start True seed_env 0 seeded = Inr p \<and>
     reachable m_start (m_step seed_env) (gp_manager p)"
proof -
  obtain p :: "(nat, nat) gateway_process" where p: "gateway_main demo_start True seed_env 0 seeded = Inr p"
    by (rule demo_gateway)
  then show ?thesis using started_gateway_parts[OF p] by blast
qed

end
