(* ===== verification/Deployment.thy ===== *)
theory Deployment
  imports Gateway_Start
begin

text \<open>
  The gateway process as a whole and the user service behind it: the frame loops of
  \<open>Ws_Handler\<close> and the manager of the routes of \<open>Gateway_Manager\<close> run side by side and share
  the atomic router, from the state in which \<open>gateway_main\<close> leaves them; the routes call the
  ingress of \<open>User_Service\<close>.
\<close>

section \<open>The process\<close>

record ('w, 'm) deployment =
  dp_system :: "('w, 'm) gateway_system"
  dp_manager :: "('w, 'm) manager"

definition with_router ::
  "('w, 'm) ws_handler atomic_router \<Rightarrow> ('w, 'm) gateway_system \<Rightarrow> ('w, 'm) gateway_system" where
  "with_router a s = s\<lparr>gs_gateway := (gs_gateway s)\<lparr>gw_router := a\<rparr>\<rparr>"

definition dp_start ::
  "('v, 'e) start_env \<Rightarrow> bool \<Rightarrow> 'w build_env \<Rightarrow> ('w, 'm) deployment \<Rightarrow> bool" where
  "dp_start senv rok benv d \<longleftrightarrow>
     (\<exists>now e p w. gateway_main senv rok benv now e = Inr p \<and>
        d = \<lparr>dp_system = \<lparr>gs_gateway = gp_handler p, gs_world = w, gs_broken = {}, gs_log = [], gs_opened = 0\<rparr>,
             dp_manager = gp_manager p\<rparr>)"

text \<open>
  Only the manager stores routes: a step of the frame loops leaves the router alone, a step of
  the manager shows at once in the router the handlers read.
\<close>

inductive dp_step ::
  "'m codec \<Rightarrow> 'w build_env \<Rightarrow> ('w, 'm) deployment \<Rightarrow> ('w, 'm) deployment \<Rightarrow> bool"
  for env benv where
  dp_gateway:
    "gw_step env (dp_system d) s \<Longrightarrow> gw_router (gs_gateway s) = gw_router (gs_gateway (dp_system d)) \<Longrightarrow>
     dp_step env benv d (d\<lparr>dp_system := s\<rparr>)"
| dp_routes:
    "m_step benv (dp_manager d) m \<Longrightarrow>
     dp_step env benv d (d\<lparr>dp_manager := m, dp_system := with_router (m_router m) (dp_system d)\<rparr>)"

inductive_cases dp_stepE: "dp_step env benv d d'"

lemma with_router_simps [simp]:
  "gw_router (gs_gateway (with_router a s)) = a"
  "gw_clients (gs_gateway (with_router a s)) = gw_clients (gs_gateway s)"
  "gw_connManager (gs_gateway (with_router a s)) = gw_connManager (gs_gateway s)"
  "gs_log (with_router a s) = gs_log s"
  by (simp_all add: with_router_def)

section \<open>The parts keep their invariants\<close>

definition dp_inv :: "'w build_env \<Rightarrow> ('w, 'm) deployment \<Rightarrow> bool" where
  "dp_inv benv d \<longleftrightarrow>
     gw_inv (dp_system d) \<and> m_inv benv (dp_manager d) \<and>
     gw_router (gs_gateway (dp_system d)) = m_router (dp_manager d)"

lemma gw_inv_router: "gw_inv (with_router a s) = gw_inv s"
  by (simp add: gw_inv_def clients_ok_def manager_ok_def with_router_def)

lemma dp_inv_start:
  fixes d :: "('w, 'm) deployment"
  assumes "dp_start senv rok benv d"
  shows "dp_inv benv d"
proof -
  obtain now e w and p :: "('w, 'm) gateway_process" where p: "gateway_main senv rok benv now e = Inr p"
    "d = \<lparr>dp_system = \<lparr>gs_gateway = gp_handler p, gs_world = w, gs_broken = {}, gs_log = [], gs_opened = 0\<rparr>,
          dp_manager = gp_manager p\<rparr>"
    using assms unfolding dp_start_def by blast
  obtain c tpre rpre where b: "bootstrap benv now (read_meta (st_etcd senv) tpre rpre e) (newManager newAtomicRouter tpre rpre) =
       (None, gp_manager p)"
    "gp_handler p = newHandler (m_router (gp_manager p)) (Some (newConnectionManager gateway_heartbeat))"
    using p(1) by (rule gateway_main_ok) blast
  have "m_inv benv (newManager newAtomicRouter tpre rpre :: ('w, 'm) manager)"
    by (rule m_inv_start) (auto simp: m_start_def)
  from m_inv_bootstrap[OF this, of now "read_meta (st_etcd senv) tpre rpre e"] have "m_inv benv (gp_manager p)"
    by (simp add: b(1))
  moreover have "gw_inv (dp_system d)"
    by (rule gw_inv_start) (auto simp: gw_start_def p(2) b(2))
  ultimately show ?thesis by (simp add: dp_inv_def p(2) b(2) newHandler_def)
qed

lemma dp_inv_step:
  assumes "dp_inv benv d" and "dp_step env benv d d'"
  shows "dp_inv benv d'"
  using assms(2)
proof (cases rule: dp_step.cases)
  case (dp_gateway s)
  then show ?thesis using assms(1) gw_inv_step by (auto simp: dp_inv_def)
next
  case (dp_routes m)
  then show ?thesis using assms(1) m_inv_step by (auto simp: dp_inv_def gw_inv_router)
qed

interpretation dp: safe_system "dp_start senv rok benv" "dp_step env benv" "dp_inv benv" for senv rok env benv
  by unfold_locales (auto intro: dp_inv_start dp_inv_step)

section \<open>The user service behind the routes\<close>

text \<open>
  The outside of the gateway: the stores of the user service and what its next call meets. A
  call that panics takes the service down; the client library then reports it unavailable.
\<close>

record ('r, 'd) service_world =
  sw_env :: call_env
  sw_users :: "('r, 'd) user_world"

definition service_call ::
  "proto_json \<Rightarrow> ('r, 'd) user_service \<Rightarrow> nat \<Rightarrow> string \<Rightarrow> string \<Rightarrow> ('r, 'd) service_world
     \<Rightarrow> ('r, 'd) service_world \<times> (handler_error, string) result" where
  "service_call pj us conn route payload w =
     (case user_ingress pj (Some us) (sw_env w) route payload (sw_users w) of
        (out, u) \<Rightarrow>
          (w\<lparr>sw_users := u\<rparr>,
           case out of
             Replied json \<Rightarrow> Inr json
           | Failed code msg \<Rightarrow> Inl (Status_error code msg)
           | Panicked \<Rightarrow> Inl (Status_error 14 ''unavailable'')))"

text \<open>
  \<open>protojson\<close> prints an object whose members are the JSON names of the fields; those of the
  reply are \<open>success\<close>, \<open>token\<close> and \<open>userId\<close>, and 64-bit integers are strings.
\<close>

definition protojson_contract :: "proto_json \<Rightarrow> bool" where
  "protojson_contract pj \<longleftrightarrow>
     (\<forall>rep json. pj_reply pj rep = Inr json \<longrightarrow>
        (\<exists>ms. json_parse json = Some (JObj ms) \<and>
           (\<forall>(k, v) \<in> set ms. k = ''success'' \<and> (\<exists>b. v = JBool b) \<or> k = ''token'' \<and> (\<exists>t. v = JStr t) \<or>
              k = ''userId'' \<and> (\<exists>t. v = JStr t))))"

section \<open>Nobody is ever mapped\<close>

lemma to_map_keys: "to_map ms = Some gs \<Longrightarrow> map fst gs = map fst ms"
  by (induction ms arbitrary: gs) (auto split: option.splits)

lemma to_map_total:
  "\<forall>(k, v) \<in> set ms. to_interface v \<noteq> None \<Longrightarrow> \<exists>gs. to_map ms = Some gs"
proof (induction ms)
  case (Cons kv ms)
  obtain k v where kv: "kv = (k, v)" by (cases kv)
  obtain x where "to_interface v = Some x" using Cons.prems kv by auto
  moreover obtain gs where "to_map ms = Some gs" using Cons by auto
  ultimately show ?case by (simp add: kv)
qed simp

lemma protojson_object:
  assumes "protojson_contract pj" and "pj_reply pj rep = Inr json"
  obtains gs where "unmarshal_any json = Some (GMap gs)" "''user_id'' \<notin> fst ` set gs" "json \<noteq> []"
proof -
  obtain ms where ms: "json_parse json = Some (JObj ms)"
    "\<forall>(k, v) \<in> set ms. k = ''success'' \<and> (\<exists>b. v = JBool b) \<or> k = ''token'' \<and> (\<exists>t. v = JStr t) \<or>
       k = ''userId'' \<and> (\<exists>t. v = JStr t)"
    using assms unfolding protojson_contract_def by blast
  have "\<forall>(k, v) \<in> set ms. to_interface v \<noteq> None" using ms(2) by fastforce
  then obtain gs where gs: "to_map ms = Some gs" using to_map_total by blast
  have "''user_id'' \<notin> fst ` set ms" using ms(2) by fastforce
  then have "''user_id'' \<notin> set (map fst gs)" by (simp add: to_map_keys[OF gs])
  moreover have "json \<noteq> []" using ms(1) by (auto simp: json_parse_def)
  ultimately show ?thesis using that ms(1) gs by (simp add: unmarshal_any_def)
qed

lemma no_user_id: "''user_id'' \<notin> fst ` set gs \<Longrightarrow> extractUserID oor (GMap gs) = 0"
proof -
  assume "''user_id'' \<notin> fst ` set gs"
  then have "map_of (rev gs) ''user_id'' = None" by (simp add: map_of_eq_None_iff)
  then show ?thesis by (simp add: extractUserID_def gmap_get_def)
qed

lemma ingress_replies:
  assumes "user_ingress pj (Some us) env route payload u = (Replied json, u')"
  obtains rep where "pj_reply pj rep = Inr json"
  using assms
  by (auto simp: user_ingress_def ingress_rpc_def split: if_splits sum.splits prod.splits rpc_outcome.splits)

text \<open>The replies of a binding name no user the gateway can read.\<close>

definition names_nobody :: "'m codec \<Rightarrow> ('w, 'm) ws_handler \<Rightarrow> bool" where
  "names_nobody env h \<longleftrightarrow>
     (\<forall>payload meta w w' resp data.
        h payload meta w = (w', Inr resp) \<longrightarrow>
        dataFromWsHandlerResult (cd_marshal env) (cd_json_err env) resp = Inr data \<longrightarrow>
        extractUserID (cd_float_oor env) data = 0)"

lemma service_names_nobody:
  assumes "protojson_contract pj"
  shows "names_nobody env (wrapIngress (service_call pj us conn) route)"
  unfolding names_nobody_def
proof (intro allI impI)
  fix payload w w' resp data and meta :: client_meta
  assume h: "wrapIngress (service_call pj us conn) route payload meta w = (w', Inr resp)"
    and d: "dataFromWsHandlerResult (cd_marshal env) (cd_json_err env) resp = Inr data"
  obtain json where json: "service_call pj us conn route payload w = (w', Inr json)"
    using h by (auto simp: wrapIngress_def split: prod.splits sum.splits)
  then obtain u where "user_ingress pj (Some us) (sw_env w) route payload (sw_users w) = (Replied json, u)"
    by (auto simp: service_call_def split: prod.splits rpc_outcome.splits)
  then obtain rep where "pj_reply pj rep = Inr json" by (rule ingress_replies)
  from protojson_object[OF assms this] obtain gs where gs: "unmarshal_any json = Some (GMap gs)"
    "''user_id'' \<notin> fst ` set gs" "json \<noteq> []" .
  have "data = GMap gs"
    using ingress_data[where call = "service_call pj us conn" and marshal = "cd_marshal env"
        and json_err = "cd_json_err env" and meta = meta, OF json] h d gs(1,3) by auto
  then show "extractUserID (cd_float_oor env) data = 0" using no_user_id[OF gs(2)] by simp
qed

lemma quiet_request:
  assumes "\<And>m b. router_get (gw_router gw) m = Some b \<Longrightarrow> names_nobody env (rb_handler b)"
    and "serve_request env now req meta gw w = (go, meta', gw', w', acts)"
  shows "gw_connManager gw' = gw_connManager gw \<or>
    gw_connManager gw' = map_option (cm_recordActivity now (cmt_clientID meta')) (gw_connManager gw)"
  using assms(2)
proof (cases "router_get (gw_router gw) (wrq_method req)")
  case None
  then show ?thesis using assms(2) by (simp add: serve_request_def)
next
  case (Some b)
  have uid: "extractUserID (cd_float_oor env) data = 0"
    if "rb_handler b (wrq_payload req) meta w = (x, Inr resp)"
      "dataFromWsHandlerResult (cd_marshal env) (cd_json_err env) resp = Inr data" for x resp data
    using assms(1)[OF Some] that unfolding names_nobody_def by blast
  show ?thesis
    using assms(2) Some
    by (auto simp: serve_request_def Let_def establish_session_def dest: uid
        split: if_splits prod.splits sum.splits)
qed

lemma quiet_frame:
  assumes "\<And>m b. router_get (gw_router gw) m = Some b \<Longrightarrow> names_nobody env (rb_handler b)"
    and "serve_frame env now fr meta gw w = (go, meta', gw', w', acts)"
  shows "gw_connManager gw' = gw_connManager gw \<or>
    gw_connManager gw' = map_option (cm_recordActivity now (cmt_clientID meta')) (gw_connManager gw)"
proof (cases fr)
  case Read_error
  then show ?thesis using assms(2) by simp
next
  case (Frame ty msg)
  then show ?thesis
    using assms(2) quiet_request[OF assms(1)] by (auto split: if_splits option.splits)
qed

definition no_users :: "('w, 'm) gateway_system \<Rightarrow> bool" where
  "no_users s \<longleftrightarrow> (\<forall>cm. gw_connManager (gs_gateway s) = Some cm \<longrightarrow> cm_users cm = Map.empty)"

lemma no_users_same: "gw_connManager (gs_gateway s') = gw_connManager (gs_gateway s) \<Longrightarrow> no_users s \<Longrightarrow> no_users s'"
  by (simp add: no_users_def)

lemma no_users_map:
  assumes "no_users s" and "gw_connManager (gs_gateway s') = map_option f (gw_connManager (gs_gateway s))"
    and "\<And>cm. gw_connManager (gs_gateway s) = Some cm \<Longrightarrow> cm_users cm = Map.empty \<Longrightarrow> cm_users (f cm) = Map.empty"
  shows "no_users s'"
  using assms by (auto simp: no_users_def)

lemma background_users:
  assumes "background ev" and "cm_enabled ev cm" and "cm_inv cm" and "cm_users cm = Map.empty"
  shows "cm_users (fst (cm_apply ev cm)) = Map.empty"
proof (cases ev)
  case (Ev_tick visits)
  have "0 \<le> active_connections (cm_metrics cm)" using assms(3) by (simp add: cm_inv_defs)
  then show ?thesis using checkAll_spec(7)[of visits cm] assms Ev_tick by auto
next
  case (Ev_kick uid reason)
  then show ?thesis using assms(4) by (simp add: disconnectByUserID_def)
next
  case Ev_stop
  then show ?thesis using assms(4) by (simp add: cm_stop_def)
qed (use assms(1) in simp_all)

lemma no_users_deliver:
  assumes "no_users s" and "\<And>m b. router_get (gw_router (gs_gateway s)) m = Some b \<Longrightarrow> names_nobody env (rb_handler b)"
  shows "no_users (deliver env c meta now fr s)"
proof -
  obtain go meta' gw' w' acts where t: "serve_frame env now fr meta (gs_gateway s) (gs_world s) = (go, meta', gw', w', acts)"
    by (metis prod.exhaust)
  have gw: "gw_connManager (gs_gateway (deliver env c meta now fr s)) = gw_connManager gw'"
    by (simp add: deliver_def t)
  from quiet_frame[OF assms(2) t] show ?thesis
  proof
    assume "gw_connManager gw' = gw_connManager (gs_gateway s)"
    then show ?thesis by (intro no_users_same[OF _ assms(1)]) (simp add: gw)
  next
    assume "gw_connManager gw' = map_option (cm_recordActivity now (cmt_clientID meta')) (gw_connManager (gs_gateway s))"
    with assms(1) gw show ?thesis 
      by (intro no_users_map[OF assms(1), of _ "cm_recordActivity now (cmt_clientID meta')"])
         (simp_all add: cm_recordActivity_def)
  qed
qed

lemma no_users_step:
  assumes "no_users s" and "gw_inv s" and "gw_step env s s'"
    and "\<And>m b. router_get (gw_router (gs_gateway s)) m = Some b \<Longrightarrow> names_nobody env (rb_handler b)"
  shows "no_users s'"
  using assms(3)
proof (cases rule: gw_step.cases)
  case (gw_open now conn)
  then show ?thesis
    by (intro no_users_map[OF assms(1), of _ "\<lambda>cm. snd (registerConnection now (client_id (gw_connCounter (gs_gateway s) + 1)) (Some conn) cm)"])
       (simp_all add: registerConnection_def split: option.split)
next
  case (gw_deliver c meta now fr)
  then show ?thesis using no_users_deliver[OF assms(1,4)] by simp
next
  case (gw_cleanup c meta order)
  then show ?thesis
    by (intro no_users_map[OF assms(1), of _ "unregisterConnection order (cmt_clientID meta)"])
       (auto simp: unregisterConnection_def split: option.split)
next
  case (gw_manage cm ev)
  have "cm_inv cm" using assms(2) gw_manage(2) by (simp add: gw_inv_def manager_ok_def)
  then show ?thesis
    using gw_manage background_users
    by (intro no_users_map[OF assms(1), of _ "\<lambda>cm. fst (cm_apply ev cm)"]) auto
next
  case (gw_publish routes)
  then show ?thesis using assms(1) by (simp add: no_users_def)
next
  case (gw_outside w)
  then show ?thesis using assms(1) by (simp add: no_users_def)
qed

text \<open>The process whose routes all lead to the user service.\<close>

definition quiet_inv :: "'w build_env \<Rightarrow> ('w, 'm) deployment \<Rightarrow> bool" where
  "quiet_inv benv d \<longleftrightarrow> dp_inv benv d \<and> no_users (dp_system d)"

lemma published_names_nobody:
  assumes "dp_inv benv d" and "\<And>c r. names_nobody env (wrapIngress (be_call benv c) r)"
    and "router_get (gw_router (gs_gateway (dp_system d))) m = Some b"
  shows "names_nobody env (rb_handler b)"
  using assms unfolding dp_inv_def m_inv_def routes_live_def by metis

lemma quiet_start:
  fixes d :: "('w, 'm) deployment"
  assumes "dp_start senv rok benv d"
  shows "quiet_inv benv d"
proof -
  obtain now e w and p :: "('w, 'm) gateway_process" where p: "gateway_main senv rok benv now e = Inr p"
    "d = \<lparr>dp_system = \<lparr>gs_gateway = gp_handler p, gs_world = w, gs_broken = {}, gs_log = [], gs_opened = 0\<rparr>,
          dp_manager = gp_manager p\<rparr>"
    using assms unfolding dp_start_def by blast
  have "gp_handler p = newHandler (m_router (gp_manager p)) (Some (newConnectionManager gateway_heartbeat))"
    using p(1) by (rule gateway_main_ok) blast
  then have "no_users (dp_system d)" by (simp add: p(2) no_users_def newHandler_def newConnectionManager_def)
  then show ?thesis using dp_inv_start[OF assms] by (simp add: quiet_inv_def)
qed

lemma quiet_step:
  assumes "quiet_inv benv d" and "dp_step env benv d d'"
    and "\<And>c r. names_nobody env (wrapIngress (be_call benv c) r)"
  shows "quiet_inv benv d'"
proof -
  have inv: "dp_inv benv d" "no_users (dp_system d)" using assms(1) by (simp_all add: quiet_inv_def)
  have "no_users (dp_system d')"
    using assms(2)
  proof (cases rule: dp_step.cases)
    case (dp_gateway s)
    then show ?thesis
      using no_users_step[OF inv(2) _ dp_gateway(2) published_names_nobody[OF inv(1) assms(3)]] inv(1)
      by (simp add: dp_inv_def)
  next
    case (dp_routes m)
    then show ?thesis using inv(2) by (simp add: no_users_def)
  qed
  then show ?thesis using dp_inv_step[OF inv(1) assms(2)] by (simp add: quiet_inv_def)
qed

lemma quiet_reachable:
  assumes "reachable (dp_start senv rok benv) (dp_step env benv) d"
    and "\<And>c r. names_nobody env (wrapIngress (be_call benv c) r)"
  shows "quiet_inv benv d"
  using assms(1) by (induction rule: reachable.induct) (auto intro: quiet_start quiet_step assms(2))

section \<open>Shutting down\<close>

text \<open>
  The calls of \<open>main\<close> that are left, and the process: between two of them anything may still
  run, frames, sweeps, rebuilds that were under way and drains. Once \<open>main\<close> has returned,
  nothing does.
\<close>

definition dp_call :: "gateway_effect \<Rightarrow> ('w, 'm) deployment \<Rightarrow> ('w, 'm) deployment" where
  "dp_call x d =
     (let p = shutdown_call x \<lparr>gp_manager = dp_manager d, gp_handler = gs_gateway (dp_system d),
                gp_effects = [], gp_deferred = []\<rparr>
      in d\<lparr>dp_manager := gp_manager p, dp_system := (dp_system d)\<lparr>gs_gateway := gp_handler p\<rparr>\<rparr>)"

inductive exiting ::
  "'m codec \<Rightarrow> 'w build_env \<Rightarrow> gateway_effect list \<times> ('w, 'm) deployment
     \<Rightarrow> gateway_effect list \<times> ('w, 'm) deployment \<Rightarrow> bool" for env benv where
  ex_call: "exiting env benv (x # xs, d) (xs, dp_call x d)"
| ex_step: "dp_step env benv d d' \<Longrightarrow> exiting env benv (x # xs, d) (x # xs, d')"

inductive_cases exitingE: "exiting env benv s s'"

lemma dp_call_manager: "dp_manager (dp_call x d) = (if x = Manager_closed then m_close (dp_manager d) else dp_manager d)"
  by (simp add: dp_call_def shutdown_call_def Let_def split: gateway_effect.split)

text \<open>Every run to the end passes each call.\<close>

lemma exit_passes:
  assumes "(exiting env benv)\<^sup>*\<^sup>* (xs @ x # ys, d) ([], d')"
  shows "\<exists>d1. (exiting env benv)\<^sup>*\<^sup>* (xs @ x # ys, d) (x # ys, d1) \<and>
    (exiting env benv)\<^sup>*\<^sup>* (ys, dp_call x d1) ([], d')"
proof -
  have "\<exists>d1. (exiting env benv)\<^sup>*\<^sup>* s (x # ys, d1) \<and> (exiting env benv)\<^sup>*\<^sup>* (ys, dp_call x d1) ([], d')"
    if "(exiting env benv)\<^sup>*\<^sup>* s ([], d')" "fst s = xs @ x # ys" for s xs
    using that
  proof (induction arbitrary: xs rule: converse_rtranclp_induct)
    case base
    then show ?case by simp
  next
    case (step s t)
    from step.hyps(1) show ?case
    proof (cases rule: exiting.cases)
      case (ex_call y zs e)
      show ?thesis
      proof (cases xs)
        case Nil
        then show ?thesis using ex_call step.prems step.hyps(2) by auto
      next
        case (Cons u us)
        then have "fst t = us @ x # ys" using ex_call step.prems by simp
        from step.IH[OF this] show ?thesis
          using step.hyps(1) converse_rtranclp_into_rtranclp by metis
      qed
    next
      case (ex_step e e' y zs)
      then have "fst t = xs @ x # ys" using step.prems by simp
      from step.IH[OF this] show ?thesis
        using step.hyps(1) converse_rtranclp_into_rtranclp by metis
    qed
  qed
  then show ?thesis using assms by fastforce
qed

lemma exit_calls: "(exiting env benv)\<^sup>*\<^sup>* (xs, d) ([], fold dp_call xs d)"
proof (induction xs arbitrary: d)
  case (Cons x xs)
  show ?case using converse_rtranclp_into_rtranclp[OF ex_call Cons.IH] by simp
qed simp

text \<open>What the steps of the manager keep, and \<open>Close\<close> too if it is passed, holds at the end.\<close>

lemma exit_keeps:
  assumes "(exiting env benv)\<^sup>*\<^sup>* s t" and "P (dp_manager (snd s))"
    and "\<And>m m'. P m \<Longrightarrow> m_step benv m m' \<Longrightarrow> P m'"
  shows "\<exists>zs. fst s = zs @ fst t \<and>
    (Manager_closed \<notin> set zs \<or> (\<forall>m. P m \<longrightarrow> P (m_close m)) \<longrightarrow> P (dp_manager (snd t)))"
  using assms(1)
proof (induction rule: rtranclp_induct)
  case base
  then show ?case using assms(2) by simp
next
  case (step t u)
  then obtain zs where zs: "fst s = zs @ fst t"
    "Manager_closed \<notin> set zs \<or> (\<forall>m. P m \<longrightarrow> P (m_close m)) \<longrightarrow> P (dp_manager (snd t))" by blast
  from step.hyps(2) show ?case
  proof (cases rule: exiting.cases)
    case (ex_call x xs d)
    then show ?thesis using zs by (intro exI[of _ "zs @ [x]"]) (auto simp: dp_call_manager)
  next
    case (ex_step d d' x xs)
    have "P (dp_manager d) \<Longrightarrow> P (dp_manager d')"
      using ex_step(3) assms(3) by (cases rule: dp_step.cases) auto
    then show ?thesis using zs ex_step(1,2) by (intro exI[of _ zs]) auto
  qed
qed

section \<open>A login over a WebSocket\<close>

lemma login_call:
  assumes "pj_request pj payload = Inr lreq" and "user_login us (sw_env w) lreq (sw_users w) = (out, u)"
  shows "service_call pj us conn ''/user.v1.UserService/Login'' payload w =
    (w\<lparr>sw_users := u\<rparr>,
     case out of
       Replied rep \<Rightarrow> (case pj_reply pj rep of Inl e \<Rightarrow> Inl (Status_error 13 (''marshal reply: '' @ e)) | Inr json \<Rightarrow> Inr json)
     | Failed code m \<Rightarrow> Inl (Status_error code m)
     | Panicked \<Rightarrow> Inl (Status_error 14 ''unavailable''))"
  using assms by (cases out) (auto simp: service_call_def user_ingress_def ingress_rpc_def split: sum.split)

lemma establish_nobody: "extractUserID oor data = 0 \<Longrightarrow>
    establish_session oor data meta gw = (meta\<lparr>cmt_isAuthenticated := True\<rparr>, gw)"
  by (simp add: establish_session_def Let_def)

lemma login_frame_outcome:
  assumes "decode_request msg = Some req"
    and "router_get (gw_router gw) (wrq_method req) =
      Some \<lparr>rb_handler = wrapIngress (service_call pj us conn) ''/user.v1.UserService/Login'', rb_public = True,
            rb_establishSession = True\<rparr>"
    and "pj_request pj (wrq_payload req) = Inr lreq" and "protojson_contract pj"
    and "\<And>rep. \<exists>json. pj_reply pj rep = Inr json"
    and "redis_contract (us_redisOps us) en" and "resolveRedis (us_router us) routingKeySession = Inr (Some h, pool)"
    and "user_login us (sw_env w) lreq (sw_users w) = (out, u)"
  shows "\<exists>go meta' gw' acts.
    serve_frame env now (Frame 1 msg) meta gw w = (go, meta', gw', w\<lparr>sw_users := u\<rparr>, acts) \<and>
    gw_clients gw' = gw_clients gw \<and>
    (case out of
       Replied rep \<Rightarrow>
         go \<and> meta' = meta\<lparr>cmt_isAuthenticated := True\<rparr> \<and>
         live (ce_now (sw_env w)) (en (uw_redis u h) (user_key (lr_userId rep))) = Some (lr_token rep) \<and>
         (\<exists>data. acts = [Respond (cmt_conn meta) (reply (wrq_method req) 0 ''success'' data)])
     | Failed code m \<Rightarrow>
         \<not> go \<and> meta' = meta \<and> gw' = gw \<and> acts = [Respond (cmt_conn meta) (reply (wrq_method req) code m GNil)]
     | Panicked \<Rightarrow>
         \<not> go \<and> meta' = meta \<and> gw' = gw \<and>
         acts = [Respond (cmt_conn meta) (reply (wrq_method req) 14 ''unavailable'' GNil)])"
proof (cases out)
  case (Replied rep)
  obtain json where json: "pj_reply pj rep = Inr json" using assms(5) by blast
  obtain gs where gs: "unmarshal_any json = Some (GMap gs)" "''user_id'' \<notin> fst ` set gs" "json \<noteq> []"
    using protojson_object[OF assms(4) json] .
  have call: "service_call pj us conn ''/user.v1.UserService/Login'' (wrq_payload req) w = (w\<lparr>sw_users := u\<rparr>, Inr json)"
    by (simp add: login_call[OF assms(3,8)] Replied json)
  have "live (ce_now (sw_env w)) (en (uw_redis u h) (user_key (lr_userId rep))) = Some (lr_token rep)"
    using login_outcome[OF assms(6) _ assms(7)] assms(8) Replied by blast
  then show ?thesis
    using gs(1,3)
    by (simp add: Replied assms(1) serve_request_def assms(2) wrapIngress_def call dataFromWsHandlerResult_def
        establish_nobody[OF no_user_id[OF gs(2)]] Let_def, blast)
next
  case (Failed code m)
  then show ?thesis
    by (simp add: assms(1) serve_request_def assms(2) wrapIngress_def login_call[OF assms(3,8)] Let_def, blast)
next
  case Panicked
  then show ?thesis
    by (simp add: assms(1) serve_request_def assms(2) wrapIngress_def login_call[OF assms(3,8)] Let_def, blast)
qed

section \<open>A process to try\<close>

definition demo_proto :: proto_json where
  "demo_proto =
     \<lparr>pj_request = (\<lambda>payload. if payload = ''{}'' then Inr bob else Inl ''syntax error''),
      pj_reply = (\<lambda>rep. Inr (print_obj
        [(''success'', if lr_success rep then ''true'' else ''false''), (''token'', json_quote (lr_token rep)),
         (''userId'', print_string (show_nat (unat (lr_userId rep))))]))\<rparr>"

lemma digit_plain: "is_digit c \<Longrightarrow> plain_char c"
  by (auto simp: plain_char_def is_digit_def)

lemma demo_proto_contract: "protojson_contract demo_proto"
  unfolding protojson_contract_def
proof (intro allI impI)
  fix rep json
  assume "pj_reply demo_proto rep = Inr json"
  let ?ms = "[(''success'', if lr_success rep then ''true'' else ''false'', JBool (lr_success rep)),
    (''token'', json_quote (lr_token rep), JStr (coerce_utf8 (lr_token rep))),
    (''userId'', print_string (show_nat (unat (lr_userId rep))), JStr (show_nat (unat (lr_userId rep))))]"
  have "list_all plain_char (show_nat n)" for n
    using show_nat_chars[of _ n] digit_plain by (auto simp: list_all_iff)
  then have "json_parse (print_obj (map (\<lambda>(k, v, j). (k, v)) ?ms)) = Some (JObj (map (\<lambda>(k, v, j). (k, j)) ?ms))"
    by (intro json_parse_print) (simp_all add: scalar_words scalar_quote scalar_string plain_char_def)
  then show "\<exists>ms. json_parse json = Some (JObj ms) \<and>
      (\<forall>(k, v) \<in> set ms. k = ''success'' \<and> (\<exists>b. v = JBool b) \<or> k = ''token'' \<and> (\<exists>t. v = JStr t) \<or>
         k = ''userId'' \<and> (\<exists>t. v = JStr t))"
    using \<open>pj_reply demo_proto rep = Inr json\<close> by (auto simp: demo_proto_def)
qed

definition demo_build :: "(kv_store, user_table) service_world build_env" where
  "demo_build =
     \<lparr>be_decode_type = be_decode_type seed_env, be_decode_route = be_decode_route seed_env,
      be_dial_ok = be_dial_ok seed_env, be_call = service_call demo_proto (demo_service 3600)\<rparr>"

lemma demo_build_agrees: "codec_agrees seed_demo_codec demo_build"
  using seed_env_agrees by (simp add: codec_agrees_def demo_build_def)

lemma demo_deployment:
  obtains d :: "((kv_store, user_table) service_world, unit) deployment" and cm
    and p :: "((kv_store, user_table) service_world, unit) gateway_process" where
    "reachable (dp_start demo_start True demo_build) (dp_step demo_codec demo_build) d"
    "gw_connManager (gs_gateway (dp_system d)) = Some cm"
    "router_get (gw_router (gs_gateway (dp_system d))) ''/user.v1.UserService/Login'' =
       Some \<lparr>rb_handler = wrapIngress (be_call demo_build 0) ''/user.v1.UserService/Login'', rb_public = True,
             rb_establishSession = True\<rparr>"
    "gw_connCounter (gs_gateway (dp_system d)) = 0" "m_draining (dp_manager d) = []"
    "m_activeConns (dp_manager d) = [0]" "gateway_main demo_start True demo_build 0 seeded = Inr p"
proof -
  have clean: "\<forall>k. prefix ''kd48/meta/'' k \<longrightarrow> map_of ([] :: (string \<times> string) list) k = None" by simp
  have dial: "be_dial_ok demo_build 0 ''etcd:///kd48/user-service'' round_robin_config"
    by (simp add: demo_build_def seed_env_def)
  let ?t = "gc_types_prefix (cf_gateway start_config)" and ?r = "gc_routes_prefix (cf_gateway start_config)"
  let ?b = "bootstrap demo_build 0 (read_meta demo_etcd ?t ?r seeded) (newManager newAtomicRouter ?t ?r) ::
       string build_error option \<times> ((kv_store, user_table) service_world, unit) manager"
  obtain err m where b: "?b = (err, m)" by (cases ?b)
  obtain types routes where rd: "eo_range demo_etcd ?t seeded = Inr types" "eo_range demo_etcd ?r seeded = Inr routes"
    by (simp add: demo_etcd_def)
  note sb = seeded_bootstrap[OF demo_etcd_contract seeded_ok clean demo_build_agrees start_config_prefixes rd dial b]
  obtain effs deferred where g: "gateway_connect demo_start True seeded = Inr (start_config, effs, deferred)"
    using gateway_connect_up[OF demo_gateway_up] by blast
  obtain p :: "((kv_store, user_table) service_world, unit) gateway_process"
    where p: "gateway_main demo_start True demo_build 0 seeded = Inr p"
      "gp_manager p = m" "gp_handler p = newHandler (m_router m) (Some (newConnectionManager gateway_heartbeat))"
    using sb b by (simp add: gateway_main_def g Let_def demo_start_simps)
  let ?d = "\<lparr>dp_system = \<lparr>gs_gateway = gp_handler p, gs_world = \<lparr>sw_env = demo_call 100 [1], sw_users = demo_world\<rparr>,
      gs_broken = {}, gs_log = [], gs_opened = 0\<rparr>, dp_manager = gp_manager p\<rparr>"
  have "dp_start demo_start True demo_build ?d" using p(1) by (auto simp: dp_start_def)
  then have r: "reachable (dp_start demo_start True demo_build) (dp_step demo_codec demo_build) ?d"
    by (rule reachable_start)
  have "m_draining m = []"
    using b by (auto simp: bootstrap_def newManager_def split: prod.splits sum.splits)
  then show ?thesis using sb by (intro that[OF r]) (simp_all add: p newHandler_def)
qed

definition demo_login_frame :: frame where
  "demo_login_frame = Frame 1 (print_obj [(''method'', print_string ''/user.v1.UserService/Login''),
     (''payload'', print_string ''{}'')])"

lemma demo_login_request:
  "decode_request (print_obj [(''method'', print_string ''/user.v1.UserService/Login''), (''payload'', print_string ''{}'')]) =
     Some \<lparr>wrq_method = ''/user.v1.UserService/Login'', wrq_payload = ''{}''\<rparr>"
  by (rule demo_request) (simp add: plain_char_def)

lemma demo_reply_total: "\<exists>json. pj_reply demo_proto rep = Inr json"
  by (simp add: demo_proto_def)

lemma demo_bob_request:
  "pj_request demo_proto (wrq_payload \<lparr>wrq_method = ''/user.v1.UserService/Login'', wrq_payload = ''{}''\<rparr>) = Inr bob"
  by (simp add: demo_proto_def)

lemma demo_session_store:
  "redis_contract (us_redisOps (demo_service 3600)) (\<lambda>r. r)"
  "resolveRedis (us_router (demo_service 3600)) routingKeySession = Inr (Some 0, ''default'')"
  by (simp_all add: demo_service_def kv_contract one_pool_resolve)

lemma demo_bob_login:
  "user_login (demo_service 3600) (sw_env \<lparr>sw_env = demo_call 100 [1], sw_users = demo_world\<rparr>) bob
      (sw_users \<lparr>sw_env = demo_call 100 [1], sw_users = demo_world\<rparr>) =
    (Replied \<lparr>lr_success = True, lr_token = ''01'', lr_userId = 7\<rparr>,
     snd (user_login (demo_service 3600) (demo_call 100 [1]) bob demo_world))"
proof -
  have "hex_encode [1] = ''01''" by code_simp
  then show ?thesis by (simp add: login_eval bob_def demo_world_def live_def Let_def)
qed

definition demo_gateway_alone :: "((kv_store, user_table) service_world, unit) gateway" where
  "demo_gateway_alone = newHandler
     (router_store (Some (newAtomicRoutes (Some
        [''/user.v1.UserService/Login'' \<mapsto>
           \<lparr>rb_handler = wrapIngress (service_call demo_proto (demo_service 3600) 0) ''/user.v1.UserService/Login'',
            rb_public = True, rb_establishSession = True\<rparr>]))) newAtomicRouter)
     (Some (newConnectionManager gateway_heartbeat))"

section \<open>Properties\<close>

text \<open>
  C12. In the running gateway every call that a frame makes goes over a connection that is
  open and that no drain will close, and, unless its route is public, on a WebSocket on which
  a session was established: from the state in which \<open>main\<close> leaves the process, whatever the
  order of frames, sweeps, kicks, reloads and drains.
\<close>

theorem served_frames_use_open_connections:
  assumes "reachable (dp_start senv rok benv) (dp_step env benv) d"
    and "gw_clients (gs_gateway (dp_system d)) c = Some meta"
    and "(method, b) \<in> set (frame_calls env now fr meta (gs_gateway (dp_system d)) (gs_world (dp_system d)))"
  shows "(\<exists>conn \<in> set (m_activeConns (dp_manager d)). \<exists>r.
       rb_handler b = wrapIngress (be_call benv conn) r \<and>
       conn \<notin> m_closed (dp_manager d) \<and> conn \<notin> set (drained (dp_manager d))) \<and>
    (rb_public b \<or> (c, Established) \<in> set (gs_log (dp_system d)))"
proof -
  have inv: "dp_inv benv d" using dp.reachable_inv[OF assms(1)] .
  note b = frame_calls_guarded[OF assms(3)]
  obtain conn r where conn: "conn \<in> set (m_activeConns (dp_manager d))" "rb_handler b = wrapIngress (be_call benv conn) r"
    using inv b(1) unfolding dp_inv_def m_inv_def routes_live_def by metis
  have "set (m_activeConns (dp_manager d)) \<inter> m_closed (dp_manager d) = {}"
    "set (m_activeConns (dp_manager d)) \<inter> set (drained (dp_manager d)) = {}"
    using inv by (simp_all add: dp_inv_def m_inv_def conns_ok_def accounted_def)
  then have "conn \<notin> m_closed (dp_manager d)" "conn \<notin> set (drained (dp_manager d))" using conn(1) by auto
  moreover have "rb_public b \<or> (c, Established) \<in> set (gs_log (dp_system d))"
    using inv b(2) assms(2) by (auto simp: dp_inv_def gw_inv_def clients_ok_def)
  ultimately show ?thesis using conn by blast
qed

lemma served_frames_use_open_connections_witness:
  "\<exists>(d :: ((kv_store, user_table) service_world, unit) deployment) b.
     reachable (dp_start demo_start True demo_build) (dp_step demo_codec demo_build) d \<and>
     frame_calls demo_codec 6 demo_login_frame (demo_meta False 0) (gs_gateway (dp_system d))
       (gs_world (dp_system d)) = [(''/user.v1.UserService/Login'', b)] \<and>
     (\<exists>conn \<in> set (m_activeConns (dp_manager d)). conn \<notin> m_closed (dp_manager d))"
proof -
  obtain d :: "((kv_store, user_table) service_world, unit) deployment" and cm where d:
    "reachable (dp_start demo_start True demo_build) (dp_step demo_codec demo_build) d"
    "gw_connManager (gs_gateway (dp_system d)) = Some cm"
    "router_get (gw_router (gs_gateway (dp_system d))) ''/user.v1.UserService/Login'' =
       Some \<lparr>rb_handler = wrapIngress (be_call demo_build 0) ''/user.v1.UserService/Login'', rb_public = True,
             rb_establishSession = True\<rparr>"
    "gw_connCounter (gs_gateway (dp_system d)) = 0"
    by (rule demo_deployment)
  let ?s = "(dp_system d)\<lparr>gs_gateway := snd (serve_open 5 3 (gs_gateway (dp_system d))),
     gs_opened := Suc (gs_opened (dp_system d)),
     gs_broken := gs_broken (dp_system d) - {fst (serve_open 5 3 (gs_gateway (dp_system d)))}\<rparr>"
  let ?d = "d\<lparr>dp_system := ?s\<rparr>"
  have "dp_step demo_codec demo_build d ?d" by (intro dp_gateway gw_open) simp
  with d(1) have r: "reachable (dp_start demo_start True demo_build) (dp_step demo_codec demo_build) ?d"
    by (rule reachable_step)
  have c: "gw_clients (gs_gateway (dp_system ?d)) 1 = Some (demo_meta False 0)"
    by (simp add: d(4) demo_meta_def)
  have b: "frame_calls demo_codec 6 demo_login_frame (demo_meta False 0) (gs_gateway (dp_system ?d))
      (gs_world (dp_system ?d)) = [(''/user.v1.UserService/Login'',
        \<lparr>rb_handler = wrapIngress (be_call demo_build 0) ''/user.v1.UserService/Login'', rb_public = True,
         rb_establishSession = True\<rparr>)]"
    by (simp add: frame_calls_request demo_login_frame_def demo_login_request d(3))
  show ?thesis
    using served_frames_use_open_connections[OF r c, of _ _ 6 demo_login_frame] r b by fastforce
qed

text \<open>
  C6. The single session is not enforced at the gateway: in the running gateway with the user
  service behind its routes, no message on the invalidation channel ever disconnects anyone.
  \<open>protojson\<close> prints the user id of a login or registration as a string under \<open>userId\<close>, the
  gateway looks for a number under \<open>user_id\<close>, so its table of users stays empty in every
  reachable state.
\<close>

theorem invalidations_kick_nobody:
  fixes d :: "(('r, 'd) service_world, 'm) deployment"
  assumes "reachable (dp_start senv rok benv) (dp_step env benv) d"
    and "be_call benv = service_call pj us" and "protojson_contract pj"
    and "gw_connManager (gs_gateway (dp_system d)) = Some cm"
  shows "handleMessage msg cm = (cm, [])"
proof -
  have "quiet_inv benv d"
    by (rule quiet_reachable[OF assms(1)]) (simp add: assms(2) service_names_nobody[OF assms(3)])
  then have "cm_users cm = Map.empty" using assms(4) by (simp add: quiet_inv_def no_users_def)
  then show ?thesis by (simp add: handleMessage_def disconnectByUserID_def split: option.split)
qed

lemma invalidations_kick_nobody_witness:
  "\<exists>(d :: ((kv_store, user_table) service_world, unit) deployment) cm.
     reachable (dp_start demo_start True demo_build) (dp_step demo_codec demo_build) d \<and>
     gw_connManager (gs_gateway (dp_system d)) = Some cm \<and> handleMessage (invalidate_message 7) cm = (cm, [])"
proof -
  obtain d :: "((kv_store, user_table) service_world, unit) deployment" and cm where d:
    "reachable (dp_start demo_start True demo_build) (dp_step demo_codec demo_build) d"
    "gw_connManager (gs_gateway (dp_system d)) = Some cm"
    by (rule demo_deployment)
  have "be_call demo_build = service_call demo_proto (demo_service 3600)" by (simp add: demo_build_def)
  from invalidations_kick_nobody[OF d(1) this demo_proto_contract d(2)] show ?thesis using d by blast
qed



text \<open>
  C8. From an empty cluster to a session: seed the metadata, start the gateway, open a
  WebSocket and send a login. If the outside is there and the user service accepts the login,
  the gateway comes up with exactly the two seeded methods, answers the frame with success on
  that WebSocket, marks it as authenticated, and Redis then has the token of the reply as the user's session.
\<close>

theorem seeded_gateway_serves_logins:
  fixes benv :: "('r, 'd) service_world build_env"
  assumes "etcd_contract (st_etcd env) kv" and "seed_main (st_etcd env) codec flag e0 = (0, e)"
    and "\<forall>k. prefix ''kd48/meta/'' k \<longrightarrow> kv e0 k = None" and "codec_agrees codec benv"
    and "gateway_up env c e"
    and "gc_types_prefix (cf_gateway c) = ''kd48/meta/service-types/''"
    and "gc_routes_prefix (cf_gateway c) = ''kd48/meta/gateway-routes/''"
    and "be_dial_ok benv 0 ''etcd:///kd48/user-service'' round_robin_config"
    and "be_call benv = service_call pj us" and "protojson_contract pj"
    and "\<And>rep. \<exists>json. pj_reply pj rep = Inr json"
    and "redis_contract (us_redisOps us) en" and "resolveRedis (us_router us) routingKeySession = Inr (Some h, pool)"
    and "decode_request msg = Some req" and "wrq_method req = ''/user.v1.UserService/Login''"
    and "pj_request pj (wrq_payload req) = Inr lreq"
    and "user_login us (sw_env w) lreq (sw_users w) = (Replied rep, u)"
  shows "\<exists>(p :: (('r, 'd) service_world, 'm) gateway_process) connID gw meta meta' gw' data.
    gateway_main env True benv now e = Inr p \<and> serve_open t conn (gp_handler p) = (connID, gw) \<and>
    (\<forall>m. router_get (gw_router gw) m \<noteq> None \<longleftrightarrow>
       m \<in> {''/user.v1.UserService/Login'', ''/user.v1.UserService/Register''}) \<and>
    gw_clients gw connID = Some meta \<and> \<not> cmt_isAuthenticated meta \<and>
    serve_frame cd t' (Frame 1 msg) meta gw w =
      (True, meta', gw', w\<lparr>sw_users := u\<rparr>, [Respond conn (reply (wrq_method req) 0 ''success'' data)]) \<and>
    cmt_isAuthenticated meta' \<and>
    live (ce_now (sw_env w)) (en (uw_redis u h) (user_key (lr_userId rep))) = Some (lr_token rep)"
proof -
  obtain p :: "(('r, 'd) service_world, 'm) gateway_process" where p: "gateway_main env True benv now e = Inr p"
    "router_get (gw_router (gp_handler p)) ''/user.v1.UserService/Login'' =
       Some \<lparr>rb_handler = wrapIngress (be_call benv 0) ''/user.v1.UserService/Login'', rb_public = True,
             rb_establishSession = True\<rparr>"
    "\<forall>m. router_get (gw_router (gp_handler p)) m \<noteq> None \<longleftrightarrow>
       m \<in> {''/user.v1.UserService/Login'', ''/user.v1.UserService/Register''}"
    using seeded_gateway_start[OF assms(1-8), where 'm = 'm and now = now] by force
  obtain connID gw where o1: "serve_open t conn (gp_handler p) = (connID, gw)" by fastforce
  have gw: "gw = snd (serve_open t conn (gp_handler p))" "connID = fst (serve_open t conn (gp_handler p))"
    by (simp_all add: o1)
  obtain meta where meta: "gw_clients gw connID = Some meta" "\<not> cmt_isAuthenticated meta" "cmt_conn meta = conn"
    by (simp add: gw)
  have "router_get (gw_router gw) (wrq_method req) =
      Some \<lparr>rb_handler = wrapIngress (service_call pj us 0) ''/user.v1.UserService/Login'', rb_public = True,
            rb_establishSession = True\<rparr>"
    by (simp add: gw p(2) assms(9,15))
  note out = login_frame_outcome[OF assms(14) this assms(16,10,11,12,13,17), of cd t' meta]
  have routes: "\<forall>m. router_get (gw_router gw) m \<noteq> None \<longleftrightarrow>
      m \<in> {''/user.v1.UserService/Login'', ''/user.v1.UserService/Register''}"
    using p(3) by (simp add: gw)
  obtain meta' gw' data where "serve_frame cd t' (Frame 1 msg) meta gw w =
      (True, meta', gw', w\<lparr>sw_users := u\<rparr>, [Respond conn (reply (wrq_method req) 0 ''success'' data)])"
    "cmt_isAuthenticated meta'"
    "live (ce_now (sw_env w)) (en (uw_redis u h) (user_key (lr_userId rep))) = Some (lr_token rep)"
    using out meta(3) by fastforce
  then show ?thesis using p(1) o1 meta(1,2) routes by blast
qed

lemma seeded_gateway_serves_logins_witness:
  "\<exists>(p :: ((kv_store, user_table) service_world, unit) gateway_process) meta meta' gw' w' acts.
     gateway_main demo_start True demo_build 0 seeded = Inr p \<and>
     serve_frame demo_codec 6 demo_login_frame meta (snd (serve_open 5 3 (gp_handler p)))
       \<lparr>sw_env = demo_call 100 [1], sw_users = demo_world\<rparr> = (True, meta', gw', w', acts) \<and>
     cmt_isAuthenticated meta'"
proof -
  have clean: "\<forall>k. prefix ''kd48/meta/'' k \<longrightarrow> map_of ([] :: (string \<times> string) list) k = None" by simp
  have dial: "be_dial_ok demo_build 0 ''etcd:///kd48/user-service'' round_robin_config"
    by (simp add: demo_build_def seed_env_def)
  have call: "be_call demo_build = service_call demo_proto (demo_service 3600)" by (simp add: demo_build_def)
  have meth: "wrq_method \<lparr>wrq_method = ''/user.v1.UserService/Login'', wrq_payload = ''{}''\<rparr> =
      ''/user.v1.UserService/Login''" by simp
  have up: "gateway_up demo_start start_config seeded" by (rule demo_gateway_up)
  from seeded_gateway_serves_logins[of demo_start map_of, unfolded demo_start_simps(1), OF demo_etcd_contract seeded_ok
      clean demo_build_agrees up start_config_prefixes dial call demo_proto_contract demo_reply_total
      demo_session_store(1,2) demo_login_request meth demo_bob_request demo_bob_login,
      where 'm = unit and now = 0 and t = 5 and conn = 3 and t' = 6 and cd = demo_codec]
  show ?thesis unfolding demo_login_frame_def by (metis snd_conv)
qed

text \<open>
  C17. What the shutdown of the gateway closes: the calls of \<open>main\<close> after the signal, the
  explicit ones and the deferred ones, with frames, sweeps, rebuilds and drains going on in
  between. When \<open>main\<close> returns, every gRPC connection that was in use when \<open>Close\<close> ran is
  closed. One that is still open then waited for its drain goroutine, which the end of the
  process cuts off, or was dialled by a rebuild that ended after \<open>Close\<close>, which stops none.
\<close>

theorem shutdown_closes_connections_in_use:
  fixes d :: "('w, 'm) deployment" and p :: "('w, 'm) gateway_process"
  assumes "reachable (dp_start senv rok benv) (dp_step env benv) d"
    and "gateway_main senv rok benv now e = Inr p"
    and "(exiting env benv)\<^sup>*\<^sup>* (shutdown_calls p, d) ([], d')"
  shows "\<exists>d1 ys. (exiting env benv)\<^sup>*\<^sup>* (shutdown_calls p, d) (Manager_closed # ys, d1) \<and>
    (exiting env benv)\<^sup>*\<^sup>* (ys, dp_call Manager_closed d1) ([], d') \<and>
    set (m_activeConns (dp_manager d1)) \<subseteq> m_closed (dp_manager d') \<and>
    {..< m_next (dp_manager d')} - m_closed (dp_manager d') \<subseteq>
      set (drained (dp_manager d1)) \<union> {m_next (dp_manager d1) ..< m_next (dp_manager d')}"
proof -
  obtain deferred where def: "gp_deferred p = [Subscriber_cancelled, Sweeps_cancelled, Manager_closed, Meta_cancelled] @ deferred"
    using assms(2) by (rule gateway_main_ok) blast
  let ?xs = "[Meta_cancelled, Sweeps_cancelled, Connection_manager_stopped, Http_shut_down, Subscriber_cancelled, Sweeps_cancelled]"
  let ?ys = "Meta_cancelled # deferred"
  have calls: "shutdown_calls p = ?xs @ Manager_closed # ?ys" by (simp add: shutdown_calls_def def)
  obtain d1 where d1: "(exiting env benv)\<^sup>*\<^sup>* (shutdown_calls p, d) (Manager_closed # ?ys, d1)"
    "(exiting env benv)\<^sup>*\<^sup>* (?ys, dp_call Manager_closed d1) ([], d')"
    using exit_passes[OF assms(3)[unfolded calls]] unfolding calls by blast
  have "m_inv benv (dp_manager d)" using dp.reachable_inv[OF assms(1)] by (simp add: dp_inv_def)
  then have inv: "m_inv benv (dp_manager d1)"
    using exit_keeps[OF d1(1), of "m_inv benv"] m_inv_step by (auto simp: calls)
  let ?P = "after_close (set (m_activeConns (dp_manager d1))) (set (drained (dp_manager d1))) (m_next (dp_manager d1)) ::
    ('w, 'm) manager \<Rightarrow> bool"
  have start: "?P (dp_manager (snd (?ys, dp_call Manager_closed d1)))"
    using after_close_start[OF inv] by (simp add: dp_call_manager)
  have "\<exists>zs. fst (?ys, dp_call Manager_closed d1) = zs @ fst ([] :: gateway_effect list, d') \<and>
      (Manager_closed \<notin> set zs \<or> (\<forall>m. ?P m \<longrightarrow> ?P (m_close m)) \<longrightarrow> ?P (dp_manager (snd ([] :: gateway_effect list, d'))))"
    by (rule exit_keeps[where P = ?P, OF d1(2) start]) (rule after_close_step)
  then have "?P (dp_manager d')" using after_close_again by auto
  then show ?thesis
    using d1 by (intro exI[of _ d1] exI[of _ ?ys]) (auto simp: after_close_def)
qed

lemma shutdown_closes_connections_in_use_witness:
  "\<exists>(d :: ((kv_store, user_table) service_world, unit) deployment) (p :: ((kv_store, user_table) service_world, unit) gateway_process) d1 d' ys.
     gateway_main demo_start True demo_build 0 seeded = Inr p \<and> m_activeConns (dp_manager d) = [0] \<and>
     (exiting demo_codec demo_build)\<^sup>*\<^sup>* (shutdown_calls p, d) (Manager_closed # ys, d1) \<and>
     (exiting demo_codec demo_build)\<^sup>*\<^sup>* (ys, dp_call Manager_closed d1) ([], d') \<and>
     set (m_activeConns (dp_manager d1)) \<subseteq> m_closed (dp_manager d')"
proof -
  have "\<exists>(d :: ((kv_store, user_table) service_world, unit) deployment)
        (p :: ((kv_store, user_table) service_world, unit) gateway_process).
      reachable (dp_start demo_start True demo_build) (dp_step demo_codec demo_build) d \<and>
      m_activeConns (dp_manager d) = [0] \<and> gateway_main demo_start True demo_build 0 seeded = Inr p"
    by (rule demo_deployment) (intro exI conjI)
  then obtain d :: "((kv_store, user_table) service_world, unit) deployment"
    and p :: "((kv_store, user_table) service_world, unit) gateway_process" where d:
    "reachable (dp_start demo_start True demo_build) (dp_step demo_codec demo_build) d"
    "m_activeConns (dp_manager d) = [0]" "gateway_main demo_start True demo_build 0 seeded = Inr p"
    by (elim exE conjE)
  obtain d1 ys d' where
    "(exiting demo_codec demo_build)\<^sup>*\<^sup>* (shutdown_calls p, d) (Manager_closed # ys, d1)"
    "(exiting demo_codec demo_build)\<^sup>*\<^sup>* (ys, dp_call Manager_closed d1) ([], d')"
    "set (m_activeConns (dp_manager d1)) \<subseteq> m_closed (dp_manager d')"
    using shutdown_closes_connections_in_use[OF d(1,3) exit_calls] by (elim exE conjE)
  with d(2,3) show ?thesis by (intro exI conjI)
qed

end
