(* ===== verification/Route_Plane.thy ===== *)
theory Route_Plane
  imports Gateway_Manager
begin

text \<open>
  The gateway's routes against the metadata in etcd: writes to the store, the two range reads
  of a rebuild at two revisions, the watch that is opened where the last build ended, the
  responses it delivers later, the debounce timer, the drains, and the end of the watch, after
  which \<open>Run\<close> rebuilds and watches again, interleaved in any order. \<open>store r\<close> is the content of
  etcd at revision \<open>r\<close>.

  \<open>buildMu\<close> lets one rebuild at a time through. A timer that is stopped too late has its
  callback waiting for the mutex, so a rebuild may also begin with the timer still armed.
\<close>

section \<open>The plane\<close>

datatype watch_state = Unwatched | Retrying | Watching int int

record rebuild =
  rd_run :: bool
  rd_types :: int
  rd_routes :: "int option"

text \<open>
  \<open>Watching\<close> has the revision the watch was opened at and the next one it will deliver;
  \<open>Retrying\<close> is the time from its end to the end of the rebuild that follows. \<open>rp_built\<close>, the
  revisions the published routes were read at, and \<open>rp_failed\<close>, that a rebuild has failed since
  the watch was opened and none has succeeded after it, are kept for the statements.
\<close>

record ('w, 'm) route_plane =
  rp_rev :: int
  rp_manager :: "('w, 'm) manager"
  rp_watch :: watch_state
  rp_reads :: "rebuild option"
  rp_built :: "int \<times> int"
  rp_failed :: bool

definition keys_under :: "string \<Rightarrow> kvs \<Rightarrow> kvs" where
  "keys_under pre kvs = filter (\<lambda>kv. prefix pre (fst kv)) kvs"

definition still :: "(int \<Rightarrow> kvs) \<Rightarrow> string \<Rightarrow> int \<Rightarrow> int \<Rightarrow> bool" where
  "still store pre a b \<longleftrightarrow> (\<forall>r. a < r \<longrightarrow> r < b \<longrightarrow> keys_under pre (store r) = keys_under pre (store (r - 1)))"

definition read_meta :: "(int \<Rightarrow> kvs) \<Rightarrow> ('w, 'm) manager \<Rightarrow> int \<Rightarrow> int \<Rightarrow> string etcd_meta" where
  "read_meta store m r1 r2 =
     \<lparr>em_types = Inr (keys_under (m_typesPrefix m) (store r1), r1), em_routes = Inr (keys_under (m_routesPrefix m) (store r2), r2)\<rparr>"

definition after_rebuild :: "rebuild \<Rightarrow> watch_state \<Rightarrow> watch_state" where
  "after_rebuild rd w = (if rd_run rd then Unwatched else w)"

definition begin_rebuild :: "bool \<Rightarrow> ('w, 'm) route_plane \<Rightarrow> ('w, 'm) route_plane" where
  "begin_rebuild run p = p\<lparr>rp_reads := Some \<lparr>rd_run = run, rd_types = rp_rev p, rd_routes = None\<rparr>\<rparr>"

definition end_rebuild :: "rebuild \<Rightarrow> ('w, 'm) manager \<Rightarrow> ('w, 'm) route_plane \<Rightarrow> ('w, 'm) route_plane" where
  "end_rebuild rd m p = p\<lparr>rp_manager := m, rp_watch := after_rebuild rd (rp_watch p), rp_reads := None\<rparr>"

inductive plane_step ::
  "'w build_env \<Rightarrow> (int \<Rightarrow> kvs) \<Rightarrow> ('w, 'm) route_plane \<Rightarrow> ('w, 'm) route_plane \<Rightarrow> bool" for env store where
  rp_write: "plane_step env store p (p\<lparr>rp_rev := rp_rev p + 1\<rparr>)"
| rp_response:
    "rp_watch p = Watching start pos \<Longrightarrow> pos < pos' \<Longrightarrow> pos' \<le> rp_rev p + 1 \<Longrightarrow>
     plane_step env store p
       (p\<lparr>rp_watch := Watching start pos',
          rp_manager := snd (run_turn env now (Watch_response :: string run_event) (rp_manager p))\<rparr>)"
| rp_quiet:
    "rp_watch p = Watching start pos \<Longrightarrow> pos < pos' \<Longrightarrow> pos' \<le> rp_rev p + 1 \<Longrightarrow>
     still store (m_watchPrefix (rp_manager p)) (pos - 1) pos' \<Longrightarrow>
     plane_step env store p (p\<lparr>rp_watch := Watching start pos'\<rparr>)"
| rp_fire:
    "rp_reads p = None \<Longrightarrow> m_reloadTimer (rp_manager p) = Some t \<Longrightarrow> t \<le> now \<Longrightarrow>
     plane_step env store p (begin_rebuild False (p\<lparr>rp_manager := (rp_manager p)\<lparr>m_reloadTimer := None\<rparr>\<rparr>))"
| rp_late: "rp_reads p = None \<Longrightarrow> plane_step env store p (begin_rebuild False p)"
| rp_retry: "rp_reads p = None \<Longrightarrow> rp_watch p = Retrying \<Longrightarrow> plane_step env store p (begin_rebuild True p)"
| rp_routes:
    "rp_reads p = Some rd \<Longrightarrow> rd_routes rd = None \<Longrightarrow>
     plane_step env store p (p\<lparr>rp_reads := Some (rd\<lparr>rd_routes := Some (rp_rev p)\<rparr>)\<rparr>)"
| rp_publish:
    "rp_reads p = Some rd \<Longrightarrow> rd_routes rd = Some r2 \<Longrightarrow>
     bootstrap (env\<lparr>be_dial_ok := ok\<rparr>) now (read_meta store (rp_manager p) (rd_types rd) r2) (rp_manager p) = (None, m') \<Longrightarrow>
     plane_step env store p ((end_rebuild rd m' p)\<lparr>rp_built := (rd_types rd, r2), rp_failed := False\<rparr>)"
| rp_fail:
    "rp_reads p = Some rd \<Longrightarrow>
     bootstrap (env\<lparr>be_dial_ok := ok\<rparr>) now (meta :: string etcd_meta) (rp_manager p) = (Some e, m') \<Longrightarrow>
     plane_step env store p ((end_rebuild rd m' p)\<lparr>rp_failed := True\<rparr>)"
| rp_end: "rp_watch p = Watching start pos \<Longrightarrow> plane_step env store p (p\<lparr>rp_watch := Retrying\<rparr>)"
| rp_open:
    "rp_watch p = Unwatched \<Longrightarrow>
     plane_step env store p
       (p\<lparr>rp_watch := Watching (m_nextWatchRev (rp_manager p)) (m_nextWatchRev (rp_manager p)), rp_failed := False\<rparr>)"
| rp_drain:
    "d \<in> set (m_draining (rp_manager p)) \<Longrightarrow> plane_step env store p (p\<lparr>rp_manager := drain d (rp_manager p)\<rparr>)"

inductive_cases plane_stepE: "plane_step env store p p'"

text \<open>The process starts with a bootstrap that succeeds, and then starts \<open>Run\<close>.\<close>

definition plane_start :: "'w build_env \<Rightarrow> (int \<Rightarrow> kvs) \<Rightarrow> ('w, 'm) route_plane \<Rightarrow> bool" where
  "plane_start env store p \<longleftrightarrow>
     (\<exists>m0 ok now r1 r2. m_start m0 \<and> r1 \<le> r2 \<and> r2 \<le> rp_rev p \<and>
        bootstrap (env\<lparr>be_dial_ok := ok\<rparr>) now (read_meta store m0 r1 r2) m0 = (None, rp_manager p) \<and>
        rp_watch p = Unwatched \<and> rp_reads p = None \<and> rp_built p = (r1, r2) \<and> \<not> rp_failed p)"

section \<open>What a rebuild publishes\<close>

text \<open>
  The published routes are a build of these service types and routes, whichever types could be
  dialled, over the connections that are active.
\<close>

definition published_from :: "'w build_env \<Rightarrow> ('w, 'm) manager \<Rightarrow> kvs \<Rightarrow> kvs \<Rightarrow> bool" where
  "published_from env m tkvs rkvs \<longleftrightarrow>
     (\<exists>ok t r n routes rv n1 cl.
        build (env\<lparr>be_dial_ok := ok\<rparr>) (m_typesPrefix m) (m_routesPrefix m)
            (\<lparr>em_types = Inr (tkvs, t), em_routes = Inr (rkvs, r)\<rparr> :: string etcd_meta) n =
          (Inr (routes, m_activeConns m, rv), n1, cl) \<and>
        router_get (m_router m) = routes_get (Some routes))"

definition prefixes :: "('w, 'm) manager \<Rightarrow> string \<times> string \<times> string" where
  "prefixes m = (m_watchPrefix m, m_typesPrefix m, m_routesPrefix m)"

lemma prefixes_bootstrap: "prefixes (snd (bootstrap env now meta m)) = prefixes m"
  by (simp add: prefixes_def bootstrap_def split: prod.split sum.split)

lemma timer_bootstrap: "m_reloadTimer (snd (bootstrap env now meta m)) = m_reloadTimer m"
  by (simp add: bootstrap_def split: prod.split sum.split)

lemma bootstrap_publishes:
  assumes "bootstrap (env\<lparr>be_dial_ok := ok\<rparr>) now (read_meta store m r1 r2) m = (None, m')" and "r1 \<le> r2"
  shows "prefixes m' = prefixes m" and "m_reloadTimer m' = m_reloadTimer m" and "m_nextWatchRev m' = r2 + 1"
    and "published_from env m' (keys_under (m_typesPrefix m) (store r1)) (keys_under (m_routesPrefix m) (store r2))"
proof -
  show p: "prefixes m' = prefixes m" and "m_reloadTimer m' = m_reloadTimer m"
    using prefixes_bootstrap timer_bootstrap assms(1) by (metis snd_conv)+
  obtain routes conns rv n cl where
    b: "build (env\<lparr>be_dial_ok := ok\<rparr>) (m_typesPrefix m) (m_routesPrefix m) (read_meta store m r1 r2) (m_next m) =
        (Inr (routes, conns, rv), n, cl)"
    and m': "m_nextWatchRev m' = rv" "m_router m' = router_store (Some routes) (m_router m)" "m_activeConns m' = conns"
    using assms(1) by (auto simp: bootstrap_def split: prod.splits sum.splits)
  have "rv = max r1 r2 + 1" by (rule build_success(5)[OF b]) (simp_all add: read_meta_def)
  then show "m_nextWatchRev m' = r2 + 1" using m'(1) assms(2) by simp
  have "router_get (m_router m') = routes_get (Some routes)"
    by (simp add: fun_eq_iff m'(2) router_get_store_routes)
  moreover have "m_typesPrefix m' = m_typesPrefix m" "m_routesPrefix m' = m_routesPrefix m"
    using p by (simp_all add: prefixes_def)
  ultimately show "published_from env m' (keys_under (m_typesPrefix m) (store r1)) (keys_under (m_routesPrefix m) (store r2))"
    using b m'(3) unfolding published_from_def read_meta_def by metis
qed

lemma published_from_cong:
  assumes "prefixes m' = prefixes m" and "m_activeConns m' = m_activeConns m" and "m_router m' = m_router m"
  shows "published_from env m' = published_from env m"
  using assms by (simp add: fun_eq_iff published_from_def prefixes_def)

lemma failed_rebuild:
  assumes "bootstrap env now meta m = (Some e, m')"
  shows "prefixes m' = prefixes m" and "m_reloadTimer m' = m_reloadTimer m" and "m_nextWatchRev m' = m_nextWatchRev m"
    and "published_from env' m' = published_from env' m"
proof -
  have m': "prefixes m' = prefixes m \<and> m_reloadTimer m' = m_reloadTimer m \<and> m_nextWatchRev m' = m_nextWatchRev m \<and>
      m_activeConns m' = m_activeConns m \<and> m_router m' = m_router m"
    using assms by (auto simp: bootstrap_def prefixes_def split: prod.splits sum.splits)
  then show "prefixes m' = prefixes m" "m_reloadTimer m' = m_reloadTimer m" "m_nextWatchRev m' = m_nextWatchRev m"
    by simp_all
  show "published_from env' m' = published_from env' m" by (rule published_from_cong) (use m' in simp_all)
qed

section \<open>The invariant\<close>

text \<open>
  The published routes were read at the two revisions of \<open>rp_built\<close>. While a watch is open,
  everything it has delivered is announced by the timer, or read by the rebuild under way, or
  in the published routes; the last unless a rebuild has failed, and except for changes of the
  service types between the two reads of the build before the watch.
\<close>

definition built_ok :: "'w build_env \<Rightarrow> (int \<Rightarrow> kvs) \<Rightarrow> ('w, 'm) route_plane \<Rightarrow> bool" where
  "built_ok env store p \<longleftrightarrow>
     (case rp_built p of (r1, r2) \<Rightarrow>
        r1 \<le> r2 \<and> r2 \<le> rp_rev p \<and> m_nextWatchRev (rp_manager p) = r2 + 1 \<and>
        published_from env (rp_manager p)
          (keys_under (m_typesPrefix (rp_manager p)) (store r1)) (keys_under (m_routesPrefix (rp_manager p)) (store r2)))"

definition reads_ok :: "('w, 'm) route_plane \<Rightarrow> bool" where
  "reads_ok p \<longleftrightarrow>
     (\<forall>rd. rp_reads p = Some rd \<longrightarrow> snd (rp_built p) \<le> rd_types rd \<and> rd_types rd \<le> rp_rev p \<and>
        (\<forall>r2. rd_routes rd = Some r2 \<longrightarrow> rd_types rd \<le> r2 \<and> r2 \<le> rp_rev p))"

definition delivered_seen :: "(int \<Rightarrow> kvs) \<Rightarrow> ('w, 'm) route_plane \<Rightarrow> int \<Rightarrow> int \<Rightarrow> bool" where
  "delivered_seen store p start pos \<longleftrightarrow>
     m_reloadTimer (rp_manager p) \<noteq> None \<or>
     (case rp_reads p of
        Some rd \<Rightarrow>
          still store (m_typesPrefix (rp_manager p)) (rd_types rd) pos \<and>
          (\<forall>r2. rd_routes rd = Some r2 \<longrightarrow> still store (m_routesPrefix (rp_manager p)) r2 pos)
      | None \<Rightarrow>
          rp_failed p \<or>
          still store (m_typesPrefix (rp_manager p)) (max (fst (rp_built p)) (start - 1)) pos \<and>
          still store (m_routesPrefix (rp_manager p)) (snd (rp_built p)) pos)"

definition watched :: "('w, 'm) manager \<Rightarrow> bool" where
  "watched m \<longleftrightarrow> prefix (m_watchPrefix m) (m_typesPrefix m) \<and> prefix (m_watchPrefix m) (m_routesPrefix m)"

definition plane_inv :: "'w build_env \<Rightarrow> (int \<Rightarrow> kvs) \<Rightarrow> ('w, 'm) route_plane \<Rightarrow> bool" where
  "plane_inv env store p \<longleftrightarrow>
     built_ok env store p \<and> reads_ok p \<and>
     (\<forall>start pos. rp_watch p = Watching start pos \<longrightarrow>
        pos \<le> rp_rev p + 1 \<and> (watched (rp_manager p) \<longrightarrow> delivered_seen store p start pos))"

lemma still_none: "b \<le> a + 1 \<Longrightarrow> still store pre a b"
  by (simp add: still_def)

lemma still_mono: "still store pre a b \<Longrightarrow> a \<le> a' \<Longrightarrow> still store pre a' b"
  by (simp add: still_def)

lemma still_join: "still store pre a b \<Longrightarrow> still store pre (b - 1) c \<Longrightarrow> still store pre a c"
  unfolding still_def
proof (intro allI impI)
  fix r
  assume "\<forall>r. a < r \<longrightarrow> r < b \<longrightarrow> keys_under pre (store r) = keys_under pre (store (r - 1))"
    and "\<forall>r. b - 1 < r \<longrightarrow> r < c \<longrightarrow> keys_under pre (store r) = keys_under pre (store (r - 1))"
    and "a < r" and "r < c"
  then show "keys_under pre (store r) = keys_under pre (store (r - 1))" by (cases "r < b") simp_all
qed

lemma still_const:
  assumes "still store pre a (b + 1)" and "a \<le> b"
  shows "keys_under pre (store a) = keys_under pre (store b)"
  using assms(2,1)
proof (induction b rule: int_ge_induct)
  case (step i)
  then have "keys_under pre (store a) = keys_under pre (store i)" by (simp add: still_def)
  then show ?case using step by (simp add: still_def)
qed simp

text \<open>Keys below a longer prefix do not change where those below a shorter one do not.\<close>

lemma keys_under_longer: "prefix wp pre \<Longrightarrow> keys_under pre kvs = keys_under pre (keys_under wp kvs)"
  by (auto simp: keys_under_def intro!: filter_cong dest: prefix_order.trans)

lemma still_longer:
  assumes "prefix wp pre" and "still store wp a b"
  shows "still store pre a b"
  unfolding still_def
proof (intro allI impI)
  fix r
  assume "a < r" and "r < b"
  then have "keys_under wp (store r) = keys_under wp (store (r - 1))" using assms(2) by (simp add: still_def)
  then have "keys_under pre (keys_under wp (store r)) = keys_under pre (keys_under wp (store (r - 1)))" by simp
  then show "keys_under pre (store r) = keys_under pre (store (r - 1))"
    by (simp only: keys_under_longer[OF assms(1), symmetric])
qed

section \<open>The invariant holds\<close>

lemma plane_inv_start:
  assumes "plane_start env store p"
  shows "plane_inv env store p"
proof -
  obtain m0 :: "('a, 'b) manager" and ok now r1 r2 where s: "r1 \<le> r2" "r2 \<le> rp_rev p"
    "bootstrap (env\<lparr>be_dial_ok := ok\<rparr>) now (read_meta store m0 r1 r2) m0 = (None, rp_manager p)"
    "rp_watch p = Unwatched" "rp_reads p = None" "rp_built p = (r1, r2)"
    using assms unfolding plane_start_def by blast
  note b = bootstrap_publishes[OF s(3,1)]
  show ?thesis using s b by (auto simp: plane_inv_def built_ok_def reads_ok_def prefixes_def)
qed

text \<open>Steps that leave the published routes, the revisions of the build and the prefixes alone.\<close>

lemma built_ok_cong:
  assumes "built_ok env store p" and "rp_built p' = rp_built p" and "rp_rev p \<le> rp_rev p'"
    and "prefixes (rp_manager p') = prefixes (rp_manager p)"
    and "m_nextWatchRev (rp_manager p') = m_nextWatchRev (rp_manager p)"
    and "published_from env (rp_manager p') = published_from env (rp_manager p)"
  shows "built_ok env store p'"
  using assms by (auto simp: built_ok_def prefixes_def split: prod.splits)

lemma published_from_update:
  "published_from env (m\<lparr>m_reloadTimer := x\<rparr>) = published_from env m"
  "published_from env (drain d m) = published_from env m"
  by (rule published_from_cong; simp add: prefixes_def drain_def)+

lemma begin_rebuild_inv:
  assumes "plane_inv env store p" and "rp_reads p = None"
  shows "plane_inv env store (begin_rebuild run (p\<lparr>rp_manager := (rp_manager p)\<lparr>m_reloadTimer := x\<rparr>\<rparr>))"
proof -
  let ?p = "begin_rebuild run (p\<lparr>rp_manager := (rp_manager p)\<lparr>m_reloadTimer := x\<rparr>\<rparr>)"
  have b: "built_ok env store p" "\<And>start pos. rp_watch p = Watching start pos \<Longrightarrow> pos \<le> rp_rev p + 1"
    using assms(1) by (auto simp: plane_inv_def)
  have "built_ok env store ?p"
    by (rule built_ok_cong[OF b(1)]) (simp_all add: begin_rebuild_def prefixes_def published_from_update)
  moreover have "reads_ok ?p" using b(1) by (auto simp: reads_ok_def begin_rebuild_def built_ok_def split: prod.splits)
  ultimately show ?thesis using b(2)
    by (auto simp: plane_inv_def delivered_seen_def begin_rebuild_def still_none)
qed

lemma end_rebuild_inv:
  assumes "plane_inv env store p" and "rp_reads p = Some rd"
    and "built_ok env store p'" and "prefixes (rp_manager p') = prefixes (rp_manager p)"
    and "m_reloadTimer (rp_manager p') = m_reloadTimer (rp_manager p)"
    and "rp_watch p' = after_rebuild rd (rp_watch p)" and "rp_reads p' = None" and "rp_rev p' = rp_rev p"
    and "rp_failed p' \<or> rd_routes rd = Some (snd (rp_built p')) \<and> fst (rp_built p') = rd_types rd"
  shows "plane_inv env store p'"
proof -
  have "delivered_seen store p' start pos" if "rp_watch p' = Watching start pos" "watched (rp_manager p')" for start pos
  proof -
    have w: "rp_watch p = Watching start pos" using that(1) assms(6) by (auto simp: after_rebuild_def split: if_splits)
    have "watched (rp_manager p)" using that(2) assms(4) by (simp add: watched_def prefixes_def)
    then have "delivered_seen store p start pos" using w assms(1) by (simp add: plane_inv_def)
    then show ?thesis using assms(2,4,5,7,9)
      by (auto simp: delivered_seen_def prefixes_def intro: still_mono)
  qed
  moreover have "pos \<le> rp_rev p' + 1" if "rp_watch p' = Watching start pos" for start pos
    using that assms(1,6,8) by (auto simp: after_rebuild_def plane_inv_def split: if_splits)
  ultimately show ?thesis using assms(3,7) by (simp add: plane_inv_def reads_ok_def)
qed

lemma delivered_seen_cong:
  assumes "m_reloadTimer (rp_manager p') = m_reloadTimer (rp_manager p)" and "rp_reads p' = rp_reads p"
    and "rp_failed p' = rp_failed p" and "rp_built p' = rp_built p" and "prefixes (rp_manager p') = prefixes (rp_manager p)"
  shows "delivered_seen store p' start pos = delivered_seen store p start pos"
  using assms by (simp add: delivered_seen_def prefixes_def split: option.split)

lemma quiet_seen:
  assumes "delivered_seen store p start pos" and "still store (m_watchPrefix (rp_manager p)) (pos - 1) pos'"
    and "watched (rp_manager p)"
  shows "delivered_seen store (p\<lparr>rp_watch := w\<rparr>) start pos'"
proof -
  have w: "still store (m_typesPrefix (rp_manager p)) (pos - 1) pos'" "still store (m_routesPrefix (rp_manager p)) (pos - 1) pos'"
    using assms(2,3) still_longer unfolding watched_def by blast+
  then show ?thesis using assms(1)
    by (auto simp: delivered_seen_def split: option.splits intro: still_join)
qed

lemma opened_seen:
  assumes "built_ok env store p" and "reads_ok p" and "start = m_nextWatchRev (rp_manager p)"
  shows "delivered_seen store (p\<lparr>rp_watch := w, rp_failed := x\<rparr>) start start"
  using assms
  by (auto simp: reads_ok_def delivered_seen_def built_ok_def intro!: still_none split: prod.splits option.splits)

lemma routes_read_inv:
  assumes "plane_inv env store p" and "rp_reads p = Some rd" and "rd_routes rd = None"
  shows "plane_inv env store (p\<lparr>rp_reads := Some (rd\<lparr>rd_routes := Some (rp_rev p)\<rparr>)\<rparr>)" (is "plane_inv env store ?p")
proof -
  have inv: "built_ok env store p" "reads_ok p"
    "\<And>start pos. rp_watch p = Watching start pos \<Longrightarrow>
      pos \<le> rp_rev p + 1 \<and> (watched (rp_manager p) \<longrightarrow> delivered_seen store p start pos)"
    using assms(1) by (auto simp: plane_inv_def)
  have "built_ok env store ?p" by (rule built_ok_cong[OF inv(1)]) simp_all
  moreover have "reads_ok ?p" using inv(2) assms(2) by (auto simp: reads_ok_def)
  moreover have "delivered_seen store ?p start pos" if "rp_watch p = Watching start pos" "watched (rp_manager p)" for start pos
    using inv(3)[OF that(1)] that(2) assms(2) by (auto simp: delivered_seen_def still_none)
  ultimately show ?thesis using inv(3) by (simp add: plane_inv_def)
qed

lemma plane_inv_keep:
  assumes "plane_inv env store p" and "rp_built p' = rp_built p" and "rp_rev p \<le> rp_rev p'" and "rp_reads p' = rp_reads p"
    and "prefixes (rp_manager p') = prefixes (rp_manager p)"
    and "m_nextWatchRev (rp_manager p') = m_nextWatchRev (rp_manager p)"
    and "published_from env (rp_manager p') = published_from env (rp_manager p)"
    and "\<And>start pos. rp_watch p' = Watching start pos \<Longrightarrow>
      pos \<le> rp_rev p' + 1 \<and> (watched (rp_manager p) \<longrightarrow> delivered_seen store p' start pos)"
  shows "plane_inv env store p'"
proof -
  have "built_ok env store p" "reads_ok p" using assms(1) by (simp_all add: plane_inv_def)
  then have "built_ok env store p'" and "reads_ok p'"
    using built_ok_cong assms(2-7) by (blast, auto simp: reads_ok_def intro: order_trans)
  moreover have "watched (rp_manager p') = watched (rp_manager p)" using assms(5) by (simp add: watched_def prefixes_def)
  ultimately show ?thesis using assms(8) by (simp add: plane_inv_def)
qed

lemma plane_inv_step:
  assumes "plane_inv env store p" and "plane_step env store p p'"
  shows "plane_inv env store p'"
proof -
  have inv: "built_ok env store p" "reads_ok p"
    "\<And>start pos. rp_watch p = Watching start pos \<Longrightarrow>
      pos \<le> rp_rev p + 1 \<and> (watched (rp_manager p) \<longrightarrow> delivered_seen store p start pos)"
    using assms(1) by (auto simp: plane_inv_def)
  note keep = plane_inv_keep[OF assms(1)]
  have same: "p = p\<lparr>rp_manager := (rp_manager p)\<lparr>m_reloadTimer := m_reloadTimer (rp_manager p)\<rparr>\<rparr>" by simp
  from assms(2) show ?thesis
  proof (cases rule: plane_step.cases)
    case rp_write
    have "delivered_seen store p' start pos = delivered_seen store p start pos" for start pos
      by (rule delivered_seen_cong) (simp_all add: rp_write)
    moreover have "pos \<le> rp_rev p' + 1" if "rp_watch p = Watching start pos" for start pos
      using inv(3)[OF that] rp_write by simp
    ultimately show ?thesis using inv(3) by (intro keep) (simp_all add: rp_write)
  next
    case (rp_response start pos pos' now)
    then show ?thesis
      by (intro keep) (simp_all add: scheduleReload_def prefixes_def published_from_update delivered_seen_def)
  next
    case (rp_quiet start pos pos')
    then show ?thesis using quiet_seen inv(3)[OF rp_quiet(2)] by (intro keep) auto
  next
    case (rp_fire t now)
    then show ?thesis using begin_rebuild_inv[OF assms(1)] by simp
  next
    case rp_late
    then show ?thesis using begin_rebuild_inv[OF assms(1)] same by metis
  next
    case rp_retry
    then show ?thesis using begin_rebuild_inv[OF assms(1)] same by metis
  next
    case (rp_routes rd)
    then show ?thesis using routes_read_inv[OF assms(1)] by simp
  next
    case (rp_publish rd r2 ok now m')
    have r: "rd_types rd \<le> r2" "r2 \<le> rp_rev p" using inv(2) rp_publish by (auto simp: reads_ok_def)
    note b = bootstrap_publishes[OF rp_publish(4) r(1)]
    show ?thesis
      by (rule end_rebuild_inv[OF assms(1) rp_publish(2)])
         (use b r rp_publish in \<open>simp_all add: end_rebuild_def built_ok_def prefixes_def\<close>)
  next
    case (rp_fail rd ok now meta e m')
    note b = failed_rebuild[OF rp_fail(3)]
    have "built_ok env store p'" by (rule built_ok_cong[OF inv(1)]) (simp_all add: rp_fail(1) end_rebuild_def b)
    then show ?thesis
      by (rule end_rebuild_inv[OF assms(1) rp_fail(2)]) (simp_all add: rp_fail(1) end_rebuild_def b)
  next
    case (rp_end start pos)
    then show ?thesis by (intro keep) simp_all
  next
    case rp_open
    have "m_nextWatchRev (rp_manager p) \<le> rp_rev p + 1" using inv(1) by (auto simp: built_ok_def split: prod.splits)
    then show ?thesis using rp_open opened_seen[OF inv(1,2)] by (intro keep) auto
  next
    case (rp_drain d)
    then show ?thesis using inv(3) delivered_seen_cong[of p' p]
      by (intro keep) (simp_all add: published_from_update, simp_all add: drain_def prefixes_def)
  qed
qed

interpretation plane: safe_system "plane_start env store" "plane_step env store" "plane_inv env store" for env store
  by unfold_locales (auto intro: plane_inv_start plane_inv_step)

section \<open>Properties\<close>

text \<open>
  C10. The gateway's routes follow the metadata: whenever the watch has delivered every revision
  there is, no reload is scheduled or under way and none has failed, the published routes are
  a build of the service types and routes that are in etcd now, whatever the interleaving of
  writes, reads, responses, reloads and reconnections was. This needs both prefixes to lie
  under the one that is watched, and no change of the service types between the first read of
  the published build and the revision at which the watch was opened.
\<close>

theorem routes_follow_metadata:
  assumes "reachable (plane_start env store) (plane_step env store) p"
    and "rp_watch p = Watching start (rp_rev p + 1)" and "m_reloadTimer (rp_manager p) = None"
    and "rp_reads p = None" and "\<not> rp_failed p"
    and "prefix (m_watchPrefix (rp_manager p)) (m_typesPrefix (rp_manager p))"
    and "prefix (m_watchPrefix (rp_manager p)) (m_routesPrefix (rp_manager p))"
    and "still store (m_typesPrefix (rp_manager p)) (fst (rp_built p)) start"
  shows "published_from env (rp_manager p)
    (keys_under (m_typesPrefix (rp_manager p)) (store (rp_rev p)))
    (keys_under (m_routesPrefix (rp_manager p)) (store (rp_rev p)))"
proof -
  let ?tp = "m_typesPrefix (rp_manager p)" and ?rp = "m_routesPrefix (rp_manager p)"
  obtain r1 r2 where b: "rp_built p = (r1, r2)" by (cases "rp_built p")
  have inv: "built_ok env store p" "delivered_seen store p start (rp_rev p + 1)"
    using plane.reachable_inv[OF assms(1)] assms(2,6,7) by (auto simp: plane_inv_def watched_def)
  have r: "r1 \<le> r2" "r2 \<le> rp_rev p" and pub: "published_from env (rp_manager p) (keys_under ?tp (store r1)) (keys_under ?rp (store r2))"
    using inv(1) by (auto simp: built_ok_def b)
  have s: "still store ?tp (max r1 (start - 1)) (rp_rev p + 1)" "still store ?rp r2 (rp_rev p + 1)"
    using inv(2) assms(3-5) by (auto simp: delivered_seen_def b)
  have "still store ?tp r1 (rp_rev p + 1)"
    unfolding still_def
  proof (intro allI impI)
    fix r
    assume "r1 < r" and "r < rp_rev p + 1"
    then show "keys_under ?tp (store r) = keys_under ?tp (store (r - 1))"
      using s(1) assms(8) by (cases "r < start") (simp_all add: still_def b)
  qed
  then have "keys_under ?tp (store r1) = keys_under ?tp (store (rp_rev p))" using r by (intro still_const) auto
  moreover have "keys_under ?rp (store r2) = keys_under ?rp (store (rp_rev p))" using s(2) r(2) by (rule still_const)
  ultimately show ?thesis using pub by simp
qed

text \<open>
  C13. The exception happens: the types are read first, and the watch is opened after the later
  of the two reads. A change of the service types between them, here during the rebuild after
  a lost watch, is in no read and no response: the gateway ends with the watch open, everything
  delivered, no reload scheduled or failed, and routes built of the old service types.
\<close>

theorem type_change_between_reads_missed:
  assumes "rp_watch p = Retrying" and "rp_reads p = None" and "m_reloadTimer (rp_manager p) = None"
    and "bootstrap (env\<lparr>be_dial_ok := ok\<rparr>) now (read_meta store (rp_manager p) (rp_rev p) (rp_rev p + 1)) (rp_manager p) =
      (None, m')"
  shows "\<exists>p'. (plane_step env store)\<^sup>*\<^sup>* p p' \<and> rp_rev p' = rp_rev p + 1 \<and>
    rp_watch p' = Watching (rp_rev p' + 1) (rp_rev p' + 1) \<and> m_reloadTimer (rp_manager p') = None \<and>
    rp_reads p' = None \<and> \<not> rp_failed p' \<and> prefixes (rp_manager p') = prefixes (rp_manager p) \<and>
    published_from env (rp_manager p')
      (keys_under (m_typesPrefix (rp_manager p')) (store (rp_rev p' - 1)))
      (keys_under (m_routesPrefix (rp_manager p')) (store (rp_rev p')))"
proof -
  note b = bootstrap_publishes[OF assms(4)]
  define p1 where "p1 = begin_rebuild True p"
  define p2 where "p2 = p1\<lparr>rp_rev := rp_rev p1 + 1\<rparr>"
  define p3 where "p3 = p2\<lparr>rp_reads := Some \<lparr>rd_run = True, rd_types = rp_rev p, rd_routes = Some (rp_rev p2)\<rparr>\<rparr>"
  define p4 where "p4 = (end_rebuild (the (rp_reads p3)) m' p3)\<lparr>rp_built := (rp_rev p, rp_rev p + 1), rp_failed := False\<rparr>"
  define p5 where "p5 = p4\<lparr>rp_watch := Watching (m_nextWatchRev m') (m_nextWatchRev m'), rp_failed := False\<rparr>"
  note defs = p1_def p2_def p3_def p4_def p5_def begin_rebuild_def end_rebuild_def after_rebuild_def
  have "plane_step env store p p1" unfolding p1_def using assms(2,1) by (rule rp_retry)
  moreover have "plane_step env store p1 p2" unfolding p2_def by (rule rp_write)
  moreover have "plane_step env store p2 p3"
    using rp_routes[of p2 "\<lparr>rd_run = True, rd_types = rp_rev p, rd_routes = None\<rparr>" env store] by (simp add: defs)
  moreover have "plane_step env store p3 p4"
    using rp_publish[of p3 "the (rp_reads p3)" "rp_rev p + 1" ok env now store m'] assms(4) by (simp add: defs)
  moreover have "plane_step env store p4 p5"
    using rp_open[of p4 env store] by (simp add: defs)
  ultimately have "(plane_step env store)\<^sup>*\<^sup>* p p5" by (meson converse_rtranclp_into_rtranclp rtranclp.rtrancl_refl)
  then show ?thesis using b assms(3) by (intro exI[of _ p5]) (simp add: defs prefixes_def)
qed

section \<open>A cluster whose metadata grows\<close>

text \<open>From revision 2 on there is a second service type, the lobby, with a route of its own.\<close>

definition plane_env :: "nat build_env" where
  "plane_env =
     \<lparr>be_decode_type = (\<lambda>v. Some (demo_type\<lparr>sts_typeKey := v\<rparr>)),
      be_decode_route = (\<lambda>v. Some ((demo_route v)\<lparr>grs_wsMethod := v, grs_serviceType := (if v = ''login'' then ''user'' else ''lobby'')\<rparr>)),
      be_dial_ok = (\<lambda>i target cfg. True), be_call = (\<lambda>c route payload w. (w + c, Inr payload))\<rparr>"

definition plane_store :: "int \<Rightarrow> kvs" where
  "plane_store r =
     [(''kd48/meta/service-types/user'', ''user''), (''kd48/meta/gateway-routes/login'', ''login'')] @
     (if r < 2 then [] else [(''kd48/meta/service-types/lobby'', ''lobby''), (''kd48/meta/gateway-routes/ping'', ''ping'')])"

definition plane_prefixes :: "string \<times> string \<times> string" where
  "plane_prefixes = (''kd48/meta/'', ''kd48/meta/service-types/'', ''kd48/meta/gateway-routes/'')"

lemma plane_keys:
  "keys_under ''kd48/meta/service-types/'' (plane_store r) =
     (''kd48/meta/service-types/user'', ''user'') # (if r < 2 then [] else [(''kd48/meta/service-types/lobby'', ''lobby'')])"
  "keys_under ''kd48/meta/gateway-routes/'' (plane_store r) =
     (''kd48/meta/gateway-routes/login'', ''login'') # (if r < 2 then [] else [(''kd48/meta/gateway-routes/ping'', ''ping'')])"
  by (simp_all add: keys_under_def plane_store_def)

lemma plane_suffixes:
  "keySuffix ''kd48/meta/service-types/user'' ''kd48/meta/service-types/'' = ''user''"
  "keySuffix ''kd48/meta/service-types/lobby'' ''kd48/meta/service-types/'' = ''lobby''"
  "keySuffix ''kd48/meta/gateway-routes/login'' ''kd48/meta/gateway-routes/'' = ''login''"
  "keySuffix ''kd48/meta/gateway-routes/ping'' ''kd48/meta/gateway-routes/'' = ''ping''"
  by (simp_all add: keySuffix_def)

lemma plane_types:
  "\<exists>n. dl_conns (dial_types (plane_env\<lparr>be_dial_ok := (\<lambda>i target cfg. True)\<rparr>) ''kd48/meta/service-types/''
      (keys_under ''kd48/meta/service-types/'' (plane_store r)) next) = (''user'', next) # n"
  by (simp add: plane_keys dial_types_def add_type_def plane_suffixes validateServiceTypeSpec_def plane_env_def
      demo_type_def Let_def)

lemma plane_rebuild:
  fixes m :: "(nat, unit) manager"
  assumes "prefixes m = plane_prefixes"
  obtains m' where "bootstrap (plane_env\<lparr>be_dial_ok := (\<lambda>i target cfg. True)\<rparr>) now (read_meta plane_store m r1 r2) m = (None, m')"
proof -
  have m: "m_typesPrefix m = ''kd48/meta/service-types/''" "m_routesPrefix m = ''kd48/meta/gateway-routes/''"
    using assms by (simp_all add: prefixes_def plane_prefixes_def)
  have "dl_conns (dial_types (plane_env\<lparr>be_dial_ok := (\<lambda>i target cfg. True)\<rparr>) ''kd48/meta/service-types/''
      (keys_under ''kd48/meta/service-types/'' (plane_store r1)) (m_next m)) \<noteq> []"
    using plane_types by (metis list.distinct(1))
  moreover have "keys_under ''kd48/meta/service-types/'' (plane_store r1) \<noteq> []" "keys_under ''kd48/meta/gateway-routes/'' (plane_store r2) \<noteq> []"
    by (simp_all add: plane_keys)
  ultimately have "fst (bootstrap (plane_env\<lparr>be_dial_ok := (\<lambda>i target cfg. True)\<rparr>) now (read_meta plane_store m r1 r2) m) = None"
    by (simp add: bootstrap_def build_def read_meta_def m Let_def)
  then show ?thesis by (metis that prod.collapse)
qed

lemma plane_opened:
  obtains p :: "(nat, unit) route_plane" where "reachable (plane_start plane_env plane_store) (plane_step plane_env plane_store) p"
    "rp_rev p = 1" "rp_watch p = Watching 2 2" "m_reloadTimer (rp_manager p) = None" "rp_reads p = None"
    "prefixes (rp_manager p) = plane_prefixes"
proof -
  define m0 :: "(nat, unit) manager"
    where "m0 = newManager newAtomicRouter ''kd48/meta/service-types/'' ''kd48/meta/gateway-routes/''"
  have m0: "prefixes m0 = plane_prefixes" "m_reloadTimer m0 = None" "m_start m0"
    by (auto simp: m0_def newManager_def prefixes_def plane_prefixes_def defaultWatchPrefix_def m_start_def)
  obtain m1 where m1: "bootstrap (plane_env\<lparr>be_dial_ok := (\<lambda>i target cfg. True)\<rparr>) 0 (read_meta plane_store m0 1 1) m0 = (None, m1)"
    using plane_rebuild[OF m0(1)] by blast
  note b = bootstrap_publishes[OF m1 order_refl]
  define p where "p = \<lparr>rp_rev = 1, rp_manager = m1, rp_watch = Unwatched, rp_reads = None, rp_built = (1, 1), rp_failed = False\<rparr>"
  have "plane_start plane_env plane_store p"
    unfolding plane_start_def using m0(3) m1 by (intro exI[of _ m0]) (auto simp: p_def)
  then have "reachable (plane_start plane_env plane_store) (plane_step plane_env plane_store) p" by (rule reachable_start)
  then have "reachable (plane_start plane_env plane_store) (plane_step plane_env plane_store)
      (p\<lparr>rp_watch := Watching (m_nextWatchRev (rp_manager p)) (m_nextWatchRev (rp_manager p)), rp_failed := False\<rparr>)"
    by (rule reachable_step) (rule rp_open, simp add: p_def)
  then show ?thesis by (rule that) (use b m0 in \<open>simp_all add: p_def\<close>)
qed

lemma routes_follow_metadata_witness:
  "\<exists>p :: (nat, unit) route_plane.
     reachable (plane_start plane_env plane_store) (plane_step plane_env plane_store) p \<and> rp_rev p = 2 \<and>
     published_from plane_env (rp_manager p)
       [(''kd48/meta/service-types/user'', ''user''), (''kd48/meta/service-types/lobby'', ''lobby'')]
       [(''kd48/meta/gateway-routes/login'', ''login''), (''kd48/meta/gateway-routes/ping'', ''ping'')]"
proof -
  let ?reach = "reachable (plane_start plane_env plane_store) (plane_step plane_env plane_store)"
  obtain p :: "(nat, unit) route_plane" where p: "?reach p" "rp_rev p = 1" "rp_watch p = Watching 2 2"
    "rp_reads p = None" "prefixes (rp_manager p) = plane_prefixes"
    by (rule plane_opened) blast
  define p1 where "p1 = p\<lparr>rp_rev := rp_rev p + 1\<rparr>"
  define p2 where "p2 = p1\<lparr>rp_watch := Watching 2 3, rp_manager := snd (run_turn plane_env 0 (Watch_response :: string run_event) (rp_manager p1))\<rparr>"
  define p3 where "p3 = begin_rebuild False (p2\<lparr>rp_manager := (rp_manager p2)\<lparr>m_reloadTimer := None\<rparr>\<rparr>)"
  define p4 where "p4 = p3\<lparr>rp_reads := Some \<lparr>rd_run = False, rd_types = 2, rd_routes = Some 2\<rparr>\<rparr>"
  have "prefixes (rp_manager p4) = plane_prefixes"
    using p(5) by (simp add: p1_def p2_def p3_def p4_def begin_rebuild_def scheduleReload_def prefixes_def)
  then obtain m' where m': "bootstrap (plane_env\<lparr>be_dial_ok := (\<lambda>i target cfg. True)\<rparr>) 1000000000
      (read_meta plane_store (rp_manager p4) 2 2) (rp_manager p4) = (None, m')"
    by (rule plane_rebuild)
  define p5 where "p5 = (end_rebuild \<lparr>rd_run = False, rd_types = 2, rd_routes = Some 2\<rparr> m' p4)\<lparr>rp_built := (2, 2), rp_failed := False\<rparr>"
  note defs = p1_def p2_def p3_def p4_def p5_def begin_rebuild_def end_rebuild_def after_rebuild_def scheduleReload_def
  have "?reach p1" unfolding p1_def using p(1) rp_write by (rule reachable_step)
  then have "?reach p2" unfolding p2_def by (rule reachable_step) (rule rp_response[of _ 2 2 3], simp_all add: p1_def p)
  then have "?reach p3"
    unfolding p3_def by (rule reachable_step) (rule rp_fire[OF _ _ order_refl], simp_all add: p1_def p2_def p scheduleReload_def)
  then have "?reach p4"
    by (rule reachable_step)
       (use rp_routes[of p3 "\<lparr>rd_run = False, rd_types = 2, rd_routes = None\<rparr>" plane_env plane_store] in \<open>simp add: defs p\<close>)
  then have r: "?reach p5"
    by (rule reachable_step)
       (use rp_publish[of p4 "\<lparr>rd_run = False, rd_types = 2, rd_routes = Some 2\<rparr>" 2 _ plane_env _ plane_store m'] m'
         in \<open>simp add: p4_def p5_def\<close>)
  note b = bootstrap_publishes[OF m' order_refl]
  have q: "rp_watch p5 = Watching 2 (rp_rev p5 + 1)" "m_reloadTimer (rp_manager p5) = None" "rp_reads p5 = None"
    "\<not> rp_failed p5" "prefixes (rp_manager p5) = plane_prefixes" "rp_rev p5 = 2" "fst (rp_built p5) = 2"
    using b(1,2) p by (simp_all add: defs prefixes_def)
  then have "prefix (m_watchPrefix (rp_manager p5)) (m_typesPrefix (rp_manager p5))"
    "prefix (m_watchPrefix (rp_manager p5)) (m_routesPrefix (rp_manager p5))"
    "m_typesPrefix (rp_manager p5) = ''kd48/meta/service-types/''" "m_routesPrefix (rp_manager p5) = ''kd48/meta/gateway-routes/''"
    by (simp_all add: prefixes_def plane_prefixes_def)
  then show ?thesis
    using routes_follow_metadata[OF r q(1-4)] r q(6,7) by (intro exI[of _ p5]) (simp add: still_none plane_keys)
qed

lemma plane_stale:
  fixes m :: "(nat, unit) manager"
  assumes "published_from plane_env m (keys_under ''kd48/meta/service-types/'' (plane_store 1)) (keys_under ''kd48/meta/gateway-routes/'' (plane_store 2))"
    and "prefixes m = plane_prefixes"
  shows "router_get (m_router m) ''ping'' = None"
proof -
  have m: "m_typesPrefix m = ''kd48/meta/service-types/''" "m_routesPrefix m = ''kd48/meta/gateway-routes/''"
    using assms(2) by (simp_all add: prefixes_def plane_prefixes_def)
  obtain ok t r n routes rv n1 cl where
    b: "build (plane_env\<lparr>be_dial_ok := ok\<rparr>) ''kd48/meta/service-types/'' ''kd48/meta/gateway-routes/''
         (\<lparr>em_types = Inr (keys_under ''kd48/meta/service-types/'' (plane_store 1), t),
           em_routes = Inr (keys_under ''kd48/meta/gateway-routes/'' (plane_store 2), r)\<rparr> :: string etcd_meta) n =
       (Inr (routes, m_activeConns m, rv), n1, cl)"
    and g: "router_get (m_router m) = routes_get (Some routes)"
    using assms(1) unfolding published_from_def m by blast
  define conns where "conns = dl_conns (dial_types (plane_env\<lparr>be_dial_ok := ok\<rparr>) ''kd48/meta/service-types/''
      (keys_under ''kd48/meta/service-types/'' (plane_store 1)) n)"
  have "map_of conns ''lobby'' = None"
    by (simp add: conns_def plane_keys dial_types_def add_type_def plane_suffixes plane_env_def Let_def split: option.split)
  then have "map_of (pick_winners (plane_env\<lparr>be_dial_ok := ok\<rparr>) ''kd48/meta/gateway-routes/''
      (keys_under ''kd48/meta/gateway-routes/'' (plane_store 2)) conns) ''ping'' = None"
    by (simp add: pick_winners_def plane_keys add_route_def plane_suffixes plane_env_def demo_route_def Let_def
        split: option.split)
  then show ?thesis using build_success(6)[OF b, of _ _ _ _ "''ping''"] by (simp add: g conns_def)
qed

lemma type_change_between_reads_missed_witness:
  "\<exists>p p' :: (nat, unit) route_plane.
     reachable (plane_start plane_env plane_store) (plane_step plane_env plane_store) p \<and>
     (plane_step plane_env plane_store)\<^sup>*\<^sup>* p p' \<and> rp_rev p' = 2 \<and> rp_watch p' = Watching 3 3 \<and>
     m_reloadTimer (rp_manager p') = None \<and> rp_reads p' = None \<and> router_get (m_router (rp_manager p')) ''ping'' = None"
proof -
  obtain p0 :: "(nat, unit) route_plane" where
    p0: "reachable (plane_start plane_env plane_store) (plane_step plane_env plane_store) p0" "rp_rev p0 = 1" "rp_watch p0 = Watching 2 2"
      "m_reloadTimer (rp_manager p0) = None" "rp_reads p0 = None" "prefixes (rp_manager p0) = plane_prefixes"
    by (rule plane_opened) blast
  define p where "p = p0\<lparr>rp_watch := Retrying\<rparr>"
  have r: "reachable (plane_start plane_env plane_store) (plane_step plane_env plane_store) p"
    unfolding p_def using p0(1) rp_end[OF p0(3)] by (rule reachable_step)
  have p: "rp_watch p = Retrying" "rp_reads p = None" "m_reloadTimer (rp_manager p) = None" "prefixes (rp_manager p) = plane_prefixes"
    "rp_rev p = 1"
    using p0 by (simp_all add: p_def)
  obtain m' where m': "bootstrap (plane_env\<lparr>be_dial_ok := (\<lambda>i target cfg. True)\<rparr>) 0
      (read_meta plane_store (rp_manager p) (rp_rev p) (rp_rev p + 1)) (rp_manager p) = (None, m')"
    using plane_rebuild[OF p(4)] by blast
  obtain p' where p': "(plane_step plane_env plane_store)\<^sup>*\<^sup>* p p'" "rp_rev p' = 2" "rp_watch p' = Watching 3 3"
    "m_reloadTimer (rp_manager p') = None" "rp_reads p' = None" "prefixes (rp_manager p') = plane_prefixes"
    "published_from plane_env (rp_manager p')
      (keys_under (m_typesPrefix (rp_manager p')) (plane_store 1)) (keys_under (m_routesPrefix (rp_manager p')) (plane_store 2))"
    using type_change_between_reads_missed[OF p(1-3) m'] by (auto simp: p(4,5))
  moreover have "m_typesPrefix (rp_manager p') = ''kd48/meta/service-types/''" "m_routesPrefix (rp_manager p') = ''kd48/meta/gateway-routes/''"
    using p'(6) by (simp_all add: prefixes_def plane_prefixes_def)
  ultimately have "router_get (m_router (rp_manager p')) ''ping'' = None" using plane_stale by simp
  then show ?thesis using r p' by blast
qed

end
