(* ===== verification/Session_Table.thy ===== *)
theory Session_Table
  imports User_Service
begin

text \<open>
  The sessions of the user service as one table. The service keeps two Redis keys per user,
  the user's token and the token's session, each with its own deadline; what it means is a
  map from users to a token, a name and a deadline, in which issuing a session is one update.
  This theory states that table and shows that the two keys implement it.
\<close>

section \<open>The abstract table\<close>

type_synonym session_table = "64 word \<Rightarrow> (string \<times> string \<times> int) option"

text \<open>A request to issue a session: what it meets outside, the user and the name.\<close>

type_synonym session_request = "call_env \<times> 64 word \<times> string"

definition table_issue :: "int \<Rightarrow> session_request \<Rightarrow> session_table \<Rightarrow> session_table" where
  "table_issue ttl req tbl =
     (case req of (env, uid, name) \<Rightarrow>
        (case ce_rand env of
           None \<Rightarrow> tbl
         | Some bs \<Rightarrow> if ce_eval env = Request_lost then tbl
                      else tbl(uid \<mapsto> (hex_encode bs, name, ce_now env + ttl))))"

definition service_issue ::
  "('r, 'd) user_service \<Rightarrow> session_request \<Rightarrow> ('r, 'd) user_world \<Rightarrow> ('r, 'd) user_world" where
  "service_issue us req w = (case req of (env, uid, name) \<Rightarrow> snd (issueSessionAtomic us env uid name w))"

section \<open>The representation\<close>

definition until :: "int \<Rightarrow> ('a \<times> int) option \<Rightarrow> ('a \<times> int) option" where
  "until now x = (case x of Some (v, d) \<Rightarrow> if now < d then x else None | None \<Rightarrow> None)"

definition represents :: "int \<Rightarrow> (string \<Rightarrow> (string \<times> int) option) \<Rightarrow> session_table \<Rightarrow> bool" where
  "represents now e tbl \<longleftrightarrow>
     (\<forall>u t d. until now (e (user_key u)) = Some (t, d) \<longleftrightarrow> (\<exists>n. tbl u = Some (t, n, d) \<and> now < d)) \<and>
     (\<forall>t v d. until now (e (session_key t)) = Some (v, d) \<longleftrightarrow>
        (\<exists>u n. tbl u = Some (t, n, d) \<and> now < d \<and> v = session_value u n))"

lemma until_Some: "until now x = Some (v, d) \<longleftrightarrow> x = Some (v, d) \<and> now < d"
  by (auto simp: until_def split: option.splits if_splits)

lemma live_until: "live now x = map_option fst (until now x)"
  by (auto simp: live_def until_def split: option.split)

lemma represents_empty:
  "(\<And>u. e (user_key u) = None) \<Longrightarrow> (\<And>t. e (session_key t) = None) \<Longrightarrow> represents now e Map.empty"
  by (simp add: represents_def until_Some)

lemma represents_later:
  assumes "represents now e tbl" and "now \<le> now'"
  shows "represents now' e tbl"
proof -
  have "until now' x = Some (v, d) \<longleftrightarrow> until now x = Some (v, d) \<and> now' < d" for x :: "(string \<times> int) option" and v d
    using assms(2) by (auto simp: until_Some)
  moreover have "now' < d \<Longrightarrow> now < d" for d using assms(2) by simp
  ultimately show ?thesis using assms(1) unfolding represents_def by (simp only:) blast
qed

text \<open>A token belongs to one user.\<close>

lemma represents_owner:
  assumes "represents now e tbl" and "tbl u = Some (t, n, d)" and "now < d"
    and "tbl u' = Some (t, n', d')" and "now < d'"
  shows "u = u'"
proof -
  have "until now (e (session_key t)) = Some (session_value u n, d)"
    "until now (e (session_key t)) = Some (session_value u' n', d')"
    using assms unfolding represents_def by blast+
  then show ?thesis by (simp add: session_value_inj)
qed

text \<open>The script's effect on the keys is the table's update, for a token nobody holds.\<close>

lemma represents_issue:
  assumes rep: "represents now e tbl" and ttl: "0 < ttl"
    and fresh: "\<And>u n d. tbl u = Some (token, n, d) \<Longrightarrow> now < d \<Longrightarrow> False"
  shows "represents now
    ((case live now (e (user_key uid)) of
        Some t \<Rightarrow> if t \<noteq> token then e(session_key t := None) else e
      | None \<Rightarrow> e)
     (user_key uid \<mapsto> (token, now + ttl), session_key token \<mapsto> (session_value uid name, now + ttl)))
    (tbl(uid \<mapsto> (token, name, now + ttl)))" (is "represents now ?e ?tbl")
proof -
  have users: "until now (e (user_key u)) = Some (t, d) \<longleftrightarrow> (\<exists>n. tbl u = Some (t, n, d) \<and> now < d)" for u t d
    using rep by (simp add: represents_def)
  have sessions: "until now (e (session_key t)) = Some (v, d) \<longleftrightarrow>
      (\<exists>u n. tbl u = Some (t, n, d) \<and> now < d \<and> v = session_value u n)" for t v d
    using rep by (simp add: represents_def)
  have old: "live now (e (user_key uid)) = Some t \<longleftrightarrow> (\<exists>n d. tbl uid = Some (t, n, d) \<and> now < d)" for t
    using users[of uid t] by (auto simp: live_until)
  have key: "?e (user_key u) = (if u = uid then Some (token, now + ttl) else e (user_key u))" for u
    using user_key_session_key by (auto simp: user_key_inj split: option.split)
  have session: "?e (session_key t) =
      (if t = token then Some (session_value uid name, now + ttl)
       else if live now (e (user_key uid)) = Some t then None else e (session_key t))" for t
    using user_key_session_key[symmetric] by (auto simp: session_key_inj split: option.split)
  have "until now (?e (session_key t)) = Some (v, d) \<longleftrightarrow>
      (\<exists>u n. ?tbl u = Some (t, n, d) \<and> now < d \<and> v = session_value u n)" for t v d
  proof (cases "t = token")
    case True
    then show ?thesis using fresh ttl unfolding session True by (auto simp: until_Some)
  next
    case False
    show ?thesis
    proof (cases "live now (e (user_key uid)) = Some t")
      case True
      then obtain n0 d0 where "tbl uid = Some (t, n0, d0)" "now < d0" using old by blast
      then have "\<not> (\<exists>u n. u \<noteq> uid \<and> tbl u = Some (t, n, d) \<and> now < d)"
        using represents_owner[OF rep] by blast
      then show ?thesis using True False unfolding session by (auto simp: until_def)
    next
      case gone: False
      then have "\<not> (\<exists>n. tbl uid = Some (t, n, d) \<and> now < d)" using old by blast
      then show ?thesis using gone False sessions[of t v d] unfolding session by auto
    qed
  qed
  moreover have "until now (?e (user_key u)) = Some (t, d) \<longleftrightarrow> (\<exists>n. ?tbl u = Some (t, n, d) \<and> now < d)" for u t d
    using users[of u t d] ttl unfolding key by (auto simp: until_Some)
  ultimately show ?thesis unfolding represents_def by blast
qed

section \<open>One request\<close>

lemma issue_refines:
  assumes "redis_contract (us_redisOps us) en" and "0 < us_tokenTTL us"
    and route: "resolveRedis (us_router us) routingKeySession = Inr (Some h, p)"
    and rep: "represents (ce_now env) (en (uw_redis w h)) tbl"
    and fresh: "\<And>bs u n d. ce_rand env = Some bs \<Longrightarrow> tbl u = Some (hex_encode bs, n, d) \<Longrightarrow> False"
  shows "represents (ce_now env) (en (uw_redis (service_issue us (env, uid, name) w) h))
           (table_issue (us_tokenTTL us) (env, uid, name) tbl)"
proof (cases "ce_rand env")
  case None
  then show ?thesis using rep by (simp add: service_issue_def table_issue_def issueSessionAtomic_def)
next
  case (Some bs)
  let ?r = "uw_redis w h" and ?t = "hex_encode bs"
  obtain r' old where r': "login_script (us_redisOps us) (ce_now env) (user_key uid) (session_key ?t) (us_tokenTTL us)
      (session_value uid name) ?t ?r = (r', Inr old)"
    and e: "en r' = ((case live (ce_now env) (en ?r (user_key uid)) of
                Some t \<Rightarrow> if t \<noteq> ?t then (en ?r)(session_key t := None) else en ?r
              | None \<Rightarrow> en ?r)
             (user_key uid \<mapsto> (?t, ce_now env + us_tokenTTL us),
              session_key ?t \<mapsto> (session_value uid name, ce_now env + us_tokenTTL us)))"
    using login_script_ok[OF assms(1,2), of "ce_now env" uid ?t "session_value uid name" ?r] by blast
  have "represents (ce_now env) (en r') (tbl(uid \<mapsto> (?t, name, ce_now env + us_tokenTTL us)))"
    unfolding e using fresh[OF Some] by (intro represents_issue[OF rep assms(2)]) blast
  then show ?thesis
    using rep r'
    by (cases "ce_eval env")
       (simp_all add: service_issue_def table_issue_def Some issueSessionAtomic_def Let_def route eval_login_def)
qed

section \<open>Runs\<close>

definition tokens :: "session_request list \<Rightarrow> string list" where
  "tokens reqs = List.map_filter (\<lambda>(env, uid, name). map_option hex_encode (ce_rand env)) reqs"

text \<open>The clock does not run backwards.\<close>

fun in_time :: "int \<Rightarrow> session_request list \<Rightarrow> int \<Rightarrow> bool" where
  "in_time now [] later \<longleftrightarrow> now \<le> later"
| "in_time now ((env, uid, name) # reqs) later \<longleftrightarrow> now \<le> ce_now env \<and> in_time (ce_now env) reqs later"

lemma table_tokens:
  "table_issue ttl (env, uid, name) tbl u = Some (t, n, d) \<Longrightarrow>
     tbl u = Some (t, n, d) \<or> t \<in> set (tokens [(env, uid, name)])"
  by (auto simp: table_issue_def tokens_def List.map_filter_simps split: option.splits if_splits)

lemma tokens_Cons: "tokens (req # reqs) = tokens [req] @ tokens reqs"
  by (cases req) (auto simp: tokens_def List.map_filter_simps split: option.split)

lemma run_refines:
  assumes "redis_contract (us_redisOps us) en" and "0 < us_tokenTTL us"
    and "resolveRedis (us_router us) routingKeySession = Inr (Some h, p)"
    and "represents now (en (uw_redis w h)) tbl" and "in_time now reqs later"
    and "distinct (tokens reqs)" and "\<And>u t n d. tbl u = Some (t, n, d) \<Longrightarrow> t \<notin> set (tokens reqs)"
  shows "represents later (en (uw_redis (fold (service_issue us) reqs w) h))
           (fold (table_issue (us_tokenTTL us)) reqs tbl)"
  using assms(4-)
proof (induction reqs arbitrary: now w tbl)
  case Nil
  then show ?case by (simp add: represents_later)
next
  case (Cons req reqs)
  obtain env uid name where req: "req = (env, uid, name)" by (metis prod.exhaust)
  have toks: "tokens (req # reqs) = tokens [req] @ tokens reqs" by (rule tokens_Cons)
  have rep: "represents (ce_now env) (en (uw_redis w h)) tbl"
    using Cons.prems(1,2) represents_later by (auto simp: req)
  have fresh: "False" if "ce_rand env = Some bs" "tbl u = Some (hex_encode bs, n, d)" for bs u n d
  proof -
    have "hex_encode bs \<in> set (tokens [req])" using that(1) by (simp add: tokens_def req List.map_filter_simps)
    then show False using Cons.prems(4)[OF that(2)] by (simp add: toks)
  qed
  have new: "t \<notin> set (tokens reqs)" if "table_issue (us_tokenTTL us) req tbl u = Some (t, n, d)" for u t n d
    using table_tokens[OF that[unfolded req]] Cons.prems(3) Cons.prems(4)[of u t n d] toks
    by (auto simp: req)
  have "represents later (en (uw_redis (fold (service_issue us) reqs (service_issue us req w)) h))
      (fold (table_issue (us_tokenTTL us)) reqs (table_issue (us_tokenTTL us) req tbl))"
    using Cons.prems(2,3) new toks
    by (intro Cons.IH[where now = "ce_now env"])
       (auto simp: req intro!: issue_refines[OF assms(1-3) rep fresh])
  then show ?case by simp
qed

section \<open>Properties\<close>

text \<open>
  C9. The two Redis keys implement one table of sessions: after any run of requests, whatever
  of them was lost on the way there or back, a token is a live session of a user exactly when
  the table, updated once per request that reached Redis, has it for the user with a later
  deadline, and the user's key then names that token. (The random tokens are taken to be
  different.)
\<close>

theorem sessions_refine_table:
  assumes "redis_contract (us_redisOps us) en" and "0 < us_tokenTTL us"
    and "resolveRedis (us_router us) routingKeySession = Inr (Some h, p)"
    and "\<forall>k. en (uw_redis w h) k = None" and "in_time now reqs later" and "distinct (tokens reqs)"
    and "tbl = fold (table_issue (us_tokenTTL us)) reqs Map.empty"
    and "e = en (uw_redis (fold (service_issue us) reqs w) h)"
  shows "(live later (e (session_key t)) = Some (session_value u n) \<longleftrightarrow> (\<exists>d. tbl u = Some (t, n, d) \<and> later < d)) \<and>
    (live later (e (user_key u)) = Some t \<longleftrightarrow> (\<exists>n d. tbl u = Some (t, n, d) \<and> later < d))"
proof -
  have "represents now (en (uw_redis w h)) Map.empty" using assms(4) by (simp add: represents_empty)
  then have "represents later e tbl"
    unfolding assms(7,8) by (rule run_refines[OF assms(1-3) _ assms(5,6)]) simp
  then show ?thesis by (auto simp: represents_def live_until session_value_inj)
qed

definition bob_twice :: "session_request list" where
  "bob_twice =
     [(demo_call 100 [1], 7, ''bob''), ((demo_call 200 [2])\<lparr>ce_eval := Reply_lost\<rparr>, 7, ''bob''),
      ((demo_call 300 [3])\<lparr>ce_eval := Request_lost\<rparr>, 7, ''bob'')]"

lemma hex_bytes: "hex_encode [1] = ''01''" "hex_encode [2] = ''02''" "hex_encode [3] = ''03''"
  by code_simp+

lemma sessions_refine_table_witness:
  "live 400 (uw_redis (fold (service_issue (demo_service 3600)) bob_twice demo_world) 0 (session_key ''02'')) =
     Some (session_value 7 ''bob'') \<and>
   live 400 (uw_redis (fold (service_issue (demo_service 3600)) bob_twice demo_world) 0 (session_key ''01'')) \<noteq>
     Some (session_value 7 ''bob'')"
proof -
  have s: "us_redisOps (demo_service 3600) = kv_ops" "us_tokenTTL (demo_service 3600) = 3600"
    "us_router (demo_service 3600) = one_pool_router" by (simp_all add: demo_service_def)
  have clean: "\<forall>k. uw_redis demo_world 0 k = None" by (simp add: demo_world_def)
  have time: "in_time 0 bob_twice 400" by (simp add: bob_twice_def demo_call_def)
  have dist: "distinct (tokens bob_twice)"
    by (simp add: tokens_def bob_twice_def demo_call_def List.map_filter_simps hex_bytes)
  have tbl: "fold (table_issue 3600) bob_twice Map.empty = [7 \<mapsto> (''02'', ''bob'', 3800)]"
    by (simp add: bob_twice_def table_issue_def demo_call_def hex_bytes)
  note r = sessions_refine_table[where us = "demo_service 3600" and w = demo_world and h = 0, unfolded s,
      OF kv_contract _ one_pool_resolve(1) clean time dist refl refl]
  show ?thesis using r[of "''02''" 7 "''bob''"] r[of "''01''" 7 "''bob''"] by (simp add: tbl)
qed

end
