(* ===== verification/Csv_Values.thy ===== *)
theory Csv_Values
  imports Go_Strings
begin

text \<open>
  The cell values of the configuration tool, \<open>tools/config-loader/internal/csvparser/types.go\<close>
  and the errors of \<open>internal/errors/errors.go\<close>. A cell's \<open>Parsed\<close> field is an
  \<open>interface{}\<close>; \<open>go_value\<close> has one constructor for each dynamic type the parser stores.
  Integers keep their width. The four loops over map entries share two definitions, one for
  integer keys and one for string keys, that differ from the source only in the width and
  the value parser they are given.
\<close>

section \<open>Errors\<close>

datatype error_code =
    ErrInvalidCSV | ErrInvalidHeader | ErrInvalidTypeName | ErrInvalidValue | ErrTimeEmpty
  | ErrDuplicateColumn | ErrDuplicateKey | ErrMySQLWrite | ErrRedisPublish | ErrGoGenerate

record tool_error =
  te_code :: error_code
  te_message :: string
  te_line :: int
  te_column :: int
  te_raw :: string
  te_meta :: "string \<Rightarrow> int option"

definition new_error :: "error_code \<Rightarrow> string \<Rightarrow> int \<Rightarrow> int \<Rightarrow> string \<Rightarrow> tool_error" where
  "new_error code message line column raw =
     \<lparr>te_code = code, te_message = message, te_line = line, te_column = column, te_raw = raw,
      te_meta = Map.empty\<rparr>"

definition error_with_meta :: "string \<Rightarrow> int \<Rightarrow> tool_error \<Rightarrow> tool_error" where
  "error_with_meta key v e = e\<lparr>te_meta := (te_meta e)(key \<mapsto> v)\<rparr>"

definition error_text :: "tool_error \<Rightarrow> string" where
  "error_text e =
     (if 0 \<le> te_line e \<and> 0 \<le> te_column e
      then ''['' @ show_int (te_line e) @ '':'' @ show_int (te_column e) @ ''] '' @ te_message e @
           '': '' @ te_raw e
      else te_message e @ '': '' @ te_raw e)"

section \<open>Values\<close>

datatype go_value =
    VInt32 "32 word"
  | VInt64 "64 word"
  | VString string
  | VInt32s "32 word list"
  | VInt64s "64 word list"
  | VStrings "string list"
  | VMapInt32 "32 word \<Rightarrow> string option"
  | VMapInt64 "64 word \<Rightarrow> string option"
  | VMapToInt32 "string \<Rightarrow> 32 word option"
  | VMapToInt64 "string \<Rightarrow> 64 word option"
  | VMapStrings "string \<Rightarrow> string option"
  | VMapAny "string \<Rightarrow> string option"

record cell =
  cell_raw :: string
  cell_parsed :: go_value
  cell_type :: string
  cell_empty :: bool

text \<open>\<open>strconv.ParseInt(s, 10, w)\<close> and the conversion to the type of that width.\<close>

definition parse_word :: "string \<Rightarrow> 'w::len word option" where
  "parse_word s = map_option word_of_int (parse_int LENGTH('w) s)"

text \<open>The first \<open>=\<close> outside quotes (any quote character toggles), else the first \<open>=\<close> at all.\<close>

fun bare_equals :: "bool \<Rightarrow> nat \<Rightarrow> string \<Rightarrow> nat option" where
  "bare_equals in_quote i [] = None"
| "bare_equals in_quote i (c # cs) =
     (let q = (if c = CHR 0x27 \<or> c = CHR 0x22 then \<not> in_quote else in_quote)
      in if c = CHR ''='' \<and> \<not> q then Some i else bare_equals q (Suc i) cs)"

definition splitKeyValue :: "string \<Rightarrow> string list" where
  "splitKeyValue s =
     (case bare_equals False 0 s of
        Some i \<Rightarrow> [take i s, drop (Suc i) s]
      | None \<Rightarrow>
          if CHR ''='' \<in> set s
          then [takeWhile (\<lambda>c. c \<noteq> CHR ''='') s, tl (dropWhile (\<lambda>c. c \<noteq> CHR ''='') s)]
          else [s])"

definition unquote :: "string \<Rightarrow> string" where
  "unquote s =
     (if 2 \<le> length s \<and>
         (hd s = CHR 0x27 \<and> last s = CHR 0x27 \<or> hd s = CHR 0x22 \<and> last s = CHR 0x22)
      then butlast (tl s) else s)"

definition invalid_value :: "string \<Rightarrow> string \<Rightarrow> tool_error" where
  "invalid_value message raw = new_error ErrInvalidValue message (- 1) (- 1) raw"

text \<open>The array loop: a blank element is zero.\<close>

fun parse_elems :: "string \<Rightarrow> string list \<Rightarrow> (tool_error, 'w::len word list) result" where
  "parse_elems message [] = Inr []"
| "parse_elems message (p # ps) =
     (if trim_space p = [] then bind_result (parse_elems message ps) (\<lambda>xs. Inr (0 # xs))
      else (case parse_word p of
              None \<Rightarrow> Inl (invalid_value message p)
            | Some n \<Rightarrow> bind_result (parse_elems message ps) (\<lambda>xs. Inr (n # xs))))"

text \<open>
  One map entry: \<open>None\<close> when the loop skips it, else the key, trimmed and unquoted, and the
  value, trimmed.
\<close>

definition entry_kv :: "string \<Rightarrow> (string \<times> string) option" where
  "entry_kv entry =
     (let e = trim_space entry
      in if e = [] then None
         else (case splitKeyValue e of
                 [k, v] \<Rightarrow> Some (unquote (trim_space k), trim_space v)
               | _ \<Rightarrow> None))"

text \<open>Integer keys: \<open>prev\<close> are the entries before the current one.\<close>

fun int_key_loop ::
  "string \<Rightarrow> string list \<Rightarrow> string list \<Rightarrow> ('w::len word \<Rightarrow> string option)
     \<Rightarrow> (tool_error, 'w word \<Rightarrow> string option) result"
where
  "int_key_loop message prev [] m = Inr m"
| "int_key_loop message prev (e # es) m =
     (case entry_kv e of
        None \<Rightarrow> int_key_loop message (prev @ [e]) es m
      | Some (k, v) \<Rightarrow>
          (case parse_word k :: 'w word option of
             None \<Rightarrow> Inl (invalid_value message k)
           | Some n \<Rightarrow>
               if list_ex (\<lambda>p. case entry_kv p of
                                 None \<Rightarrow> False
                               | Some (pk, pv) \<Rightarrow> parse_word pk = Some n) prev
               then Inl (new_error ErrDuplicateKey ''duplicate key in map'' (- 1) (- 1) k)
               else int_key_loop message (prev @ [e]) es (m(n \<mapsto> unquote v))))"

text \<open>String keys: \<open>value\<close> parses an entry's value, a later entry replaces an earlier one.\<close>

fun string_key_loop ::
  "string \<Rightarrow> (string \<Rightarrow> 'v option) \<Rightarrow> string list \<Rightarrow> (string \<Rightarrow> 'v option)
     \<Rightarrow> (tool_error, string \<Rightarrow> 'v option) result"
where
  "string_key_loop message val [] m = Inr m"
| "string_key_loop message val (e # es) m =
     (case entry_kv e of
        None \<Rightarrow> string_key_loop message val es m
      | Some (k, v) \<Rightarrow>
          (case val v of
             None \<Rightarrow> Inl (invalid_value message k)
           | Some x \<Rightarrow> string_key_loop message val es (m(k \<mapsto> x))))"

section \<open>The parser of one cell\<close>

definition parseInt32 :: "bool \<Rightarrow> string \<Rightarrow> (tool_error, go_value) result" where
  "parseInt32 blank raw =
     (if blank then Inr (VInt32 0)
      else (case parse_word raw of
              None \<Rightarrow> Inl (invalid_value ''invalid int32 value'' raw)
            | Some n \<Rightarrow> Inr (VInt32 n)))"

definition parseInt64 :: "bool \<Rightarrow> string \<Rightarrow> (tool_error, go_value) result" where
  "parseInt64 blank raw =
     (if blank then Inr (VInt64 0)
      else (case parse_word raw of
              None \<Rightarrow> Inl (invalid_value ''invalid int64 value'' raw)
            | Some n \<Rightarrow> Inr (VInt64 n)))"

definition parseTime :: "bool \<Rightarrow> string \<Rightarrow> (tool_error, go_value) result" where
  "parseTime blank raw =
     (if blank then Inl (new_error ErrTimeEmpty ''time field cannot be empty'' (- 1) (- 1) raw)
      else Inr (VString raw))"

definition parseInt32Array :: "bool \<Rightarrow> string \<Rightarrow> (tool_error, go_value) result" where
  "parseInt32Array blank raw =
     (if blank then Inr (VInt32s [])
      else bind_result (parse_elems ''invalid int32 in array'' (go_split ''|'' raw)) (\<lambda>xs. Inr (VInt32s xs)))"

definition parseInt64Array :: "bool \<Rightarrow> string \<Rightarrow> (tool_error, go_value) result" where
  "parseInt64Array blank raw =
     (if blank then Inr (VInt64s [])
      else bind_result (parse_elems ''invalid int64 in array'' (go_split ''|'' raw)) (\<lambda>xs. Inr (VInt64s xs)))"

definition parseStringArray :: "bool \<Rightarrow> string \<Rightarrow> (tool_error, go_value) result" where
  "parseStringArray blank raw =
     (if blank then Inr (VStrings [])
      else Inr (VStrings (map (\<lambda>p. unquote (trim_space p)) (go_split ''|'' raw))))"

text \<open>The key and value types of a map type; the caller has seen an \<open>=\<close> in it.\<close>

definition map_types :: "string \<Rightarrow> string \<times> string" where
  "map_types typ =
     (let parts = go_split ''='' typ in (trim_space (parts ! 0), trim_space (parts ! 1)))"

definition parseMap :: "bool \<Rightarrow> string \<Rightarrow> string \<Rightarrow> (tool_error, go_value) result" where
  "parseMap blank raw typ =
     (if blank then Inr (VMapAny Map.empty)
      else (let (keyType, valueType) = map_types typ; entries = go_split ''|'' raw
            in if keyType = ''int32'' \<and> valueType = ''string''
               then bind_result (int_key_loop ''invalid int32 key'' [] entries Map.empty) (\<lambda>m. Inr (VMapInt32 m))
               else if keyType = ''int64'' \<and> valueType = ''string''
               then bind_result (int_key_loop ''invalid int64 key'' [] entries Map.empty) (\<lambda>m. Inr (VMapInt64 m))
               else if keyType = ''string'' \<and> valueType = ''int32''
               then bind_result (string_key_loop ''invalid int32 value for key'' parse_word entries Map.empty)
                      (\<lambda>m. Inr (VMapToInt32 m))
               else if keyType = ''string'' \<and> valueType = ''int64''
               then bind_result (string_key_loop ''invalid int64 value for key'' parse_word entries Map.empty)
                      (\<lambda>m. Inr (VMapToInt64 m))
               else if keyType = ''string'' \<and> valueType = ''string''
               then bind_result (string_key_loop [] (\<lambda>v. Some (unquote v)) entries Map.empty)
                      (\<lambda>m. Inr (VMapStrings m))
               else bind_result (string_key_loop [] (\<lambda>v. Some (unquote v)) entries Map.empty)
                      (\<lambda>m. Inr (VMapAny m))))"

definition parseValue :: "string \<Rightarrow> string \<Rightarrow> (tool_error, cell) result" where
  "parseValue raw typ =
     (let blank = (trim_space raw = []);
          parsed =
            (if typ = ''int32'' then parseInt32 blank raw
             else if typ = ''int64'' then parseInt64 blank raw
             else if typ = ''string'' then Inr (VString raw)
             else if typ = ''time'' then parseTime blank raw
             else if typ = ''int32[]'' then parseInt32Array blank raw
             else if typ = ''int64[]'' then parseInt64Array blank raw
             else if typ = ''string[]'' then parseStringArray blank raw
             else if CHR ''='' \<in> set typ then parseMap blank raw typ
             else Inr (VString raw))
      in bind_result parsed
           (\<lambda>v. Inr \<lparr>cell_raw = raw, cell_parsed = v, cell_type = typ, cell_empty = blank\<rparr>))"

section \<open>Facts\<close>

lemma parse_word_sint: "parse_word s = Some (w :: 'w::len word) \<longleftrightarrow> parse_int LENGTH('w) s = Some (sint w)"
proof -
  have "sint (word_of_int i :: 'w word) = i" if "parse_int LENGTH('w) s = Some i" for i
    using parse_int_range[OF that]
    by (simp add: in_range_def sint_sbintrunc' signed_take_bit_int_eq_self)
  then show ?thesis by (auto simp: parse_word_def)
qed

lemma sint_in_range: "in_range LENGTH('w) (sint (w :: 'w::len word))"
  using sint_ge[of w] sint_lt[of w] by (simp add: in_range_def)

lemma parse_word_show: "parse_word (show_int (sint w)) = Some (w :: 'w::len word)"
  by (simp add: parse_word_sint parse_int_show_int sint_in_range)

text \<open>Trimming keeps characters that occur in no white space.\<close>

lemma strip_words_keeps:
  "c \<in> set s \<Longrightarrow> \<forall>w \<in> set ws. c \<notin> set w \<Longrightarrow> c \<in> set (strip_words ws s)"
proof (induction ws s rule: strip_words.induct)
  case (1 ws s)
  show ?case
  proof (cases "find (\<lambda>w. w \<noteq> [] \<and> prefix w s) ws")
    case None
    then show ?thesis using "1.prems" by (simp add: strip_words.simps[of ws s])
  next
    case (Some w)
    then have w: "prefix w s" "w \<in> set ws" by (auto simp: find_Some_iff)
    then have "c \<in> set (drop (length w) s)" using "1.prems" by (auto simp: prefix_def)
    then show ?thesis using "1.IH"[OF Some] "1.prems"(2) by (simp add: strip_words.simps[of ws s] Some)
  qed
qed

lemma trim_space_keeps:
  assumes "c \<in> set s" and "is_digit c"
  shows "c \<in> set (trim_space s)"
proof -
  have sp: "list_all (\<lambda>w. list_all (\<lambda>d. \<not> is_digit d) w) unicode_spaces" by code_simp
  then have "\<forall>w \<in> set unicode_spaces. c \<notin> set w" using assms(2) by (auto simp: list_all_iff)
  then show ?thesis
    using strip_words_keeps[of c s unicode_spaces]
      strip_words_keeps[of c "rev (strip_words unicode_spaces s)" "map rev unicode_spaces"] assms(1)
    by (simp add: trim_space_def trim_left_def trim_right_def)
qed

lemma show_int_digit: "\<exists>c \<in> set (show_int i). is_digit c"
proof -
  have "\<exists>c \<in> set (show_nat n). is_digit c" for n
    using show_nat_chars[of "hd (show_nat n)" n] by (meson hd_in_set show_nat_nonempty)
  then show ?thesis by (auto simp: show_int_def)
qed

lemma trim_show_int: "trim_space (show_int i) \<noteq> []"
  using show_int_digit[of i] trim_space_keeps by fastforce

lemma show_int_no_bar: "CHR ''|'' \<notin> set (show_int i)"
  by (auto simp: show_int_def is_digit_def dest!: show_nat_chars)

lemma parse_elems_show: "parse_elems msg (map (\<lambda>w. show_int (sint w)) ws) = Inr (ws :: 'w::len word list)"
  by (induction ws) (simp_all add: trim_show_int parse_word_show)

lemma go_join_blank:
  assumes "ws \<noteq> []"
  shows "trim_space (go_join ''|'' (map (\<lambda>w. show_int (sint w)) ws)) \<noteq> []"
proof -
  obtain w ws' where ws: "ws = w # ws'" using assms by (cases ws) auto
  have "set (show_int (sint w)) \<subseteq> set (go_join ''|'' (map (\<lambda>w. show_int (sint w)) ws))"
    by (cases ws') (auto simp: ws)
  then show ?thesis using show_int_digit[of "sint w"] trim_space_keeps by fastforce
qed

lemma split_join_ints:
  "ws \<noteq> [] \<Longrightarrow> go_split ''|'' (go_join ''|'' (map (\<lambda>w. show_int (sint w)) ws)) =
     map (\<lambda>w. show_int (sint w)) ws"
  by (rule go_split_join) (auto simp: show_int_no_bar)

text \<open>The entries a map loop does not skip, and what the two loops build from them.\<close>

definition entries_of :: "string \<Rightarrow> (string \<times> string) list" where
  "entries_of raw = List.map_filter entry_kv (go_split ''|'' raw)"

definition key_words :: "(string \<times> string) list \<Rightarrow> 'w::len word option list" where
  "key_words kvs = map (\<lambda>kv. parse_word (fst kv)) kvs"

lemma seen_keys:
  "list_ex (\<lambda>p. case entry_kv p of None \<Rightarrow> False | Some (pk, pv) \<Rightarrow> parse_word pk = Some n) prev \<longleftrightarrow>
     Some n \<in> set (key_words (List.map_filter entry_kv prev))"
  by (induction prev) (auto simp: key_words_def List.map_filter_simps split: option.split)

lemma map_filter_append: "List.map_filter f (xs @ ys) = List.map_filter f xs @ List.map_filter f ys"
  by (simp add: List.map_filter_def)

lemma int_key_loop_Inr:
  fixes m :: "'w::len word \<Rightarrow> string option"
  assumes "distinct (key_words (List.map_filter entry_kv prev) :: 'w word option list)"
    and "None \<notin> set (key_words (List.map_filter entry_kv prev) :: 'w word option list)"
  shows "int_key_loop msg prev es m = Inr m' \<longleftrightarrow>
     (let ks = key_words (List.map_filter entry_kv (prev @ es)) :: 'w word option list
      in distinct ks \<and> None \<notin> set ks \<and>
         m' = fold (\<lambda>(k, v) m. m(the (parse_word k) \<mapsto> unquote v)) (List.map_filter entry_kv es) m)"
  using assms
proof (induction es arbitrary: prev m)
  case Nil
  then show ?case by (auto simp: List.map_filter_simps)
next
  case (Cons e es)
  show ?case
  proof (cases "entry_kv e")
    case None
    then have "List.map_filter entry_kv (prev @ [e]) = List.map_filter entry_kv prev"
      by (simp add: map_filter_append List.map_filter_simps)
    then show ?thesis using Cons.IH[of "prev @ [e]" m] Cons.prems None
      by (simp add: List.map_filter_simps)
  next
    case (Some kv)
    obtain k v where kv: "kv = (k, v)" by (cases kv)
    have app: "List.map_filter entry_kv (prev @ [e]) = List.map_filter entry_kv prev @ [(k, v)]"
      by (simp add: map_filter_append List.map_filter_simps Some kv)
    have all: "key_words (List.map_filter entry_kv (prev @ e # es)) =
        (key_words (List.map_filter entry_kv prev) @ parse_word k #
         key_words (List.map_filter entry_kv es) :: 'w word option list)"
      by (simp add: map_filter_append List.map_filter_simps Some kv key_words_def)
    show ?thesis
    proof (cases "parse_word k :: 'w word option")
      case None
      then show ?thesis unfolding all by (simp add: Some kv Let_def)
    next
      case (Some n)
      note n = this
      show ?thesis
      proof (cases "Some n \<in> set (key_words (List.map_filter entry_kv prev))")
        case True
        then show ?thesis unfolding all by (simp add: \<open>entry_kv e = Some kv\<close> kv n seen_keys Let_def)
      next
        case False
        have "distinct (key_words (List.map_filter entry_kv (prev @ [e])) :: 'w word option list)"
          "None \<notin> set (key_words (List.map_filter entry_kv (prev @ [e])) :: 'w word option list)"
          using Cons.prems False n by (simp_all add: app key_words_def)
        note IH = Cons.IH[OF this, of "m(n \<mapsto> unquote v)"]
        have "int_key_loop msg prev (e # es) m = int_key_loop msg (prev @ [e]) es (m(n \<mapsto> unquote v))"
          using False by (simp add: \<open>entry_kv e = Some kv\<close> kv n seen_keys)
        moreover have "List.map_filter entry_kv (e # es) = (k, v) # List.map_filter entry_kv es"
          by (simp add: \<open>entry_kv e = Some kv\<close> kv List.map_filter_simps)
        ultimately show ?thesis using IH by (simp add: n del: fun_upd_apply)
      qed
    qed
  qed
qed

lemma distinct_map_the: "distinct os \<Longrightarrow> None \<notin> set os \<Longrightarrow> distinct (map the os)"
  by (induction os) (auto simp: image_iff, metis option.collapse)

lemma fold_upd_distinct:
  "distinct (map f kvs) \<Longrightarrow>
     fold (\<lambda>kv m. m(f kv \<mapsto> g kv)) kvs m = m ++ map_of (map (\<lambda>kv. (f kv, g kv)) kvs)"
proof (induction kvs arbitrary: m)
  case (Cons kv kvs)
  have "map_of (map (\<lambda>kv. (f kv, g kv)) kvs) (f kv) = None"
    using Cons.prems by (simp add: map_of_eq_None_iff image_image)
  then show ?case using Cons by (auto simp: fun_eq_iff map_add_def split: option.split)
qed simp

lemma string_key_loop_Inr:
  "string_key_loop msg val es m = Inr m' \<longleftrightarrow>
     list_all (\<lambda>(k, v). val v \<noteq> None) (List.map_filter entry_kv es) \<and>
     m' = m ++ map_of (rev (map (\<lambda>(k, v). (k, the (val v))) (List.map_filter entry_kv es)))"
proof (induction es arbitrary: m)
  case Nil
  then show ?case by (auto simp: List.map_filter_simps)
next
  case (Cons e es)
  show ?case
  proof (cases "entry_kv e")
    case None
    then show ?thesis using Cons by (simp add: List.map_filter_simps)
  next
    case (Some kv)
    obtain k v where kv: "kv = (k, v)" by (cases kv)
    have mf: "List.map_filter entry_kv (e # es) = (k, v) # List.map_filter entry_kv es"
      by (simp add: Some kv List.map_filter_simps)
    show ?thesis
    proof (cases "val v")
      case None
      then show ?thesis unfolding mf by (simp add: Some kv)
    next
      case (Some x)
      have step: "string_key_loop msg val (e # es) m = string_key_loop msg val es (m(k \<mapsto> x))"
        by (simp add: \<open>entry_kv e = Some kv\<close> kv Some)
      have "m(k \<mapsto> x) ++ map_of ys = m ++ map_of (ys @ [(k, x)])" for ys
        by (simp add: map_add_def fun_eq_iff split: option.split)
      then show ?thesis unfolding step mf Cons by (simp add: Some del: fun_upd_apply map_of_append)
    qed
  qed
qed

section \<open>Properties\<close>

text \<open>
  Integer arrays survive the spreadsheet: any list of 32-bit integers, the extreme ones
  and the empty list included, written in decimal and joined with bars, is read back by
  \<open>ParseValue\<close> as exactly that list; and so is any list of 64-bit integers.
\<close>

theorem int_array_round_trip:
  fixes ws :: "32 word list" and vs :: "64 word list"
  shows "map_option cell_parsed
      (case parseValue (go_join ''|'' (map (\<lambda>w. show_int (sint w)) ws)) ''int32[]'' of
         Inl e \<Rightarrow> None | Inr c \<Rightarrow> Some c) = Some (VInt32s ws) \<and>
    map_option cell_parsed
      (case parseValue (go_join ''|'' (map (\<lambda>w. show_int (sint w)) vs)) ''int64[]'' of
         Inl e \<Rightarrow> None | Inr c \<Rightarrow> Some c) = Some (VInt64s vs)"
  by (cases "ws = []"; cases "vs = []")
     (simp_all add: parseValue_def parseInt32Array_def parseInt64Array_def go_join_blank
       split_join_ints parse_elems_show)

text \<open>
  A cell of type \<open>int32=string\<close> is accepted exactly when every entry's key is a 32-bit
  integer and no key repeats (written alike or not, as in \<open>7\<close> and \<open>07\<close>): the repetition
  fails the whole sheet although the source's comment promises only a warning. The result
  maps each key to its unquoted value, entries without an \<open>=\<close> being skipped.
\<close>

theorem int_keys_distinct:
  assumes "trim_space raw \<noteq> []"
  shows "parseValue raw ''int32=string'' = Inr c \<longleftrightarrow>
    (let ks = key_words (entries_of raw) :: 32 word option list
     in distinct ks \<and> None \<notin> set ks \<and>
        c = \<lparr>cell_raw = raw,
             cell_parsed = VMapInt32 (map_of (map (\<lambda>(k, v). (the (parse_word k), unquote v)) (entries_of raw))),
             cell_type = ''int32=string'', cell_empty = False\<rparr>)"
proof -
  let ?ks = "key_words (entries_of raw) :: 32 word option list"
  have t: "map_types ''int32=string'' = (''int32'', ''string'')" by code_simp
  have loop: "int_key_loop ''invalid int32 key'' [] (go_split ''|'' raw) Map.empty = Inr m \<longleftrightarrow>
      distinct ?ks \<and> None \<notin> set ?ks \<and>
      m = fold (\<lambda>(k, v) m. m(the (parse_word k) \<mapsto> unquote v)) (entries_of raw) Map.empty" for m :: "32 word \<Rightarrow> string option"
    using int_key_loop_Inr[of "[]" _ "go_split ''|'' raw" "Map.empty :: 32 word \<Rightarrow> string option" m]
    by (simp add: entries_of_def key_words_def List.map_filter_simps Let_def)
  have "distinct (map (\<lambda>kv. the (parse_word (fst kv) :: 32 word option)) (entries_of raw))"
    if "distinct ?ks" and "None \<notin> set ?ks"
    using distinct_map_the[OF that] by (simp add: key_words_def comp_def)
  then have fold: "fold (\<lambda>(k, v) m. m(the (parse_word k :: 32 word option) \<mapsto> unquote v)) (entries_of raw) Map.empty =
      map_of (map (\<lambda>(k, v). (the (parse_word k), unquote v)) (entries_of raw))"
    if "distinct ?ks" and "None \<notin> set ?ks"
    using that fold_upd_distinct[of "\<lambda>kv. the (parse_word (fst kv) :: 32 word option)" "entries_of raw" "\<lambda>kv. unquote (snd kv)"
        Map.empty]
    by (simp add: case_prod_unfold)
  show ?thesis
    using loop fold assms by (auto simp: parseValue_def parseMap_def t Let_def)
qed

lemma int_keys_distinct_witness:
  "\<not> (\<exists>c. parseValue ''7=a|07=b'' ''int32=string'' = Inr c)"
proof -
  have b: "trim_space ''7=a|07=b'' \<noteq> []" by code_simp
  have k: "key_words (entries_of ''7=a|07=b'') = [Some 7, Some (7 :: 32 word)]"
    by code_simp
  show ?thesis by (simp add: int_keys_distinct[OF b] k)
qed

text \<open>
  A cell of type \<open>string=int64\<close> is accepted exactly when every entry's value is a 64-bit
  integer, and then the last entry of a repeated key silently wins, where an integer key
  would have been refused.
\<close>

theorem string_keys_last_wins:
  assumes "trim_space raw \<noteq> []"
  shows "parseValue raw ''string=int64'' = Inr c \<longleftrightarrow>
    None \<notin> set (map (\<lambda>(k, v). parse_word v :: 64 word option) (entries_of raw)) \<and>
    c = \<lparr>cell_raw = raw,
         cell_parsed = VMapToInt64 (map_of (rev (map (\<lambda>(k, v). (k, the (parse_word v))) (entries_of raw)))),
         cell_type = ''string=int64'', cell_empty = False\<rparr>"
proof -
  have t: "map_types ''string=int64'' = (''string'', ''int64'')" by code_simp
  have all: "list_all (\<lambda>(k, v). parse_word v \<noteq> (None :: 64 word option)) (entries_of raw) \<longleftrightarrow>
      None \<notin> set (map (\<lambda>(k, v). parse_word v :: 64 word option) (entries_of raw))"
    by (force simp: list_all_iff)
  show ?thesis
    using assms all
    by (auto simp: parseValue_def parseMap_def t string_key_loop_Inr entries_of_def[symmetric] Let_def)
qed

lemma string_keys_last_wins_witness:
  "\<exists>c. parseValue ''a=1|a=2'' ''string=int64'' = Inr c \<and>
     cell_parsed c = VMapToInt64 [''a'' \<mapsto> 2]"
proof -
  have b: "trim_space ''a=1|a=2'' \<noteq> []" by code_simp
  have e: "entries_of ''a=1|a=2'' = [(''a'', ''1''), (''a'', ''2'')]" by code_simp
  have p: "parse_word ''1'' = Some (1 :: 64 word)" "parse_word ''2'' = Some (2 :: 64 word)" by code_simp+
  show ?thesis by (simp add: string_keys_last_wins[OF b] e p fun_eq_iff)
qed

end
