(* ===== verification/Csv_Sheet.thy ===== *)
theory Csv_Sheet
  imports Csv_Values
begin

text \<open>
  A sheet from its text: what \<open>parser.go\<close> uses of Go's \<open>encoding/csv\<close> (the reader with
  \<open>LazyQuotes\<close>, comma separated, every record as long as the first), the parser itself and
  the sheet's types (\<open>sheet.go\<close>), and the header checks of
  \<open>internal/validator/validator.go\<close>. Reading never fails in the model: the input is a file
  already opened.
\<close>

section \<open>The CSV reader\<close>

text \<open>Lines with their line feed; \<open>readLine\<close> drops a carriage return before it or at the end.\<close>

fun raw_lines :: "string \<Rightarrow> string \<Rightarrow> string list" where
  "raw_lines acc [] = (if acc = [] then [] else [rev acc])"
| "raw_lines acc (c # cs) =
     (if c = CHR 0x0A then rev (c # acc) # raw_lines [] cs else raw_lines (c # acc) cs)"

definition normal_line :: "string \<Rightarrow> string" where
  "normal_line l =
     (if suffix [CHR 0x0D, CHR 0x0A] l then take (length l - 2) l @ [CHR 0x0A]
      else if suffix [CHR 0x0D] l then butlast l else l)"

definition csv_lines :: "string \<Rightarrow> string list" where
  "csv_lines text = map normal_line (raw_lines [] text)"

definition drop_newline :: "string \<Rightarrow> string" where
  "drop_newline l = (if l \<noteq> [] \<and> last l = CHR 0x0A then butlast l else l)"

definition before :: "char \<Rightarrow> string \<Rightarrow> string" where
  "before c l = takeWhile (\<lambda>d. d \<noteq> c) l"

definition after :: "char \<Rightarrow> string \<Rightarrow> string" where
  "after c l = tl (dropWhile (\<lambda>d. d \<noteq> c) l)"

lemma after_shorter: "c \<in> set l \<Longrightarrow> length (after c l) < length l"
  unfolding after_def by (induction l) auto

lemma after_tl_shorter:
  "c \<in> set l \<Longrightarrow> length (after c l) - Suc 0 < length l"
  "c \<in> set l \<Longrightarrow> Suc (2 * (length (after c l) - Suc 0)) < 2 * length l"
  by (drule after_shorter, arith)+

lemma drop_newline_Nil [simp]: "drop_newline [] = []"
  by (simp add: drop_newline_def)

text \<open>
  One record, the line and those after it: \<open>csv_fields\<close> at the start of a field, \<open>csv_quoted\<close>
  inside a quoted one with its text so far. The result is the fields and the lines left.
\<close>

function (sequential) csv_fields :: "string \<Rightarrow> string list \<Rightarrow> string list \<times> string list"
  and csv_quoted :: "string \<Rightarrow> string \<Rightarrow> string list \<Rightarrow> string list \<times> string list"
where
  "csv_fields line ls =
     (if line \<noteq> [] \<and> hd line = CHR 0x22 then csv_quoted [] (tl line) ls
      else if CHR '','' \<in> set line
      then (let (fs, rest) = csv_fields (after (CHR '','') line) ls
            in (before (CHR '','') line # fs, rest))
      else ([drop_newline line], ls))"
| "csv_quoted acc line ls =
     (if CHR 0x22 \<in> set line
      then (let pre = before (CHR 0x22) line; post = after (CHR 0x22) line
            in if post \<noteq> [] \<and> hd post = CHR 0x22
               then csv_quoted (acc @ pre @ [CHR 0x22]) (tl post) ls
               else if post \<noteq> [] \<and> hd post = CHR '',''
               then (let (fs, rest) = csv_fields (tl post) ls in ((acc @ pre) # fs, rest))
               else if drop_newline post = [] then ([acc @ pre], ls)
               else csv_quoted (acc @ pre @ [CHR 0x22]) post ls)
      else if line \<noteq> []
      then (case ls of
              [] \<Rightarrow> csv_quoted (acc @ line) [] []
            | l # ls' \<Rightarrow> csv_quoted (acc @ line) l ls')
      else ([acc], ls))"
  by pat_completeness auto

termination
  by (relation "measure (\<lambda>x. case x of
        Inl (line, ls) \<Rightarrow> 2 * (length line + length ls + sum_list (map length ls)) + 1
      | Inr (acc, line, ls) \<Rightarrow> 2 * (length line + length ls + sum_list (map length ls)))")
     (auto simp: after_shorter after_tl_shorter)

declare csv_fields.simps [simp del] csv_quoted.simps [simp del]

lemma csv_rest_length:
  "length (snd (csv_fields line ls)) \<le> length ls"
  "length (snd (csv_quoted acc line ls)) \<le> length ls"
proof (induction line ls and acc line ls rule: csv_fields_csv_quoted.induct)
  case (1 line ls)
  then show ?case
    by (subst csv_fields.simps) (simp add: case_prod_unfold Let_def)
next
  case (2 acc line ls)
  then show ?case
    by (subst csv_quoted.simps, cases ls) (simp_all add: case_prod_unfold Let_def le_SucI)
qed

lemma csv_fields_nonempty: "fst (csv_fields line ls) \<noteq> []" "fst (csv_quoted acc line ls) \<noteq> []"
proof (induction line ls and acc line ls rule: csv_fields_csv_quoted.induct)
  case (1 line ls)
  then show ?case
    by (subst csv_fields.simps) (simp add: case_prod_unfold Let_def)
next
  case (2 acc line ls)
  then show ?case
    by (subst csv_quoted.simps, cases ls) (simp_all add: case_prod_unfold Let_def le_SucI)
qed

lemma csv_rest_snd: "(fs, rest) = csv_fields line ls \<Longrightarrow> length rest \<le> length ls"
  using csv_rest_length(1)[of line ls] by (metis snd_conv)

text \<open>
  \<open>ReadAll\<close>: blank lines are skipped, and every record must have as many fields as the
  first (\<open>None\<close> is \<open>ErrFieldCount\<close>).
\<close>

function csv_records :: "nat option \<Rightarrow> string list \<Rightarrow> string list list option" where
  "csv_records n [] = Some []"
| "csv_records n (l # ls) =
     (if drop_newline l = [] then csv_records n ls
      else (let (fs, rest) = csv_fields l ls
            in if n \<noteq> None \<and> n \<noteq> Some (length fs) then None
               else map_option (\<lambda>rs. fs # rs) (csv_records (Some (length fs)) rest)))"
  by pat_completeness auto
termination
  by (relation "measure (\<lambda>(n, ls). length ls)") (auto simp: less_Suc_eq_le dest: arg_cong[of _ _ snd] intro: csv_rest_snd)

definition read_all :: "string \<Rightarrow> string list list option" where
  "read_all text = csv_records None (csv_lines text)"

section \<open>The sheet and the parser\<close>

record column_header =
  ch_description :: string
  ch_name :: string
  ch_type :: string

record sheet =
  sh_headers :: "column_header list"
  sh_rows :: "cell list list"
  sh_configName :: string
  sh_sourceFile :: string

text \<open>\<open>filepath.Base\<close> on Unix.\<close>

definition filepath_base :: "string \<Rightarrow> string" where
  "filepath_base path =
     (if path = [] then ''.''
      else (let p = rev (dropWhile (\<lambda>c. c = CHR ''/'') (rev path))
            in if p = [] then ''/'' else last (go_split ''/'' p)))"

definition deriveConfigName :: "string \<Rightarrow> string" where
  "deriveConfigName filename =
     go_split ''--'' (trim_suffix (filepath_base filename) ''.csv'') ! 0"

datatype parse_error = Read_failed | Too_few_rows | Cell_failed string

datatype parse_outcome = Parsed sheet | Parse_failed parse_error | Parse_panic

fun parse_cells :: "column_header list \<Rightarrow> nat \<Rightarrow> string list \<Rightarrow> (tool_error, cell list) result" where
  "parse_cells headers j [] = Inr []"
| "parse_cells headers j (raw # raws) =
     bind_result (parseValue raw (if j < length headers then ch_type (headers ! j) else []))
       (\<lambda>c. bind_result (parse_cells headers (Suc j) raws) (\<lambda>cs. Inr (c # cs)))"

fun parse_rows :: "column_header list \<Rightarrow> string list list \<Rightarrow> (tool_error, cell list list) result" where
  "parse_rows headers [] = Inr []"
| "parse_rows headers (r # rs) =
     bind_result (parse_cells headers 0 r) (\<lambda>c. bind_result (parse_rows headers rs) (\<lambda>cs. Inr (c # cs)))"

definition parse_sheet :: "string \<Rightarrow> string \<Rightarrow> parse_outcome" where
  "parse_sheet text filename =
     (case read_all text of
        None \<Rightarrow> Parse_failed Read_failed
      | Some (r0 # r1 # r2 # rs) \<Rightarrow>
          if length r1 < length r0 \<or> length r2 < length r0 then Parse_panic
          else (let headers = map (\<lambda>i. \<lparr>ch_description = r0 ! i, ch_name = r1 ! i, ch_type = r2 ! i\<rparr>)
                                [0..<length r0]
                in (case parse_rows headers rs of
                      Inl e \<Rightarrow> Parse_failed (Cell_failed (error_text e))
                    | Inr rows \<Rightarrow>
                        Parsed \<lparr>sh_headers = headers, sh_rows = rows,
                                sh_configName = deriveConfigName filename, sh_sourceFile = filename\<rparr>))
      | Some _ \<Rightarrow> Parse_failed Too_few_rows)"

section \<open>The validator\<close>

text \<open>The regular expression \<open>^[a-z][a-z0-9_]*$\<close>.\<close>

definition lower_char :: "char \<Rightarrow> bool" where
  "lower_char c \<longleftrightarrow> 97 \<le> (of_char c :: nat) \<and> (of_char c :: nat) \<le> 122"

definition snake_case :: "string \<Rightarrow> bool" where
  "snake_case s \<longleftrightarrow>
     s \<noteq> [] \<and> lower_char (hd s) \<and> list_all (\<lambda>c. lower_char c \<or> is_digit c \<or> c = CHR ''_'') (tl s)"

fun validate_headers ::
  "(string \<Rightarrow> nat option) \<Rightarrow> nat \<Rightarrow> column_header list \<Rightarrow> tool_error option" where
  "validate_headers seen i [] = None"
| "validate_headers seen i (h # hs) =
     (if \<not> snake_case (ch_name h)
      then Some (new_error ErrInvalidHeader ''column name must be snake_case'' 1 (int i) (ch_name h))
      else (case seen (ch_name h) of
              Some prev \<Rightarrow>
                Some (error_with_meta ''previous_column'' (int prev)
                  (new_error ErrDuplicateColumn ''duplicate column name'' 1 (int i) (ch_name h)))
            | None \<Rightarrow> validate_headers (seen(ch_name h \<mapsto> i)) (Suc i) hs))"

definition validate_sheet :: "sheet \<Rightarrow> tool_error option" where
  "validate_sheet s = validate_headers Map.empty 0 (sh_headers s)"

section \<open>Facts\<close>

lemma csv_records_lengths:
  "csv_records n ls = Some rs \<Longrightarrow> r \<in> set rs \<Longrightarrow>
     (case n of Some k \<Rightarrow> length r = k | None \<Rightarrow> length r = length (hd rs)) \<and> r \<noteq> []"
proof (induction n ls arbitrary: rs r rule: csv_records.induct)
  case (1 n)
  then show ?case by simp
next
  case (2 n l ls)
  show ?case
  proof (cases "drop_newline l = []")
    case True
    then show ?thesis using "2.IH"(1)[OF True] "2.prems" by simp
  next
    case False
    obtain fs rest where f: "csv_fields l ls = (fs, rest)" by (cases "csv_fields l ls")
    then have n: "n = None \<or> n = Some (length fs)" using "2.prems"(1) False by (auto split: if_splits)
    obtain rs' where rs': "csv_records (Some (length fs)) rest = Some rs'" "rs = fs # rs'"
      using "2.prems"(1) False f n by auto
    have "r = fs \<or> length r = length fs \<and> r \<noteq> []"
      using "2.IH"(2)[OF False f[symmetric] refl _ rs'(1)] "2.prems"(2) n rs'(2) by auto
    moreover have "fs \<noteq> []" using csv_fields_nonempty(1)[of l ls] f by simp
    ultimately show ?thesis using n rs'(2) by auto
  qed
qed

lemma read_all_lengths:
  assumes "read_all text = Some (r0 # rs)" and "r \<in> set (r0 # rs)"
  shows "length r = length r0"
  using csv_records_lengths[of None _ "r0 # rs" r] assms by (simp add: read_all_def)

lemma parse_cells_Inr:
  "parse_cells headers j raws = Inr cs \<longleftrightarrow>
     length cs = length raws \<and>
     list_all (\<lambda>i. parseValue (raws ! i) (if j + i < length headers then ch_type (headers ! (j + i)) else []) = Inr (cs ! i))
       [0..<length raws]"
proof (induction raws arbitrary: j cs)
  case Nil
  then show ?case by auto
next
  case (Cons raw raws)
  have up: "[0..<Suc (length raws)] = 0 # map Suc [0..<length raws]"
    by (subst upt_conv_Cons) (simp_all only: map_Suc_upt zero_less_Suc)
  show ?case
    by (cases cs) (auto simp: Cons.IH up list.pred_map comp_def simp del: upt_Suc)
qed

lemma parse_rows_Inr:
  "parse_rows headers rs = Inr rows \<longleftrightarrow>
     length rows = length rs \<and> list_all2 (\<lambda>r row. parse_cells headers 0 r = Inr row) rs rows"
proof (induction rs arbitrary: rows)
  case Nil
  then show ?case by auto
next
  case (Cons r rs)
  then show ?case by (cases rows) auto
qed

text \<open>Every row has a cell for each column, and each cell is the parse of its text at the column's type.\<close>

definition well_formed_sheet :: "sheet \<Rightarrow> bool" where
  "well_formed_sheet sh \<longleftrightarrow>
     sh_headers sh \<noteq> [] \<and>
     (\<forall>row \<in> set (sh_rows sh). length row = length (sh_headers sh) \<and>
        (\<forall>j < length row. parseValue (cell_raw (row ! j)) (ch_type (sh_headers sh ! j)) = Inr (row ! j)))"

lemma parseValue_raw: "parseValue raw typ = Inr c \<Longrightarrow> cell_raw c = raw \<and> cell_type c = typ"
  by (auto simp: parseValue_def Let_def split: if_splits)

lemma parse_cells_row:
  assumes "parse_cells headers 0 raws = Inr row" and "length raws = length headers"
  shows "length row = length headers \<and>
    (\<forall>j < length row. parseValue (cell_raw (row ! j)) (ch_type (headers ! j)) = Inr (row ! j))"
proof -
  have row: "length row = length raws"
    "\<forall>j < length raws. parseValue (raws ! j) (ch_type (headers ! j)) = Inr (row ! j)"
    using assms by (auto simp: parse_cells_Inr list_all_iff)
  then show ?thesis using assms(2) parseValue_raw by metis
qed

lemma validate_headers_None:
  "validate_headers seen i hs = None \<longleftrightarrow>
     list_all (\<lambda>h. snake_case (ch_name h)) hs \<and> distinct (map ch_name hs) \<and>
     list_all (\<lambda>h. seen (ch_name h) = None) hs"
proof (induction hs arbitrary: seen i)
  case (Cons h hs)
  have "list_all (\<lambda>x. (seen(ch_name h \<mapsto> i)) (ch_name x) = None) hs \<longleftrightarrow>
      ch_name h \<notin> ch_name ` set hs \<and> list_all (\<lambda>x. seen (ch_name x) = None) hs"
    by (induction hs) auto
  then show ?case using Cons.IH[of "seen(ch_name h \<mapsto> i)" "Suc i"] by (simp del: fun_upd_apply split: option.split) blast
qed simp

text \<open>The error the validator reports about the column at index \<open>i\<close>, the first offending one.\<close>

definition offends :: "column_header list \<Rightarrow> nat \<Rightarrow> tool_error \<Rightarrow> bool" where
  "offends hs i e \<longleftrightarrow>
     i < length hs \<and> te_line e = 1 \<and> te_column e = int i \<and> te_raw e = ch_name (hs ! i) \<and>
     list_all (\<lambda>h. snake_case (ch_name h)) (take i hs) \<and> distinct (map ch_name (take i hs)) \<and>
     (if snake_case (ch_name (hs ! i))
      then te_code e = ErrDuplicateColumn \<and>
           (\<exists>j < i. te_meta e ''previous_column'' = Some (int j) \<and> ch_name (hs ! j) = ch_name (hs ! i))
      else te_code e = ErrInvalidHeader)"

lemma validate_headers_cases:
  assumes "i \<le> length hs" and "list_all (\<lambda>h. snake_case (ch_name h)) (take i hs)"
    and "distinct (map ch_name (take i hs))"
    and "\<forall>p j. seen p = Some j \<longleftrightarrow> j < i \<and> ch_name (hs ! j) = p"
  shows "case validate_headers seen i (drop i hs) of
     None \<Rightarrow> list_all (\<lambda>h. snake_case (ch_name h)) hs \<and> distinct (map ch_name hs)
   | Some e \<Rightarrow> (\<exists>k. offends hs k e)"
  using assms
proof (induction "length hs - i" arbitrary: seen i)
  case 0
  then show ?case by simp
next
  case (Suc n)
  then have i: "i < length hs" by simp
  then have d: "drop i hs = hs ! i # drop (Suc i) hs" by (simp add: Cons_nth_drop_Suc)
  show ?case
  proof (cases "snake_case (ch_name (hs ! i)) \<and> seen (ch_name (hs ! i)) = None")
    case False
    have "\<exists>e. validate_headers seen i (drop i hs) = Some e \<and> offends hs i e"
    proof (cases "snake_case (ch_name (hs ! i))")
      case True
      then obtain j where j: "seen (ch_name (hs ! i)) = Some j" using False by auto
      then have "j < i \<and> ch_name (hs ! j) = ch_name (hs ! i)" using Suc.prems(4) by blast
      then show ?thesis
        using True j i Suc.prems(2,3) by (auto simp: d offends_def new_error_def error_with_meta_def)
    next
      case False
      then show ?thesis using i Suc.prems(2,3) by (simp add: d offends_def new_error_def)
    qed
    then show ?thesis by auto
  next
    case True
    have new: "ch_name (hs ! j) \<noteq> ch_name (hs ! i)" if "j < i" for j
      using True Suc.prems(4) that by (metis option.distinct(1))
    have tk: "take (Suc i) hs = take i hs @ [hs ! i]" using i by (simp add: take_Suc_conv_app_nth)
    have "ch_name (hs ! i) \<notin> ch_name ` set (take i hs)"
      using new by (fastforce simp: in_set_conv_nth)
    then have dist: "distinct (map ch_name (take (Suc i) hs))" using Suc.prems(3) by (simp add: tk)
    have sn: "list_all (\<lambda>h. snake_case (ch_name h)) (take (Suc i) hs)" using Suc.prems(2) True by (simp add: tk)
    have seen: "\<forall>p j. (seen(ch_name (hs ! i) \<mapsto> i)) p = Some j \<longleftrightarrow> j < Suc i \<and> ch_name (hs ! j) = p"
      using Suc.prems(4) new by (auto simp: less_Suc_eq)
    have n: "n = length hs - Suc i" using Suc.hyps(2) by simp
    have step: "validate_headers seen i (drop i hs) =
        validate_headers (seen(ch_name (hs ! i) \<mapsto> i)) (Suc i) (drop (Suc i) hs)"
      using True by (simp add: d)
    show ?thesis unfolding step by (rule Suc.hyps(1)[OF n _ sn dist seen]) (use i in simp)
  qed
qed

lemma parse_sheet_short:
  assumes "read_all text = Some rs" and "length rs < 3"
  shows "parse_sheet text filename = Parse_failed Too_few_rows"
proof -
  consider "rs = []" | r0 where "rs = [r0]" | r0 r1 where "rs = [r0, r1]"
    using assms(2) by (cases rs; cases "tl rs"; cases "tl (tl rs)") auto
  then show ?thesis by cases (simp_all add: parse_sheet_def assms(1))
qed

lemma parse_sheet_outcome:
  "case parse_sheet text filename of
     Parsed sh \<Rightarrow> well_formed_sheet sh \<and> sh_configName sh = deriveConfigName filename
   | Parse_failed e \<Rightarrow> (e = Read_failed) = (read_all text = None)
   | Parse_panic \<Rightarrow> False"
proof (cases "\<exists>r0 r1 r2 rs. read_all text = Some (r0 # r1 # r2 # rs)")
  case False
  show ?thesis
  proof (cases "read_all text")
    case None
    then show ?thesis by (simp add: parse_sheet_def)
  next
    case (Some rs)
    have "length rs < 3"
    proof (rule ccontr)
      assume "\<not> length rs < 3"
      then obtain r0 r1 r2 rs' where "rs = r0 # r1 # r2 # rs'"
        by (cases rs; cases "tl rs"; cases "tl (tl rs)") auto
      then show False using False Some by simp
    qed
    then show ?thesis using parse_sheet_short[OF Some] Some by simp
  qed
next
  case True
  then obtain r0 r1 r2 rs where r: "read_all text = Some (r0 # r1 # r2 # rs)" by blast
  have len: "length r1 = length r0" "length r2 = length r0" "\<forall>x \<in> set rs. length x = length r0"
    by (rule read_all_lengths[OF r], simp)+ (rule ballI, rule read_all_lengths[OF r], simp)
  have "r0 \<noteq> []" using csv_records_lengths[of None _ "r0 # r1 # r2 # rs" r0] r by (simp add: read_all_def)
  define hs where "hs = map (\<lambda>i. \<lparr>ch_description = r0 ! i, ch_name = r1 ! i, ch_type = r2 ! i\<rparr>) [0..<length r0]"
  have hs: "length hs = length r0" "hs \<noteq> []" using \<open>r0 \<noteq> []\<close> by (simp_all add: hs_def)
  have p: "parse_sheet text filename = (case parse_rows hs rs of
      Inl e \<Rightarrow> Parse_failed (Cell_failed (error_text e))
    | Inr rows \<Rightarrow> Parsed \<lparr>sh_headers = hs, sh_rows = rows, sh_configName = deriveConfigName filename,
                         sh_sourceFile = filename\<rparr>)"
    by (simp add: parse_sheet_def r len(1,2) hs_def[symmetric])
  have "length row = length hs \<and>
      (\<forall>j < length row. parseValue (cell_raw (row ! j)) (ch_type (hs ! j)) = Inr (row ! j))"
    if rows: "parse_rows hs rs = Inr rows" and row: "row \<in> set rows" for rows row
  proof -
    have all: "list_all2 (\<lambda>r row. parse_cells hs 0 r = Inr row) rs rows" using rows by (simp add: parse_rows_Inr)
    obtain k where k: "k < length rows" "row = rows ! k" using row by (auto simp: in_set_conv_nth)
    then have "parse_cells hs 0 (rs ! k) = Inr row" "k < length rs"
      using all by (auto simp: list_all2_conv_all_nth)
    then show ?thesis using parse_cells_row len(3) hs(1) by simp
  qed
  then show ?thesis unfolding p by (auto simp: well_formed_sheet_def hs(2) r split: sum.split)
qed

lemma parsed_well_formed: "parse_sheet s filename = Parsed sh \<Longrightarrow> well_formed_sheet sh"
  using parse_sheet_outcome[of filename s] by simp

section \<open>Properties\<close>

text \<open>
  C35. Parsing never panics, whatever the bytes of the file: the second and third record are as
  long as the first, so no header index is out of range. A sheet it returns has at least one
  column, every row has exactly one cell per column, and each cell is what \<open>ParseValue\<close>
  makes of its text at the column's type.
\<close>

theorem parse_sheet_well_formed:
  "case parse_sheet text filename of
     Parsed sh \<Rightarrow> well_formed_sheet sh \<and> sh_configName sh = deriveConfigName filename
   | Parse_failed e \<Rightarrow> (e = Read_failed) = (read_all text = None)
   | Parse_panic \<Rightarrow> False"
  by (rule parse_sheet_outcome)

text \<open>
  The validator accepts exactly the sheets whose column names are in snake case and
  distinct; otherwise the error names the first offending column, by its index in the header
  row, as misnamed or as a repetition of an earlier column, whose index it carries.
\<close>

theorem validate_sheet_exact:
  "case validate_sheet sh of
     None \<Rightarrow> list_all (\<lambda>h. snake_case (ch_name h)) (sh_headers sh) \<and> distinct (map ch_name (sh_headers sh))
   | Some e \<Rightarrow> (\<exists>i. offends (sh_headers sh) i e)"
  using validate_headers_cases[of 0 "sh_headers sh" Map.empty] by (simp add: validate_sheet_def)

end
