(* ===== verification/Go_Gen.thy ===== *)
theory Go_Gen
  imports Csv_Sheet
begin

text \<open>
  The Go code the configuration tool generates, \<open>tools/config-loader/internal/gogen\<close>: the text
  of the whole file, with the row type's field names and types. The facts are about how the
  generated row type fits the rows: field names are kept apart for the columns in strict
  snake case, and for which column types the parsed values decode into the generated type.
\<close>

section \<open>The generator\<close>

definition text_lines :: "string list \<Rightarrow> string" where
  "text_lines ls = concat (map (\<lambda>l. l @ [CHR 0x0A]) ls)"

text \<open>\<open>strings.ToUpper\<close> of a one-byte string; a byte that is no character becomes U+FFFD.\<close>

definition upper_byte :: "char \<Rightarrow> string" where
  "upper_byte c =
     (if lower_char c then [char_of (of_char c - 32 :: nat)]
      else if (of_char c :: nat) < 128 then [c]
      else [CHR 0xEF, CHR 0xBF, CHR 0xBD])"

definition capitalize :: "string \<Rightarrow> string" where
  "capitalize p = (case p of [] \<Rightarrow> [] | c # cs \<Rightarrow> upper_byte c @ cs)"

definition toCamelCase :: "string \<Rightarrow> string" where
  "toCamelCase s = concat (map capitalize (go_split ''_'' s))"

definition parseMapType :: "string \<Rightarrow> string" where
  "parseMapType csvType =
     (let (keyType, valueType) = map_types csvType;
          keyGo = (if keyType = ''int32'' \<or> keyType = ''int64'' then keyType else ''string'');
          valueGo = (if valueType = ''int32'' \<or> valueType = ''int64'' then valueType else ''string'')
      in ''map['' @ keyGo @ '']'' @ valueGo)"

definition csvTypeToGoType :: "string \<Rightarrow> string" where
  "csvTypeToGoType csvType =
     (if csvType = ''int32'' then ''int32''
      else if csvType = ''int64'' then ''int64''
      else if csvType = ''string'' then ''string''
      else if csvType = ''time'' then ''ConfigTime''
      else if csvType = ''int32[]'' then ''[]int32''
      else if csvType = ''int64[]'' then ''[]int64''
      else if csvType = ''string[]'' then ''[]string''
      else if CHR ''='' \<in> set csvType then parseMapType csvType
      else ''string'')"

definition generateImports :: string where
  "generateImports = text_lines
     [''import ('',
      ''    \"encoding/json\"'',
      ''    \"time\"'',
      [],
      ''    baseconfig \"github.com/CBookShu/kd48/pkg/config\"'',
      ''    lobbyconfig \"github.com/CBookShu/kd48/services/lobby/internal/config\"'',
      '')'',
      []]"

definition generateConfigTime :: string where
  "generateConfigTime = text_lines
     [''// TimeFormat '' @ [CHR 0xE9, CHR 0x85, CHR 0x8D, CHR 0xE7, CHR 0xBD, CHR 0xAE, CHR 0xE6, CHR 0x97, CHR 0xB6, CHR 0xE9, CHR 0x97, CHR 0xB4, CHR 0xE6, CHR 0xA0, CHR 0xBC, CHR 0xE5, CHR 0xBC, CHR 0x8F],
      ''const TimeFormat = \"2006-01-02 15:04:05\"'',
      [],
      ''// ConfigTime '' @ [CHR 0xE5, CHR 0x8C, CHR 0x85, CHR 0xE8, CHR 0xA3, CHR 0x85] @ '' time.Time'' @ [CHR 0xEF, CHR 0xBC, CHR 0x8C, CHR 0xE6, CHR 0x94, CHR 0xAF, CHR 0xE6, CHR 0x8C, CHR 0x81, CHR 0xE8, CHR 0x87, CHR 0xAA, CHR 0xE5, CHR 0xAE, CHR 0x9A, CHR 0xE4, CHR 0xB9, CHR 0x89] @ '' JSON '' @ [CHR 0xE8, CHR 0xA7, CHR 0xA3, CHR 0xE6, CHR 0x9E, CHR 0x90],
      ''type ConfigTime struct {'',
      ''    Raw  string    `json:\"-\"`'',
      ''    Time time.Time `json:\"-\"`'',
      ''}'',
      [],
      ''func (t *ConfigTime) UnmarshalJSON(data []byte) error {'',
      ''    var s string'',
      ''    if err := json.Unmarshal(data, &s); err != nil {'',
      ''        return err'',
      ''    }'',
      ''    t.Raw = s'',
      ''    parsed, err := time.ParseInLocation(TimeFormat, s, time.Local)'',
      ''    if err != nil {'',
      ''        return err'',
      ''    }'',
      ''    t.Time = parsed'',
      ''    return nil'',
      ''}'',
      [],
      ''func (t ConfigTime) MarshalJSON() ([]byte, error) {'',
      ''    return json.Marshal(t.Raw)'',
      ''}'',
      [],
      ''func (t ConfigTime) String() string {'',
      ''    return t.Raw'',
      ''}'',
      []]"

definition struct_field :: "column_header \<Rightarrow> string" where
  "struct_field h =
     ''    '' @ toCamelCase (ch_name h) @ '' '' @ csvTypeToGoType (ch_type h) @
     '' `json:\"'' @ ch_name h @ ''\"`''"

definition generateRowStruct :: "sheet \<Rightarrow> string" where
  "generateRowStruct sh =
     (let name = sh_configName sh
      in text_lines
           ([''// '' @ name @ ''Row '' @ [CHR 0xE8, CHR 0xA1, CHR 0xA8, CHR 0xE7, CHR 0xA4, CHR 0xBA, CHR 0xE9, CHR 0x85, CHR 0x8D, CHR 0xE7, CHR 0xBD, CHR 0xAE, CHR 0xE6, CHR 0x95, CHR 0xB0, CHR 0xE6, CHR 0x8D, CHR 0xAE, CHR 0xE8, CHR 0xA1, CHR 0x8C]] @
            [''type '' @ name @ ''Row struct {''] @
            map struct_field (sh_headers sh) @ [''}'', []]))"

definition generatePackageStruct :: "sheet \<Rightarrow> string" where
  "generatePackageStruct sh = (let name = sh_configName sh in text_lines
     [''// Package '' @ [CHR 0xE5, CHR 0xAE, CHR 0x9E, CHR 0xE7, CHR 0x8E, CHR 0xB0] @ '' baseconfig.Config '' @ [CHR 0xE6, CHR 0x8E, CHR 0xA5, CHR 0xE5, CHR 0x8F, CHR 0xA3],
      ''type Package struct {'',
      ''    data []'' @ name @ ''Row'',
      ''}'',
      []])"

definition generateConfigInterfaceMethods :: "sheet \<Rightarrow> string" where
  "generateConfigInterfaceMethods sh = (let name = sh_configName sh in text_lines
     [''// ConfigName '' @ [CHR 0xE8, CHR 0xBF, CHR 0x94, CHR 0xE5, CHR 0x9B, CHR 0x9E, CHR 0xE9, CHR 0x85, CHR 0x8D, CHR 0xE7, CHR 0xBD, CHR 0xAE, CHR 0xE5, CHR 0x90, CHR 0x8D, CHR 0xE7, CHR 0xA7, CHR 0xB0],
      ''func (p *Package) ConfigName() string {'',
      ''    return \"'' @ name @ ''\"'',
      ''}'',
      [],
      ''// ConfigData '' @ [CHR 0xE8, CHR 0xBF, CHR 0x94, CHR 0xE5, CHR 0x9B, CHR 0x9E, CHR 0xE9, CHR 0x85, CHR 0x8D, CHR 0xE7, CHR 0xBD, CHR 0xAE, CHR 0xE6, CHR 0x95, CHR 0xB0, CHR 0xE6, CHR 0x8D, CHR 0xAE, CHR 0xE6, CHR 0x8C, CHR 0x87, CHR 0xE9, CHR 0x92, CHR 0x88],
      ''func (p *Package) ConfigData() any {'',
      ''    return &p.data'',
      ''}'',
      []])"

definition generateStoreAndInit :: "sheet \<Rightarrow> string" where
  "generateStoreAndInit sh = (let name = sh_configName sh in text_lines
     [''// Store '' @ [CHR 0xE5, CHR 0x85, CHR 0xA8, CHR 0xE5, CHR 0xB1, CHR 0x80, CHR 0xE9, CHR 0x85, CHR 0x8D, CHR 0xE7, CHR 0xBD, CHR 0xAE, CHR 0xE5, CHR 0x8F, CHR 0xA5, CHR 0xE6, CHR 0x9F, CHR 0x84, CHR 0xEF, CHR 0xBC, CHR 0x88, CHR 0xE4, CHR 0xB8, CHR 0x9A, CHR 0xE5, CHR 0x8A, CHR 0xA1, CHR 0xE5, CHR 0xB1, CHR 0x82, CHR 0xE7, CHR 0x9B, CHR 0xB4, CHR 0xE6, CHR 0x8E, CHR 0xA5, CHR 0xE4, CHR 0xBD, CHR 0xBF, CHR 0xE7, CHR 0x94, CHR 0xA8, CHR 0xEF, CHR 0xBC, CHR 0x89],
      ''var Store *lobbyconfig.TypedStore['' @ name @ ''Row]'',
      [],
      ''func init() {'',
      ''    Store = lobbyconfig.Register['' @ name @ ''Row](&Package{})'',
      ''}''])"

definition generate_go :: "sheet \<Rightarrow> string \<Rightarrow> string" where
  "generate_go sh pkgName =
     text_lines [''// Code generated by config-loader. DO NOT EDIT.'', [], ''package '' @ pkgName, []] @
     generateImports @
     (if list_ex (\<lambda>h. ch_type h = ''time'') (sh_headers sh) then generateConfigTime else []) @
     generateRowStruct sh @ generatePackageStruct sh @ generateConfigInterfaceMethods sh @
     generateStoreAndInit sh"

section \<open>Field names\<close>

text \<open>
  Strict snake case: every part between underscores starts with a lower-case letter and
  goes on with lower-case letters and digits.
\<close>

definition strict_part :: "string \<Rightarrow> bool" where
  "strict_part p \<longleftrightarrow> p \<noteq> [] \<and> lower_char (hd p) \<and> list_all (\<lambda>c. lower_char c \<or> is_digit c) (tl p)"

definition strict_snake :: "string \<Rightarrow> bool" where
  "strict_snake s \<longleftrightarrow> list_all strict_part (go_split ''_'' s)"

text \<open>Reading a field name back: an underscore before each upper-case letter.\<close>

fun from_camel :: "string \<Rightarrow> string" where
  "from_camel [] = []"
| "from_camel (c # cs) =
     (if 65 \<le> (of_char c :: nat) \<and> (of_char c :: nat) \<le> 90
      then CHR ''_'' # char_of (of_char c + 32 :: nat) # from_camel cs
      else c # from_camel cs)"

lemma from_camel_lower:
  "list_all (\<lambda>c. lower_char c \<or> is_digit c) cs \<Longrightarrow> from_camel (cs @ t) = cs @ from_camel t"
  by (induction cs) (auto simp: lower_char_def is_digit_def)

lemma from_camel_capitalize:
  assumes "strict_part p"
  shows "from_camel (capitalize p @ t) = CHR ''_'' # p @ from_camel t"
proof -
  obtain c cs where p: "p = c # cs" "lower_char c" "list_all (\<lambda>c. lower_char c \<or> is_digit c) cs"
    using assms by (cases p) (auto simp: strict_part_def)
  then have n: "97 \<le> (of_char c :: nat)" "(of_char c :: nat) \<le> 122" by (simp_all add: lower_char_def)
  then have up: "(of_char (char_of (of_char c - 32 :: nat) :: char) :: nat) = of_char c - 32" by simp
  have "65 \<le> (of_char c - 32 :: nat)" "(of_char c - 32 :: nat) \<le> 90"
    "char_of (of_char c - 32 + 32 :: nat) = c" using n by (simp_all del: One_nat_def)
  then show ?thesis
    using p up from_camel_lower[OF p(3), of t] by (simp add: capitalize_def upper_byte_def)
qed

lemma from_camel_parts:
  "list_all strict_part ps \<Longrightarrow>
     from_camel (concat (map capitalize ps)) = concat (map (\<lambda>p. CHR ''_'' # p) ps)"
  by (induction ps) (simp_all add: from_camel_capitalize)

lemma concat_underscores: "ps \<noteq> [] \<Longrightarrow> concat (map (\<lambda>p. CHR ''_'' # p) ps) = CHR ''_'' # go_join ''_'' ps"
  by (induction ps rule: induct_list012) simp_all

lemma from_camel_toCamelCase:
  assumes "strict_snake s"
  shows "from_camel (toCamelCase s) = CHR ''_'' # s"
  using from_camel_parts[of "go_split ''_'' s"] assms
  by (simp add: toCamelCase_def strict_snake_def concat_underscores go_join_split)

section \<open>Generated types and parsed values\<close>

text \<open>
  The values a column of a Go type holds: each Go type has one dynamic type, except that the
  untyped map that the parser makes of a blank cell may stand in for any typed one.
\<close>

definition typed_maps :: "string list" where
  "typed_maps = [''map[int32]string'', ''map[int64]string'', ''map[string]int32'', ''map[string]int64'']"

fun fits_go_type :: "string \<Rightarrow> go_value \<Rightarrow> bool" where
  "fits_go_type t (VInt32 n) = (t = ''int32'')"
| "fits_go_type t (VInt64 n) = (t = ''int64'')"
| "fits_go_type t (VString s) = (t = ''string'')"
| "fits_go_type t (VInt32s ns) = (t = ''[]int32'')"
| "fits_go_type t (VInt64s ns) = (t = ''[]int64'')"
| "fits_go_type t (VStrings ss) = (t = ''[]string'')"
| "fits_go_type t (VMapInt32 m) = (t = ''map[int32]string'')"
| "fits_go_type t (VMapInt64 m) = (t = ''map[int64]string'')"
| "fits_go_type t (VMapToInt32 m) = (t = ''map[string]int32'')"
| "fits_go_type t (VMapToInt64 m) = (t = ''map[string]int64'')"
| "fits_go_type t (VMapStrings m) = (t = ''map[string]string'')"
| "fits_go_type t (VMapAny m) = (t = ''map[string]string'' \<or> dom m = {} \<and> t \<in> set typed_maps)"

definition documented_maps :: "(string \<times> string) list" where
  "documented_maps =
     [(''int32'', ''string''), (''int64'', ''string''), (''string'', ''int32''),
      (''string'', ''int64''), (''string'', ''string'')]"

definition is_integer_type :: "string \<Rightarrow> bool" where
  "is_integer_type t \<longleftrightarrow> t = ''int32'' \<or> t = ''int64''"

lemma string_key_loop_total: "\<exists>m'. string_key_loop msg (\<lambda>v. Some (unquote v)) es m = Inr m'"
  by (simp add: string_key_loop_Inr list_all_iff)

lemma map_of_empty_iff: "dom (map_of xs) = {} \<longleftrightarrow> xs = []"
  by (cases xs) auto

text \<open>A blank cell has no entries.\<close>

lemma blank_no_entries:
  assumes "trim_space raw = []"
  shows "entries_of raw = []"
proof -
  have sp: "list_all (\<lambda>w. CHR ''|'' \<notin> set w) unicode_spaces" by code_simp
  have "CHR ''|'' \<notin> set raw"
  proof
    assume "CHR ''|'' \<in> set raw"
    then have "CHR ''|'' \<in> set (strip_words unicode_spaces raw)"
      using sp by (intro strip_words_keeps) (auto simp: list_all_iff)
    then have "CHR ''|'' \<in> set (strip_words (map rev unicode_spaces) (rev (strip_words unicode_spaces raw)))"
      using sp by (intro strip_words_keeps) (auto simp: list_all_iff)
    then have "CHR ''|'' \<in> set (trim_space raw)" by (simp add: trim_space_def trim_left_def trim_right_def)
    then show False using assms by simp
  qed
  then show ?thesis
    using assms by (simp add: entries_of_def go_split_no_sep entry_kv_def List.map_filter_simps)
qed

lemma scalar_types_no_equals:
  "CHR ''='' \<in> set typ \<Longrightarrow> typ \<notin> {''int32'', ''int64'', ''string'', ''time'', ''int32[]'', ''int64[]'', ''string[]''}"
  by auto

lemma map_value:
  assumes "CHR ''='' \<in> set typ" and "parseValue raw typ = Inr c"
  shows "csvTypeToGoType typ = parseMapType typ"
    and "parseMap (trim_space raw = []) raw typ = Inr (cell_parsed c)"
  using assms scalar_types_no_equals[OF assms(1)]
  by (auto simp: csvTypeToGoType_def parseValue_def Let_def)

lemma documented_cases:
  "(k, t) \<in> set documented_maps \<longleftrightarrow>
     k = ''int32'' \<and> t = ''string'' \<or> k = ''int64'' \<and> t = ''string'' \<or>
     k = ''string'' \<and> t = ''int32'' \<or> k = ''string'' \<and> t = ''int64'' \<or> k = ''string'' \<and> t = ''string''"
  by (simp add: documented_maps_def)

lemma parseMap_documented:
  assumes "parseMap b raw typ = Inr v" and "map_types typ = (k, t)" and "(k, t) \<in> set documented_maps"
  shows "fits_go_type (''map['' @ k @ '']'' @ t) v"
proof (cases b)
  case True
  then have "v = VMapAny Map.empty" using assms(1) by (simp add: parseMap_def)
  then show ?thesis using assms(3) unfolding documented_cases by (auto simp: typed_maps_def)
next
  case False
  define es where "es = go_split ''|'' raw"
  note m = assms(1)[unfolded parseMap_def es_def[symmetric] assms(2) Let_def prod.case]
  show ?thesis
    using assms(3)[unfolded documented_cases] m False
    by (elim disjE conjE; hypsubst) (auto simp del: int_key_loop.simps string_key_loop.simps)
qed

text \<open>The parsed map when the pair of types is none of the documented ones.\<close>

lemma parseMap_any:
  assumes "map_types typ \<notin> set documented_maps" and "parseMap b raw typ = Inr v" and "b = (trim_space raw = [])"
  shows "\<exists>m. v = VMapAny m \<and> dom m = fst ` set (entries_of raw)"
proof (cases b)
  case True
  then show ?thesis using assms(2,3) blank_no_entries by (auto simp: parseMap_def)
next
  case False
  obtain k t where kt: "map_types typ = (k, t)" by (cases "map_types typ")
  have "bind_result (string_key_loop [] (\<lambda>v. Some (unquote v)) (go_split ''|'' raw) Map.empty)
      (\<lambda>m. Inr (VMapAny m)) = Inr v"
    using assms(1,2) False by (simp add: parseMap_def kt documented_maps_def Let_def split: if_splits)
  then show ?thesis
    by (auto simp: string_key_loop_Inr entries_of_def dom_map_of_conv_image_fst image_image case_prod_unfold)
qed

text \<open>A column of a type that the parser converts, and the cells in it.\<close>

definition typed_column :: "string \<Rightarrow> bool" where
  "typed_column typ \<longleftrightarrow> CHR ''='' \<notin> set typ \<or> map_types typ \<in> set documented_maps"

lemma parseMapType_pair:
  "parseMapType typ = ''map['' @ (if is_integer_type (fst (map_types typ)) then fst (map_types typ) else ''string'') @ '']'' @
     (if is_integer_type (snd (map_types typ)) then snd (map_types typ) else ''string'')"
  by (simp add: parseMapType_def is_integer_type_def case_prod_unfold)

lemma documented_go:
  "(k, t) \<in> set documented_maps \<Longrightarrow>
     ''map['' @ (if is_integer_type k then k else ''string'') @ '']'' @ (if is_integer_type t then t else ''string'') =
     ''map['' @ k @ '']'' @ t"
  unfolding documented_cases by (elim disjE conjE; hypsubst) (simp_all add: is_integer_type_def)

lemma typed_column_fits:
  assumes "parseValue raw typ = Inr c" and "typ \<noteq> ''time''" and "typed_column typ"
  shows "fits_go_type (csvTypeToGoType typ) (cell_parsed c)"
proof (cases "CHR ''='' \<in> set typ")
  case False
  then show ?thesis
    using assms
    by (auto simp: parseValue_def csvTypeToGoType_def parseInt32_def parseInt64_def parseInt32Array_def
        parseInt64Array_def parseStringArray_def Let_def split: if_splits option.splits)
next
  case True
  obtain k t where kt: "map_types typ = (k, t)" by (cases "map_types typ")
  then have d: "(k, t) \<in> set documented_maps" using True assms(3) by (simp add: typed_column_def)
  show ?thesis
    unfolding map_value(1)[OF True assms(1)] parseMapType_pair kt fst_conv snd_conv documented_go[OF d]
    by (rule parseMap_documented[OF map_value(2)[OF True assms(1)] kt d])
qed

section \<open>Properties\<close>

text \<open>
  The generated row type has distinct field names whenever the sheet is accepted and its
  column names are in strict snake case: camel-casing loses nothing on such names.
\<close>

theorem field_names_distinct:
  assumes "validate_sheet sh = None" and "list_all (\<lambda>h. strict_snake (ch_name h)) (sh_headers sh)"
  shows "distinct (map (\<lambda>h. toCamelCase (ch_name h)) (sh_headers sh))"
proof -
  let ?ns = "map ch_name (sh_headers sh)"
  have "distinct ?ns" using assms(1) by (simp add: validate_sheet_def validate_headers_None)
  moreover have "inj_on toCamelCase (set ?ns)"
  proof (rule inj_onI)
    fix a b
    assume "a \<in> set ?ns" "b \<in> set ?ns" and eq: "toCamelCase a = toCamelCase b"
    then have "strict_snake a" "strict_snake b" using assms(2) by (auto simp: list_all_iff)
    then show "a = b" using from_camel_toCamelCase eq by (metis list.inject)
  qed
  ultimately have "distinct (map toCamelCase ?ns)" unfolding distinct_map[of toCamelCase] by blast
  then show ?thesis unfolding map_map comp_def .
qed

definition demo_sheet :: "string list \<Rightarrow> sheet" where
  "demo_sheet names =
     \<lparr>sh_headers = map (\<lambda>n. \<lparr>ch_description = [], ch_name = n, ch_type = ''int32''\<rparr>) names,
      sh_rows = [], sh_configName = ''Reward'', sh_sourceFile = ''Reward--daily.csv''\<rparr>"

lemma field_names_distinct_witness:
  "distinct (map (\<lambda>h. toCamelCase (ch_name h)) (sh_headers (demo_sheet [''item_id'', ''count''])))"
proof -
  have v: "validate_sheet (demo_sheet [''item_id'', ''count'']) = None"
    by (simp add: demo_sheet_def validate_sheet_def validate_headers_None snake_case_def lower_char_def is_digit_def)
  have s: "list_all (\<lambda>h. strict_snake (ch_name h)) (sh_headers (demo_sheet [''item_id'', ''count'']))"
    by code_simp
  show ?thesis by (rule field_names_distinct[OF v s])
qed

text \<open>
  The validator's snake case is not strict enough for the generator: a sheet whose column
  names are accepted as distinct can give a row type that declares one field twice, which
  does not compile.
\<close>

theorem accepted_names_collide:
  "\<exists>sh. validate_sheet sh = None \<and> \<not> distinct (map (\<lambda>h. toCamelCase (ch_name h)) (sh_headers sh))"
proof (intro exI conjI)
  show "validate_sheet (demo_sheet [''reward_1'', ''reward1'']) = None"
    by (simp add: demo_sheet_def validate_sheet_def validate_headers_None snake_case_def lower_char_def is_digit_def)
  show "\<not> distinct (map (\<lambda>h. toCamelCase (ch_name h)) (sh_headers (demo_sheet [''reward_1'', ''reward1''])))"
    by code_simp
qed

end
