(* ===== verification/Config_Tool.thy ===== *)
theory Config_Tool
  imports Go_Gen Json_Print
begin

text \<open>
  The configuration tool from the parsed sheet on, \<open>tools/config-loader\<close>: the payload
  (\<open>internal/jsongen\<close>), the inserted row (\<open>internal/mysqlwriter\<close>), the notification
  (\<open>internal/redisnotify\<close>), the stage pipeline (\<open>internal/pipeline\<close>) and the command line
  (\<open>cmd/config-loader/main.go\<close>) as a function from the flags and the environment's answers to
  the exit code and the effects in order. Logging is left out, and a payload stands for its
  JSON text in the output file and in the row.
\<close>

section \<open>The payload\<close>

record payload =
  pl_configName :: string
  pl_revision :: "64 word"
  pl_data :: "(string \<Rightarrow> go_value option) list"

fun row_object ::
  "column_header list \<Rightarrow> nat \<Rightarrow> cell list \<Rightarrow> (string \<Rightarrow> go_value option) \<Rightarrow> string \<Rightarrow> go_value option" where
  "row_object headers j [] m = m"
| "row_object headers j (c # cs) m =
     row_object headers (Suc j) cs
       (if j < length headers then m(ch_name (headers ! j) \<mapsto> cell_parsed c) else m)"

definition generate_payload :: "sheet \<Rightarrow> 64 word \<Rightarrow> payload" where
  "generate_payload sh revision =
     \<lparr>pl_configName = sh_configName sh, pl_revision = revision,
      pl_data = map (\<lambda>row. row_object (sh_headers sh) 0 row Map.empty) (sh_rows sh)\<rparr>"

section \<open>Writing and notifying\<close>

record write_options =
  wo_scope :: string
  wo_title :: string
  wo_tags :: string
  wo_csvText :: string

text \<open>The columns of the \<open>INSERT\<close>; \<open>created_at\<close> gets the database's \<open>NOW()\<close>.\<close>

definition insert_columns :: "string list" where
  "insert_columns =
     [''config_name'', ''revision'', ''scope'', ''title'', ''tags'', ''csv_text'', ''json_payload'', ''created_at'']"

datatype sql_value =
    Sql_string string
  | Sql_int "64 word"
  | Sql_json "(string \<Rightarrow> go_value option) list"
  | Sql_now

definition insert_values :: "payload \<Rightarrow> write_options \<Rightarrow> sql_value list" where
  "insert_values p opts =
     [Sql_string (pl_configName p), Sql_int (pl_revision p), Sql_string (wo_scope opts),
      Sql_string (wo_title opts), Sql_string (wo_tags opts), Sql_string (wo_csvText opts),
      Sql_json (pl_data p), Sql_now]"

text \<open>\<open>json.Marshal\<close> prints a map's members by key.\<close>

definition publish_message :: "string \<Rightarrow> 64 word \<Rightarrow> string" where
  "publish_message configName revision =
     print_obj [(''config_name'', json_quote configName), (''kind'', json_quote ''lobby_config_published''),
                (''revision'', show_int (sint revision))]"

section \<open>The pipeline\<close>

fun pipeline_execute ::
  "(string \<times> ('a \<Rightarrow> ('e, 'a) result)) list \<Rightarrow> 'a \<Rightarrow> (string \<times> 'e, 'a) result" where
  "pipeline_execute [] x = Inr x"
| "pipeline_execute ((name, stage) # stages) x =
     (case stage x of Inl e \<Rightarrow> Inl (name, e) | Inr y \<Rightarrow> pipeline_execute stages y)"

section \<open>The command line\<close>

record cli_flags =
  fl_input :: string
  fl_output :: string
  fl_mysql_dsn :: string
  fl_redis_addr :: string
  fl_scope :: string
  fl_title :: string
  fl_revision :: "64 word"
  fl_gen_go :: bool
  fl_go_out :: string
  fl_go_package :: string
  fl_dry_run :: bool

text \<open>
  What the outside answers: the input file's text (\<open>None\<close> when it does not open), its text
  when opened again for the row, the clock in milliseconds, and whether each write succeeds.
\<close>

record cli_env =
  en_text :: "string option"
  en_text_again :: "string option"
  en_now :: "64 word"
  en_output_ok :: bool
  en_mysql_opens :: bool
  en_insert_ok :: bool
  en_publish_ok :: bool
  en_go_write_ok :: bool

datatype cli_effect =
    Dry_run_passed
  | Json_file string payload
  | Json_stdout payload
  | Row_inserted "sql_value list"
  | Notified string string
  | Go_file string string

definition cli_write_go :: "cli_flags \<Rightarrow> cli_env \<Rightarrow> sheet \<Rightarrow> nat \<times> cli_effect list" where
  "cli_write_go fl en sh =
     (if fl_gen_go fl
      then (let path = (if fl_go_out fl = [] then ''generated/'' @ sh_configName sh @ ''.go'' else fl_go_out fl)
            in if en_go_write_ok en then (0, [Go_file path (generate_go sh (fl_go_package fl))]) else (5, []))
      else (0, []))"

definition cli_write_db :: "cli_flags \<Rightarrow> cli_env \<Rightarrow> payload \<Rightarrow> (nat, cli_effect list) result" where
  "cli_write_db fl en p =
     (if fl_mysql_dsn fl = [] then Inr []
      else (case en_text_again en of
              None \<Rightarrow> Inl 2
            | Some csvText \<Rightarrow>
                if \<not> en_mysql_opens en then Inl 4
                else if \<not> en_insert_ok en then Inl 4
                else Inr (Row_inserted (insert_values p
                            \<lparr>wo_scope = fl_scope fl, wo_title = fl_title fl, wo_tags = [], wo_csvText = csvText\<rparr>) #
                          (if fl_redis_addr fl \<noteq> [] \<and> en_publish_ok en
                           then [Notified ''kd48:lobby:config:notify''
                                   (publish_message (pl_configName p) (pl_revision p))]
                           else []))))"

definition cli_output :: "cli_flags \<Rightarrow> cli_env \<Rightarrow> payload \<Rightarrow> (nat, cli_effect list) result" where
  "cli_output fl en p =
     (if fl_output fl \<noteq> []
      then (if en_output_ok en then Inr [Json_file (fl_output fl) p] else Inl 3)
      else Inr [Json_stdout p])"

definition cli_main :: "cli_flags \<Rightarrow> cli_env \<Rightarrow> nat \<times> cli_effect list" where
  "cli_main fl en =
     (if fl_input fl = [] then (1, [])
      else (case en_text en of
              None \<Rightarrow> (2, [])
            | Some text \<Rightarrow>
                (case parse_sheet text (fl_input fl) of
                   Parsed sh \<Rightarrow>
                     (case validate_sheet sh of
                        Some e \<Rightarrow> (3, [])
                      | None \<Rightarrow>
                          if fl_dry_run fl then (0, [Dry_run_passed])
                          else (let p = generate_payload sh
                                          (if fl_revision fl = 0 then en_now en else fl_revision fl)
                                in (case cli_output fl en p of
                                      Inl code \<Rightarrow> (code, [])
                                    | Inr out \<Rightarrow>
                                        (case cli_write_db fl en p of
                                           Inl code \<Rightarrow> (code, out)
                                         | Inr db \<Rightarrow>
                                             (let (code, go) = cli_write_go fl en sh
                                              in (code, out @ db @ go))))))
                 | _ \<Rightarrow> (2, []))))"

section \<open>Documented behaviour of the database\<close>

text \<open>
  A JSON column takes only text that is a JSON document. \<open>json_columns\<close> are those of
  \<open>lobby_config_revision\<close> in the repository's migration.
\<close>

definition json_columns :: "string list" where
  "json_columns = [''tags'', ''json_payload'']"

definition table_takes :: "sql_value list \<Rightarrow> bool" where
  "table_takes vs \<longleftrightarrow>
     list_all (\<lambda>(c, v). c \<in> set json_columns \<longrightarrow>
       (case v of Sql_string t \<Rightarrow> json_parse t \<noteq> None | _ \<Rightarrow> True)) (zip insert_columns vs)"

section \<open>Facts\<close>

text \<open>The object of a row: with distinct names each cell stays under its column's name.\<close>

lemma row_object_other:
  "\<forall>i. j \<le> i \<and> i < j + length cs \<and> i < length headers \<longrightarrow> ch_name (headers ! i) \<noteq> n \<Longrightarrow>
     row_object headers j cs m n = m n"
proof (induction cs arbitrary: j m)
  case (Cons c cs)
  have "row_object headers (Suc j) cs m' n = m' n" for m'
    using Cons.prems by (intro Cons.IH) auto
  moreover have "j < length headers \<longrightarrow> ch_name (headers ! j) \<noteq> n" using Cons.prems by auto
  ultimately show ?case by auto
qed simp

lemma row_object_at:
  assumes "distinct (map ch_name headers)" and "i < length cs" and "j + i < length headers"
  shows "row_object headers j cs m (ch_name (headers ! (j + i))) = Some (cell_parsed (cs ! i))"
  using assms(2,3)
proof (induction cs arbitrary: j i m)
  case (Cons c cs)
  show ?case
  proof (cases i)
    case 0
    have "ch_name (headers ! k) \<noteq> ch_name (headers ! j)" if "Suc j \<le> k" "k < length headers" for k
      using assms(1) that Cons.prems(2) 0 by (auto simp: distinct_conv_nth)
    then show ?thesis
      using Cons.prems 0 by (simp add: row_object_other)
  next
    case (Suc i')
    then show ?thesis using Cons.IH[of i' "Suc j"] Cons.prems by simp
  qed
qed simp

lemma pipeline_append:
  "pipeline_execute (ss @ ts) x = bind_result (pipeline_execute ss x) (pipeline_execute ts)"
  by (induction ss arbitrary: x) (auto split: sum.split)

lemma row_object_dom:
  "dom (row_object headers j cs m) = dom m \<union> ch_name ` set (take (length cs) (drop j headers))"
proof (induction cs arbitrary: j m)
  case (Cons c cs)
  show ?case
  proof (cases "j < length headers")
    case True
    then have "drop j headers = headers ! j # drop (Suc j) headers" by (simp add: Cons_nth_drop_Suc)
    then show ?thesis using True by (simp add: Cons.IH del: fun_upd_apply)
  next
    case False
    then show ?thesis by (simp add: Cons.IH)
  qed
qed simp

text \<open>What a run that got past the checks did.\<close>

lemma cli_main_effects:
  assumes "x \<in> set (snd (cli_main fl en))" and "x \<noteq> Dry_run_passed"
  obtains tx sh out where "en_text en = Some tx" "parse_sheet tx (fl_input fl) = Parsed sh"
    "validate_sheet sh = None" "\<not> fl_dry_run fl"
    "cli_output fl en (generate_payload sh (if fl_revision fl = 0 then en_now en else fl_revision fl)) = Inr out"
    "snd (cli_main fl en) =
       (case cli_write_db fl en (generate_payload sh (if fl_revision fl = 0 then en_now en else fl_revision fl)) of
          Inl code \<Rightarrow> out
        | Inr db \<Rightarrow> out @ db @ snd (cli_write_go fl en sh))"
  using assms
  by (auto simp: cli_main_def Let_def case_prod_unfold split: if_splits option.splits parse_outcome.splits sum.splits)

lemma output_effects: "cli_output fl en p = Inr out \<Longrightarrow> \<exists>x. out = [x] \<and> (x = Json_stdout p \<or> (\<exists>f. x = Json_file f p))"
  by (auto simp: cli_output_def split: if_splits)

lemma go_effects: "x \<in> set (snd (cli_write_go fl en sh)) \<Longrightarrow> \<exists>path code. x = Go_file path code"
  by (auto simp: cli_write_go_def Let_def split: if_splits)

lemma untagged_row: "wo_tags opts = [] \<Longrightarrow> \<not> table_takes (insert_values p opts)"
  by (simp add: table_takes_def insert_columns_def insert_values_def json_columns_def json_parse_def)

lemma db_rows:
  assumes "cli_write_db fl en p = Inr db"
  shows "fl_mysql_dsn fl = [] \<and> db = [] \<or> (\<exists>vs. Row_inserted vs \<in> set db \<and> \<not> table_takes vs)"
  using assms by (auto simp: cli_write_db_def untagged_row split: if_splits option.splits)

lemma failed_codes:
  "cli_output fl en p = Inl code \<Longrightarrow> code = 3"
  "cli_write_db fl en p = Inl code \<Longrightarrow> code = 2 \<or> code = 4"
  by (auto simp: cli_output_def cli_write_db_def split: if_splits option.splits)

lemma db_effects:
  assumes "cli_write_db fl en p = Inr db" and "Notified ch msg \<in> set db"
  shows "\<exists>vs. db = [Row_inserted (insert_values p vs), Notified ch msg] \<and>
    ch = ''kd48:lobby:config:notify'' \<and> msg = publish_message (pl_configName p) (pl_revision p)"
  using assms by (auto simp: cli_write_db_def split: if_splits option.splits)

section \<open>Properties\<close>

text \<open>
  The payload says what the sheet says: for a sheet that parses and validates, each row's
  object has exactly the sheet's columns as its members, and under each of them the parsed
  value of that row's cell in that column.
\<close>

theorem payload_matches_sheet:
  assumes "parse_sheet text filename = Parsed sh" and "validate_sheet sh = None"
    and "i < length (sh_rows sh)" and "j < length (sh_headers sh)"
  shows "(pl_data (generate_payload sh r) ! i) (ch_name (sh_headers sh ! j)) =
      Some (cell_parsed (sh_rows sh ! i ! j)) \<and>
    dom (pl_data (generate_payload sh r) ! i) = ch_name ` set (sh_headers sh)"
proof -
  have d: "distinct (map ch_name (sh_headers sh))"
    using assms(2) by (simp add: validate_sheet_def validate_headers_None)
  have "well_formed_sheet sh"
    by (rule parsed_well_formed[OF assms(1)])
  then have len: "length (sh_rows sh ! i) = length (sh_headers sh)"
    using assms(3) by (simp add: well_formed_sheet_def)
  show ?thesis
    using row_object_at[OF d, of j "sh_rows sh ! i" 0] assms(3,4) len
    by (simp add: generate_payload_def row_object_dom)
qed

definition demo_text :: string where
  "demo_text = text_lines [''Item,How many'', ''item_id,count'', ''int32,int64'', ''7,3'']"

lemma demo_parse:
  "\<exists>sh. parse_sheet demo_text ''Reward--daily.csv'' = Parsed sh \<and> validate_sheet sh = None \<and>
     length (sh_rows sh) = 1 \<and> map ch_name (sh_headers sh) = [''item_id'', ''count''] \<and>
     sh_configName sh = ''Reward''"
proof -
  have r: "read_all demo_text = Some [[''Item'', ''How many''], [''item_id'', ''count''], [''int32'', ''int64''], [''7'', ''3'']]"
    by code_simp
  have b: "trim_space ''7'' \<noteq> []" "trim_space ''3'' \<noteq> []" by code_simp+
  have p: "parse_word ''7'' = Some (7 :: 32 word)" "parse_word ''3'' = Some (3 :: 64 word)" by code_simp+
  have n: "deriveConfigName ''Reward--daily.csv'' = ''Reward''" by code_simp
  show ?thesis
    by (simp add: parse_sheet_def r parseValue_def b p n parseInt32_def parseInt64_def
        validate_sheet_def validate_headers_None snake_case_def lower_char_def is_digit_def Let_def)
qed

lemma payload_matches_sheet_witness:
  "\<exists>sh. parse_sheet demo_text ''Reward--daily.csv'' = Parsed sh \<and>
     dom (pl_data (generate_payload sh 5) ! 0) = {''item_id'', ''count''}"
proof -
  obtain sh where sh: "parse_sheet demo_text ''Reward--daily.csv'' = Parsed sh" "validate_sheet sh = None"
    "length (sh_rows sh) = 1" "map ch_name (sh_headers sh) = [''item_id'', ''count'']"
    using demo_parse by (elim exE conjE)
  have "length (sh_headers sh) = length (map ch_name (sh_headers sh))" by simp
  also have "\<dots> = 2" unfolding sh(4) by simp
  finally have "length (sh_headers sh) = 2" .
  then have "dom (pl_data (generate_payload sh 5) ! 0) = ch_name ` set (sh_headers sh)"
    using payload_matches_sheet[OF sh(1,2), of 0 0 5] sh(3) by simp
  also have "\<dots> = set (map ch_name (sh_headers sh))" by simp
  also have "\<dots> = {''item_id'', ''count''}" unfolding sh(4) by simp
  finally show ?thesis using sh(1) by blast
qed

text \<open>The effects of a run that announces: the output, the row, the announcement, the Go file.\<close>

lemma announcing_run:
  assumes "Notified ch msg \<in> set (snd (cli_main fl en))"
  shows "\<exists>x p opts go. snd (cli_main fl en) = x # Row_inserted (insert_values p opts) # Notified ch msg # go \<and>
    ch = ''kd48:lobby:config:notify'' \<and> msg = publish_message (pl_configName p) (pl_revision p) \<and>
    (\<forall>vs. x \<noteq> Row_inserted vs) \<and> (\<forall>c m. x \<noteq> Notified c m) \<and> list_all (\<lambda>e. \<not> (\<exists>c m. e = Notified c m)) go"
proof -
  obtain tx sh out where run: "cli_output fl en (generate_payload sh (if fl_revision fl = 0 then en_now en else fl_revision fl)) = Inr out"
    "snd (cli_main fl en) =
       (case cli_write_db fl en (generate_payload sh (if fl_revision fl = 0 then en_now en else fl_revision fl)) of
          Inl code \<Rightarrow> out
        | Inr db \<Rightarrow> out @ db @ snd (cli_write_go fl en sh))"
    using cli_main_effects[OF assms] by blast
  define p where "p = generate_payload sh (if fl_revision fl = 0 then en_now en else fl_revision fl)"
  obtain x where x: "out = [x]" "\<not> (\<exists>c m. x = Notified c m)" "\<forall>vs. x \<noteq> Row_inserted vs"
    using output_effects[OF run(1)] by blast
  have go: "list_all (\<lambda>e. \<not> (\<exists>c m. e = Notified c m)) (snd (cli_write_go fl en sh))"
    using go_effects by (fastforce simp: list_all_iff)
  obtain db where db: "cli_write_db fl en p = Inr db" "snd (cli_main fl en) = out @ db @ snd (cli_write_go fl en sh)"
    using run(2) assms x by (cases "cli_write_db fl en p") (auto simp: p_def)
  then have "Notified ch msg \<in> set db" using assms x go by (auto simp: list_all_iff)
  from db_effects[OF db(1) this] obtain vs where
    "db = [Row_inserted (insert_values p vs), Notified ch msg]" "ch = ''kd48:lobby:config:notify''"
    "msg = publish_message (pl_configName p) (pl_revision p)" by blast
  then show ?thesis
    using db(2) x go
    by (intro exI[of _ x] exI[of _ p] exI[of _ vs] exI[of _ "snd (cli_write_go fl en sh)"]) simp
qed

text \<open>The row of such a run is the one inserted just before the announcement.\<close>

lemma announced_row:
  assumes "Row_inserted vs \<in> set (snd (cli_main fl en))" and "Notified ch msg \<in> set (snd (cli_main fl en))"
    and "snd (cli_main fl en) = x # Row_inserted ws # y # go"
  shows "vs = ws"
proof -
  obtain tx sh out where run: "cli_output fl en (generate_payload sh (if fl_revision fl = 0 then en_now en else fl_revision fl)) = Inr out"
    "snd (cli_main fl en) =
       (case cli_write_db fl en (generate_payload sh (if fl_revision fl = 0 then en_now en else fl_revision fl)) of
          Inl code \<Rightarrow> out
        | Inr db \<Rightarrow> out @ db @ snd (cli_write_go fl en sh))"
    using cli_main_effects[OF assms(1)] by blast
  define p where "p = generate_payload sh (if fl_revision fl = 0 then en_now en else fl_revision fl)"
  have out: "\<exists>z. out = [z] \<and> (\<forall>vs. z \<noteq> Row_inserted vs)" using output_effects[OF run(1)] by blast
  have go: "Row_inserted us \<notin> set (snd (cli_write_go fl en sh))" for us using go_effects by blast
  obtain db where db: "cli_write_db fl en p = Inr db" "snd (cli_main fl en) = out @ db @ snd (cli_write_go fl en sh)"
    using run(2) assms(1) out by (cases "cli_write_db fl en p") (auto simp: p_def)
  have "Row_inserted us \<in> set db \<Longrightarrow> db \<noteq> [] \<and> hd db = Row_inserted us" for us
    using db(1) by (auto simp: cli_write_db_def split: if_splits option.splits)
  then have "db \<noteq> [] \<and> hd db = Row_inserted vs" using assms(1) db(2) out go by auto
  then show ?thesis using out db(2) assms(3) by (cases db) auto
qed

text \<open>
  C34. The tool announces only what it stored: if a run publishes a notification, the effect
  right before it is the successful insert of a row, the message names that row's
  configuration and revision, it goes to the lobby's channel, and nothing else is published.
\<close>

theorem notify_follows_insert:
  assumes "Notified ch msg \<in> set (snd (cli_main fl en))"
  shows "\<exists>pre post p opts. snd (cli_main fl en) = pre @ [Row_inserted (insert_values p opts), Notified ch msg] @ post \<and>
    ch = ''kd48:lobby:config:notify'' \<and> msg = publish_message (pl_configName p) (pl_revision p) \<and>
    list_all (\<lambda>e. \<not> (\<exists>c m. e = Notified c m)) (pre @ post)"
proof -
  obtain x p opts go where "snd (cli_main fl en) = x # Row_inserted (insert_values p opts) # Notified ch msg # go"
    "ch = ''kd48:lobby:config:notify''" "msg = publish_message (pl_configName p) (pl_revision p)"
    "\<forall>c m. x \<noteq> Notified c m" "list_all (\<lambda>e. \<not> (\<exists>c m. e = Notified c m)) go"
    using announcing_run[OF assms] by blast
  then show ?thesis by (intro exI[of _ "[x]"] exI[of _ go] exI[of _ p] exI[of _ opts]) simp
qed

text \<open>
  C15. The tool cannot write to the repository's own table: it never sets the tags, so its
  \<open>INSERT\<close> binds the empty text to the JSON column \<open>tags\<close>, which takes no such text. With a table
  that takes only JSON in its JSON columns no run ever stores a row or announces one, and a
  run that was asked to write, unless it is a dry run, ends with an error.
\<close>

theorem migrated_table_takes_no_row:
  assumes "\<forall>vs. Row_inserted vs \<in> set (snd (cli_main fl en)) \<longrightarrow> table_takes vs"
  shows "(\<forall>x \<in> set (snd (cli_main fl en)). (\<forall>vs. x \<noteq> Row_inserted vs) \<and> (\<forall>ch msg. x \<noteq> Notified ch msg)) \<and>
    (fl_mysql_dsn fl \<noteq> [] \<and> \<not> fl_dry_run fl \<longrightarrow> fst (cli_main fl en) \<noteq> 0)"
proof (cases "\<exists>tx sh out db. en_text en = Some tx \<and> parse_sheet tx (fl_input fl) = Parsed sh \<and> validate_sheet sh = None \<and>
    \<not> fl_dry_run fl \<and> fl_input fl \<noteq> [] \<and>
    cli_output fl en (generate_payload sh (if fl_revision fl = 0 then en_now en else fl_revision fl)) = Inr out \<and>
    cli_write_db fl en (generate_payload sh (if fl_revision fl = 0 then en_now en else fl_revision fl)) = Inr db")
  case True
  then obtain tx sh out db p where run: "en_text en = Some tx" "parse_sheet tx (fl_input fl) = Parsed sh"
    "validate_sheet sh = None" "\<not> fl_dry_run fl" "fl_input fl \<noteq> []"
    "p = generate_payload sh (if fl_revision fl = 0 then en_now en else fl_revision fl)"
    "cli_output fl en p = Inr out" "cli_write_db fl en p = Inr db"
    by blast
  have effs: "snd (cli_main fl en) = out @ db @ snd (cli_write_go fl en sh)"
    using run by (simp add: cli_main_def Let_def case_prod_unfold)
  have "fl_mysql_dsn fl = [] \<and> db = []"
    using db_rows[OF run(8)] assms unfolding effs by auto
  then show ?thesis
    using output_effects[OF run(7)] go_effects[of _ fl en sh] unfolding effs by fastforce
next
  case False
  then show ?thesis
    by (auto simp: cli_main_def Let_def case_prod_unfold split: if_splits option.splits parse_outcome.splits sum.splits
        dest: output_effects failed_codes)
qed

definition demo_flags :: cli_flags where
  "demo_flags =
     \<lparr>fl_input = ''Reward--daily.csv'', fl_output = [], fl_mysql_dsn = ''dsn'', fl_redis_addr = ''localhost:6379'',
      fl_scope = ''reward'', fl_title = ''Daily'', fl_revision = 5, fl_gen_go = False, fl_go_out = [],
      fl_go_package = ''lobbyconfig'', fl_dry_run = False\<rparr>"

definition demo_env :: cli_env where
  "demo_env =
     \<lparr>en_text = Some demo_text, en_text_again = Some demo_text, en_now = 9, en_output_ok = True,
      en_mysql_opens = True, en_insert_ok = True, en_publish_ok = True, en_go_write_ok = True\<rparr>"

lemma notify_follows_insert_witness:
  "\<exists>msg pre p opts post. snd (cli_main demo_flags demo_env) =
     pre @ [Row_inserted (insert_values p opts), Notified ''kd48:lobby:config:notify'' msg] @ post"
proof -
  obtain sh where sh: "parse_sheet demo_text ''Reward--daily.csv'' = Parsed sh" "validate_sheet sh = None"
    using demo_parse by blast
  have "Notified ''kd48:lobby:config:notify'' (publish_message (sh_configName sh) 5) \<in>
      set (snd (cli_main demo_flags demo_env))"
    by (simp add: cli_main_def demo_flags_def demo_env_def sh cli_output_def cli_write_db_def cli_write_go_def
        generate_payload_def Let_def)
  from notify_follows_insert[OF this] show ?thesis by blast
qed

lemma migrated_table_takes_no_row_witness:
  "fst (cli_main demo_flags (demo_env\<lparr>en_insert_ok := False\<rparr>)) \<noteq> 0"
proof -
  have "Row_inserted vs \<notin> set (snd (cli_main demo_flags (demo_env\<lparr>en_insert_ok := False\<rparr>)))" for vs
    by (auto simp: cli_main_def cli_write_db_def demo_flags_def demo_env_def Let_def cli_output_def
        split: parse_outcome.splits option.splits)
  then show ?thesis
    using migrated_table_takes_no_row[of demo_flags "demo_env\<lparr>en_insert_ok := False\<rparr>"]
    by (simp add: demo_flags_def)
qed

end
