(* ===== verification/Config_Reload.thy ===== *)
theory Config_Reload
  imports Config_Tool Lobby_Config Json_Marshal
begin

text \<open>
  From the configuration tool to the lobby: the JSON form of a payload, as \<open>json.Marshal\<close>
  prints it and as a JSON column may give it back (with the members in another order), decoded
  into the row type that the tool generates. The decoder is what \<open>encoding/json\<close> does with the
  generated struct: its field names are the columns, its field types those of
  \<open>csvTypeToGoType\<close>.
\<close>

section \<open>The JSON form of a payload\<close>

definition int_json :: "'w::len word \<Rightarrow> json" where
  "int_json w = JNum (show_int (sint w))"

text \<open>\<open>json.Marshal\<close> sorts the keys of a map, integer keys by their text.\<close>

definition map_json :: "(string \<Rightarrow> 'v option) \<Rightarrow> ('v \<Rightarrow> json) \<Rightarrow> json" where
  "map_json m f = JObj (map (\<lambda>k. (k, f (the (m k)))) (sorted_list_of_set (dom m)))"

definition text_keys :: "('w::len word \<Rightarrow> 'v option) \<Rightarrow> string \<Rightarrow> 'v option" where
  "text_keys m k = (case parse_word k of None \<Rightarrow> None | Some w \<Rightarrow> if show_int (sint w) = k then m w else None)"

fun value_json :: "go_value \<Rightarrow> json" where
  "value_json (VInt32 w) = int_json w"
| "value_json (VInt64 w) = int_json w"
| "value_json (VString s) = JStr s"
| "value_json (VInt32s ws) = JArr (map int_json ws)"
| "value_json (VInt64s ws) = JArr (map int_json ws)"
| "value_json (VStrings ss) = JArr (map JStr ss)"
| "value_json (VMapInt32 m) = map_json (text_keys m) JStr"
| "value_json (VMapInt64 m) = map_json (text_keys m) JStr"
| "value_json (VMapToInt32 m) = map_json m int_json"
| "value_json (VMapToInt64 m) = map_json m int_json"
| "value_json (VMapStrings m) = map_json m JStr"
| "value_json (VMapAny m) = map_json m JStr"

definition payload_json :: "payload \<Rightarrow> json" where
  "payload_json p = JArr (map (\<lambda>row. map_json row value_json) (pl_data p))"

definition payload_text :: "payload \<Rightarrow> string" where
  "payload_text p = print_json (payload_json p)"

section \<open>Documents with the same content\<close>

text \<open>
  A JSON column keeps the content of a document, not its text: the members of an object may
  come back in another order, under the same names and only once.
\<close>

definition same_members :: "(json \<Rightarrow> json \<Rightarrow> bool) \<Rightarrow> (string \<times> json) list \<Rightarrow> (string \<times> json) list \<Rightarrow> bool" where
  "same_members R ms ns \<longleftrightarrow> distinct (map fst ms) \<and> distinct (map fst ns) \<and>
     (\<forall>k. rel_option R (map_of ms k) (map_of ns k))"

lemma same_members_mono [mono]: "R \<le> S \<Longrightarrow> same_members R \<le> same_members S"
  unfolding same_members_def by (auto intro: option.rel_mono_strong)

inductive same_json :: "json \<Rightarrow> json \<Rightarrow> bool" where
  same_refl: "same_json j j"
| same_arr: "list_all2 same_json vs ws \<Longrightarrow> same_json (JArr vs) (JArr ws)"
| same_obj: "same_members same_json ms ns \<Longrightarrow> same_json (JObj ms) (JObj ns)"
  monos same_members_mono

inductive_cases same_jsonE: "same_json (JNum l) j" "same_json (JStr s) j"
inductive_simps same_arr_iff: "same_json (JArr vs) j"
inductive_simps same_obj_iff: "same_json (JObj ms) j"

section \<open>The generated row type\<close>

text \<open>What a field holds; maps from integers to integers occur as generated types only.\<close>

datatype field_value = Field go_value | Int_map "int \<Rightarrow> int option"

definition decode_int :: "json \<Rightarrow> 'w::len word option" where
  "decode_int j = (case j of JNull \<Rightarrow> Some 0 | JNum l \<Rightarrow> parse_word l | _ \<Rightarrow> None)"

definition decode_string :: "json \<Rightarrow> string option" where
  "decode_string j = set_string j []"

definition decode_list :: "(json \<Rightarrow> 'a option) \<Rightarrow> json \<Rightarrow> 'a list option" where
  "decode_list f j = (case j of JNull \<Rightarrow> Some [] | JArr vs \<Rightarrow> decode_elems f vs | _ \<Rightarrow> None)"

fun decode_entries ::
  "(string \<Rightarrow> 'k option) \<Rightarrow> (json \<Rightarrow> 'v option) \<Rightarrow> (string \<times> json) list \<Rightarrow> ('k \<Rightarrow> 'v option) \<Rightarrow> ('k \<Rightarrow> 'v option) option"
where
  "decode_entries kf f [] m = Some m"
| "decode_entries kf f ((k, v) # ms) m =
     (case kf k of
        None \<Rightarrow> None
      | Some k' \<Rightarrow> (case f v of None \<Rightarrow> None | Some x \<Rightarrow> decode_entries kf f ms (m(k' \<mapsto> x))))"

definition decode_map :: "(string \<Rightarrow> 'k option) \<Rightarrow> (json \<Rightarrow> 'v option) \<Rightarrow> json \<Rightarrow> ('k \<Rightarrow> 'v option) option" where
  "decode_map kf f j =
     (case j of JNull \<Rightarrow> Some Map.empty | JObj ms \<Rightarrow> decode_entries kf f ms Map.empty | _ \<Rightarrow> None)"

text \<open>An integer of the width that the generated type names.\<close>

definition decode_sized :: "string \<Rightarrow> string \<Rightarrow> int option" where
  "decode_sized t s = parse_int (if t = ''int32'' then 32 else 64) s"

definition decode_sized_json :: "string \<Rightarrow> json \<Rightarrow> int option" where
  "decode_sized_json t j = (case j of JNull \<Rightarrow> Some 0 | JNum l \<Rightarrow> decode_sized t l | _ \<Rightarrow> None)"

text \<open>
  The time type's own decoding: \<open>time.ParseInLocation\<close> with the layout
  \<open>2006-01-02 15:04:05\<close>. The hour may have one digit, the space may be several, and a
  fraction may follow the seconds, as \<open>time.Parse\<close> allows.
\<close>

definition digits_fixed :: "nat \<Rightarrow> string \<Rightarrow> (nat \<times> string) option" where
  "digits_fixed n s =
     (if n \<le> length s \<and> list_all is_digit (take n s) then Some (digits_val (take n s), drop n s) else None)"

definition digits_hour :: "string \<Rightarrow> (nat \<times> string) option" where
  "digits_hour s = (case digits_fixed 2 s of None \<Rightarrow> digits_fixed 1 s | Some x \<Rightarrow> Some x)"

definition skip_char :: "char \<Rightarrow> string \<Rightarrow> string option" where
  "skip_char c s = (case s of [] \<Rightarrow> None | d # t \<Rightarrow> if d = c then Some t else None)"

definition skip_blanks :: "string \<Rightarrow> string option" where
  "skip_blanks s = (if s = [] \<or> hd s = CHR '' '' then Some (dropWhile (\<lambda>c. c = CHR '' '') s) else None)"

definition skip_fraction :: "string \<Rightarrow> string" where
  "skip_fraction s =
     (case s of
        p # d # t \<Rightarrow> if (p = CHR ''.'' \<or> p = CHR '','') \<and> is_digit d then dropWhile is_digit t else s
      | _ \<Rightarrow> s)"

definition days_in :: "nat \<Rightarrow> nat \<Rightarrow> nat" where
  "days_in m y =
     (if m = 2 then (if y mod 4 = 0 \<and> (y mod 100 \<noteq> 0 \<or> y mod 400 = 0) then 29 else 28)
      else if m = 4 \<or> m = 6 \<or> m = 9 \<or> m = 11 then 30 else 31)"

definition parse_date :: "string \<Rightarrow> (nat \<times> nat \<times> nat \<times> string) option" where
  "parse_date s =
     Option.bind (digits_fixed 4 s) (\<lambda>(y, s1).
     Option.bind (skip_char (CHR ''-'') s1) (\<lambda>s2.
     Option.bind (digits_fixed 2 s2) (\<lambda>(m, s3).
     Option.bind (skip_char (CHR ''-'') s3) (\<lambda>s4.
     Option.bind (digits_fixed 2 s4) (\<lambda>(d, s5).
     if 1 \<le> m \<and> m \<le> 12 \<and> 1 \<le> d \<and> d \<le> days_in m y then Some (y, m, d, s5) else None)))))"

definition parse_clock :: "string \<Rightarrow> (nat \<times> nat \<times> nat \<times> string) option" where
  "parse_clock s =
     Option.bind (digits_hour s) (\<lambda>(h, s1).
     Option.bind (skip_char (CHR '':'') s1) (\<lambda>s2.
     Option.bind (digits_fixed 2 s2) (\<lambda>(m, s3).
     Option.bind (skip_char (CHR '':'') s3) (\<lambda>s4.
     Option.bind (digits_fixed 2 s4) (\<lambda>(sec, s5).
     if h < 24 \<and> m < 60 \<and> sec < 60 then Some (h, m, sec, skip_fraction s5) else None)))))"

definition config_time_ok :: "string \<Rightarrow> bool" where
  "config_time_ok s \<longleftrightarrow>
     (case Option.bind (parse_date s) (\<lambda>(y, m, d, r). Option.bind (skip_blanks r) parse_clock) of
        Some (h, mi, sec, []) \<Rightarrow> True
      | _ \<Rightarrow> False)"

text \<open>\<open>UnmarshalJSON\<close> of the generated \<open>ConfigTime\<close>: the text is kept beside the instant.\<close>

definition decode_config_time :: "json \<Rightarrow> string option" where
  "decode_config_time j =
     Option.bind (set_string j []) (\<lambda>t. if config_time_ok t then Some t else None)"

text \<open>One field, by its generated type.\<close>

definition decode_field :: "string \<Rightarrow> json \<Rightarrow> field_value option" where
  "decode_field t j =
     (if t = ''int32'' then map_option (\<lambda>w. Field (VInt32 w)) (decode_int j)
      else if t = ''int64'' then map_option (\<lambda>w. Field (VInt64 w)) (decode_int j)
      else if t = ''string'' then map_option (\<lambda>x. Field (VString x)) (decode_string j)
      else if t = ''ConfigTime'' then map_option (\<lambda>x. Field (VString x)) (decode_config_time j)
      else if t = ''[]int32'' then map_option (\<lambda>x. Field (VInt32s x)) (decode_list decode_int j)
      else if t = ''[]int64'' then map_option (\<lambda>x. Field (VInt64s x)) (decode_list decode_int j)
      else if t = ''[]string'' then map_option (\<lambda>x. Field (VStrings x)) (decode_list decode_string j)
      else if t = ''map[int32]string'' then map_option (\<lambda>m. Field (VMapInt32 m)) (decode_map parse_word decode_string j)
      else if t = ''map[int64]string'' then map_option (\<lambda>m. Field (VMapInt64 m)) (decode_map parse_word decode_string j)
      else if t = ''map[string]int32'' then map_option (\<lambda>m. Field (VMapToInt32 m)) (decode_map Some decode_int j)
      else if t = ''map[string]int64'' then map_option (\<lambda>m. Field (VMapToInt64 m)) (decode_map Some decode_int j)
      else if t = ''map[string]string'' then map_option (\<lambda>m. Field (VMapStrings m)) (decode_map Some decode_string j)
      else if t = ''map[int32]int32'' then map_option Int_map (decode_map (decode_sized ''int32'') (decode_sized_json ''int32'') j)
      else if t = ''map[int32]int64'' then map_option Int_map (decode_map (decode_sized ''int32'') (decode_sized_json ''int64'') j)
      else if t = ''map[int64]int32'' then map_option Int_map (decode_map (decode_sized ''int64'') (decode_sized_json ''int32'') j)
      else if t = ''map[int64]int64'' then map_option Int_map (decode_map (decode_sized ''int64'') (decode_sized_json ''int64'') j)
      else None)"

text \<open>
  A row: a column that does not occur keeps the zero of its type, written \<open>None\<close>. A member
  replaces what the row has for its column. In the documents the tool writes every member
  occurs once; for a map member that occurs twice Go would add to the first map.
\<close>

type_synonym decoded_row = "string \<Rightarrow> field_value option"

definition column_type :: "column_header list \<Rightarrow> string \<Rightarrow> string" where
  "column_type headers n =
     (case find (\<lambda>h. ch_name h = n) headers of None \<Rightarrow> [] | Some h \<Rightarrow> csvTypeToGoType (ch_type h))"

definition set_column :: "column_header list \<Rightarrow> string \<Rightarrow> json \<Rightarrow> decoded_row \<Rightarrow> decoded_row option" where
  "set_column headers n j r = map_option (\<lambda>x. r(n \<mapsto> x)) (decode_field (column_type headers n) j)"

definition decode_row :: "column_header list \<Rightarrow> json \<Rightarrow> decoded_row option" where
  "decode_row headers j = decode_struct (map ch_name headers) (set_column headers) Map.empty j"

lemma config_time_examples:
  "config_time_ok ''2024-02-29 8:00:00''" "\<not> config_time_ok ''2023-02-29 08:00:00''"
  "\<not> config_time_ok ''tomorrow''" "config_time_ok ''2024-01-02 15:04:05.123''"
  by code_simp+

section \<open>Facts on maps and members\<close>

lemma map_of_rev_distinct: "distinct (map fst xs) \<Longrightarrow> map_of (rev xs) = map_of xs"
proof (induction xs)
  case (Cons x xs)
  then have "map_of xs (fst x) = None" by (simp add: map_of_eq_None_iff)
  then show ?case using Cons by (cases x) (simp add: fun_eq_iff map_add_def split: option.split)
qed simp

lemma members_map_json:
  assumes "finite (dom m)"
  shows "distinct (map fst (map (\<lambda>k. (k, f (the (m k)))) (sorted_list_of_set (dom m))))"
    and "map_of (map (\<lambda>k. (k, f (the (m k)))) (sorted_list_of_set (dom m))) = (\<lambda>k. map_option f (m k))"
proof -
  show "distinct (map fst (map (\<lambda>k. (k, f (the (m k)))) (sorted_list_of_set (dom m))))"
    by (simp add: comp_def)
  show "map_of (map (\<lambda>k. (k, f (the (m k)))) (sorted_list_of_set (dom m))) = (\<lambda>k. map_option f (m k))"
    using assms by (auto simp: fun_eq_iff map_of_map_restrict restrict_map_def domIff)
qed

lemma same_leaf [simp]:
  "same_json (JStr t) j \<longleftrightarrow> j = JStr t" "same_json (JNum l) j \<longleftrightarrow> j = JNum l"
  "same_json (int_json w) j \<longleftrightarrow> j = int_json w"
  by (auto simp: int_json_def intro: same_refl elim: same_jsonE)

lemma same_leaves:
  assumes "\<And>x j. same_json (f x) j \<longleftrightarrow> j = f x"
  shows "same_json (JArr (map f xs)) j \<longleftrightarrow> j = JArr (map f xs)"
proof -
  have "list_all2 same_json (map f xs) ws \<longleftrightarrow> ws = map f xs" for ws
    by (induction xs arbitrary: ws) (auto simp: list_all2_Cons1 assms)
  then show ?thesis by (auto simp: same_arr_iff)
qed

text \<open>The members that the JSON form of a map comes back with.\<close>

lemma same_map_json:
  assumes "finite (dom m)" and "same_json (map_json m f) j"
  obtains ns where "j = JObj ns" "distinct (map fst ns)" "dom (map_of ns) = dom m"
    "\<And>k x. m k = Some x \<Longrightarrow> \<exists>y. map_of ns k = Some y \<and> same_json (f x) y"
proof -
  let ?ms = "map (\<lambda>k. (k, f (the (m k)))) (sorted_list_of_set (dom m))"
  have ms: "distinct (map fst ?ms)" "map_of ?ms = (\<lambda>k. map_option f (m k))"
    by (rule members_map_json[OF assms(1)])+
  have "j = JObj ?ms \<or> (\<exists>ns. j = JObj ns \<and> same_members same_json ?ms ns)"
    using assms(2) unfolding map_json_def same_obj_iff .
  then obtain ns where ns: "j = JObj ns" "distinct (map fst ns)" "\<forall>k. rel_option same_json (map_of ?ms k) (map_of ns k)"
    using ms(1) by (auto simp: same_members_def option.rel_refl same_refl)
  have rel: "rel_option same_json (map_option f (m k)) (map_of ns k)" for k using ns(3) ms(2) by simp
  have "map_of ns k = None \<longleftrightarrow> m k = None" for k using rel[of k] by (cases "m k"; cases "map_of ns k") auto
  then have "dom (map_of ns) = dom m" by (auto simp: dom_def)
  moreover have "\<exists>y. map_of ns k = Some y \<and> same_json (f x) y" if "m k = Some x" for k x
    using rel[of k] that by (cases "map_of ns k") auto
  ultimately show ?thesis using that ns by blast
qed

lemma same_map_leaves:
  assumes "finite (dom m)" and "same_json (map_json m f) j" and "\<And>x y. same_json (f x) y \<longleftrightarrow> y = f x"
  obtains ns where "j = JObj ns" "distinct (map fst ns)" "map_of ns = (\<lambda>k. map_option f (m k))"
proof -
  obtain ns where ns: "j = JObj ns" "distinct (map fst ns)" "dom (map_of ns) = dom m"
    "\<And>k x. m k = Some x \<Longrightarrow> \<exists>y. map_of ns k = Some y \<and> same_json (f x) y"
    using same_map_json[OF assms(1,2)] by blast
  have "map_of ns k = map_option f (m k)" for k
  proof (cases "m k")
    case None
    then have "k \<notin> dom (map_of ns)" using ns(3) by auto
    then show ?thesis using None by (auto simp: domIff)
  next
    case (Some x)
    then show ?thesis using ns(4)[OF Some] assms(3) by auto
  qed
  then show ?thesis using that ns(1,2) by blast
qed

section \<open>Decoding what was marshalled\<close>

lemma decode_int_json [simp]: "decode_int (int_json w) = Some w"
  by (simp add: decode_int_def int_json_def parse_word_show)

lemma decode_string_json [simp]: "decode_string (JStr t) = Some t"
  by (simp add: decode_string_def set_string_def)

lemma decode_elems_map: "(\<And>x. f (g x) = Some x) \<Longrightarrow> decode_elems f (map g xs) = Some xs"
  by (induction xs) auto

lemma decode_entries_all:
  assumes "list_all (\<lambda>(k, v). kf k \<noteq> None \<and> f v \<noteq> None) ms"
  shows "decode_entries kf f ms m = Some (m ++ map_of (rev (map (\<lambda>(k, v). (the (kf k), the (f v))) ms)))"
  using assms
proof (induction ms arbitrary: m)
  case (Cons kv ms)
  obtain k v k' x where kv: "kv = (k, v)" "kf k = Some k'" "f v = Some x" using Cons.prems by (cases kv) auto
  have "m(k' \<mapsto> x) ++ map_of ys = m ++ map_of (ys @ [(k', x)])" for ys
    by (simp add: map_add_def fun_eq_iff split: option.split)
  then show ?case using Cons by (simp add: kv del: fun_upd_apply map_of_append)
qed simp

lemma decode_entries_fails:
  assumes "(k, v) \<in> set ms" and "kf k = None \<or> f v = None"
  shows "decode_entries kf f ms m = None"
  using assms(1)
proof (induction ms arbitrary: m)
  case (Cons kv ms)
  show ?case
  proof (cases "kv = (k, v)")
    case True
    then show ?thesis using assms(2) by (auto split: option.split)
  next
    case False
    then have "(k, v) \<in> set ms" using Cons.prems by auto
    then show ?thesis using Cons.IH by (cases kv) (auto split: option.split)
  qed
qed simp

text \<open>A list of entries that are exactly those of a map, in any order, builds that map.\<close>

lemma map_of_eqI:
  assumes "\<And>a b. (a, b) \<in> set xs \<Longrightarrow> M a = Some b" and "\<And>a b. M a = Some b \<Longrightarrow> (a, b) \<in> set xs"
  shows "map_of xs = M"
proof
  fix a
  show "map_of xs a = M a"
  proof (cases "M a")
    case None
    then have "a \<notin> fst ` set xs" using assms(1) by fastforce
    then show ?thesis using None by (simp add: map_of_eq_None_iff)
  next
    case (Some b)
    then have "map_of xs a \<noteq> None" using assms(2) by (metis map_of_eq_None_iff fst_conv image_eqI)
    then obtain c where "map_of xs a = Some c" by blast
    then show ?thesis using assms(1) map_of_SomeD by metis
  qed
qed

text \<open>
  A marshalled map reads back as the map \<open>M\<close> whose keys are written \<open>key\<close>.
\<close>

lemma decode_keyed_map:
  assumes "finite (dom m)" and "same_json (map_json m g) j"
    and "\<And>x y. same_json (g x) y \<longleftrightarrow> y = g x" and "\<And>x. f (g x) = Some x"
    and "\<And>k x. m k = Some x \<Longrightarrow> \<exists>k'. kf k = Some k' \<and> M k' = Some x"
    and "\<And>k' x. M k' = Some x \<Longrightarrow> m (key k') = Some x \<and> kf (key k') = Some k'"
  shows "decode_map kf f j = Some M"
proof -
  obtain ns where ns: "j = JObj ns" "distinct (map fst ns)" "map_of ns = (\<lambda>k. map_option g (m k))"
    using same_map_leaves[OF assms(1-3)] by blast
  have mem: "(k, v) \<in> set ns \<longleftrightarrow> (\<exists>x. m k = Some x \<and> v = g x)" for k v
    using map_of_eq_Some_iff[OF ns(2), of k v] ns(3) by auto
  have "list_all (\<lambda>(k, v). kf k \<noteq> None \<and> f v \<noteq> None) ns"
    using mem assms(4,5) by (fastforce simp: list_all_iff)
  moreover have "map_of (rev (map (\<lambda>(k, v). (the (kf k), the (f v))) ns)) = M"
  proof (rule map_of_eqI)
    fix a b
    assume "(a, b) \<in> set (rev (map (\<lambda>(k, v). (the (kf k), the (f v))) ns))"
    then obtain k v where "(k, v) \<in> set ns" "a = the (kf k)" "b = the (f v)" by auto
    then show "M a = Some b" using mem assms(4,5) by fastforce
  next
    fix a b
    assume "M a = Some b"
    then have "(key a, g b) \<in> set ns" "(a, b) = (\<lambda>(k, v). (the (kf k), the (f v))) (key a, g b)"
      using mem assms(4,6) by auto
    then show "(a, b) \<in> set (rev (map (\<lambda>(k, v). (the (kf k), the (f v))) ns))"
      unfolding set_rev set_map by (rule rev_image_eqI)
  qed
  ultimately show ?thesis by (simp add: decode_map_def ns(1) decode_entries_all)
qed

text \<open>A map with text keys, and one with integer keys.\<close>

lemma decode_text_map:
  assumes "finite (dom m)" and "same_json (map_json m g) j"
    and "\<And>x y. same_json (g x) y \<longleftrightarrow> y = g x" and "\<And>x. f (g x) = Some x"
  shows "decode_map Some f j = Some m"
  by (rule decode_keyed_map[OF assms, where key = id]) auto

lemma text_keys_show [simp]: "text_keys m (show_int (sint w)) = m w"
  by (simp add: text_keys_def parse_word_show)

lemma text_keysD:
  assumes "text_keys m k = Some x"
  obtains w where "parse_word k = Some w" "k = show_int (sint w)" "m w = Some x"
  using assms by (auto simp: text_keys_def split: option.splits if_splits)

lemma finite_text_keys: "finite (dom (text_keys (m :: 'w::len word \<Rightarrow> 'v option)))"
proof (rule finite_subset)
  show "dom (text_keys m) \<subseteq> (\<lambda>w. show_int (sint w)) ` (UNIV :: 'w word set)"
    by (auto elim: text_keysD)
qed simp

lemma decode_word_map:
  assumes "same_json (map_json (text_keys m) JStr) j"
  shows "decode_map parse_word decode_string j = Some m"
proof (rule decode_keyed_map[OF finite_text_keys assms, where key = "\<lambda>w. show_int (sint w)"])
  show "\<exists>k'. parse_word k = Some k' \<and> m k' = Some x" if "text_keys m k = Some x" for k x
    using that by (rule text_keysD) blast
qed (simp_all add: parse_word_show)

section \<open>Fields\<close>

text \<open>The text-keyed maps of parsed values are finite.\<close>

fun finite_value :: "go_value \<Rightarrow> bool" where
  "finite_value (VMapToInt32 m) = finite (dom m)"
| "finite_value (VMapToInt64 m) = finite (dom m)"
| "finite_value (VMapStrings m) = finite (dom m)"
| "finite_value (VMapAny m) = finite (dom m)"
| "finite_value _ = True"

lemma string_loop_finite: "string_key_loop msg val es Map.empty = Inr m \<Longrightarrow> finite (dom m)"
  by (simp add: string_key_loop_Inr finite_dom_map_of)

lemma parseMap_finite: "parseMap b raw typ = Inr v \<Longrightarrow> finite_value v"
  by (auto simp: parseMap_def Let_def dest: string_loop_finite split: if_splits prod.splits)

lemma parseValue_finite: "parseValue raw typ = Inr c \<Longrightarrow> finite_value (cell_parsed c)"
  by (auto simp: parseValue_def parseInt32_def parseInt64_def parseTime_def parseInt32Array_def
      parseInt64Array_def parseStringArray_def Let_def dest: parseMap_finite split: if_splits option.splits)

text \<open>The value a field of a Go type gets from a stored one: an untyped map takes its type.\<close>

fun loaded_value :: "string \<Rightarrow> go_value \<Rightarrow> go_value" where
  "loaded_value t (VMapAny m) =
     (if t = ''map[int32]string'' then VMapInt32 Map.empty
      else if t = ''map[int64]string'' then VMapInt64 Map.empty
      else if t = ''map[string]int32'' then VMapToInt32 Map.empty
      else if t = ''map[string]int64'' then VMapToInt64 Map.empty
      else VMapStrings m)"
| "loaded_value t v = v"

lemma same_list:
  assumes "same_json (JArr (map g xs)) j" and "\<And>x y. same_json (g x) y \<longleftrightarrow> y = g x"
    and "\<And>x. f (g x) = Some x"
  shows "decode_list f j = Some xs"
  using assms(1) unfolding same_leaves[OF assms(2)] by (simp add: decode_list_def decode_elems_map assms(3))

lemma decode_no_entries: "same_json (map_json (Map.empty :: string \<Rightarrow> 'c option) g) j \<Longrightarrow> decode_map kf f j = Some Map.empty"
proof -
  assume same: "same_json (map_json Map.empty g) j"
  obtain ns where "j = JObj ns" "dom (map_of ns) = dom (Map.empty :: string \<Rightarrow> 'c option)"
    by (rule same_map_json[OF _ same]) simp_all
  then have "j = JObj []" by (cases ns) auto
  then show ?thesis by (simp add: decode_map_def)
qed

lemma decode_field_fits:
  assumes "fits_go_type t v" and "finite_value v" and "same_json (value_json v) j"
  shows "decode_field t j = Some (Field (loaded_value t v))"
proof (cases v)
  case (VInt32s xs)
  then show ?thesis
    using assms same_list[where f = decode_int and g = int_json and xs = xs] by (simp add: decode_field_def)
next
  case (VInt64s xs)
  then show ?thesis
    using assms same_list[where f = decode_int and g = int_json and xs = xs] by (simp add: decode_field_def)
next
  case (VStrings xs)
  then show ?thesis
    using assms same_list[where f = decode_string and g = JStr and xs = xs] by (simp add: decode_field_def)
next
  case (VMapInt32 m)
  then show ?thesis using assms by (simp add: decode_field_def decode_word_map)
next
  case (VMapInt64 m)
  then show ?thesis using assms by (simp add: decode_field_def decode_word_map)
next
  case (VMapToInt32 m)
  then show ?thesis using assms by (simp add: decode_field_def decode_text_map)
next
  case (VMapToInt64 m)
  then show ?thesis using assms by (simp add: decode_field_def decode_text_map)
next
  case (VMapStrings m)
  then show ?thesis using assms by (simp add: decode_field_def decode_text_map)
next
  case (VMapAny m)
  show ?thesis
  proof (cases "t = ''map[string]string''")
    case True
    then show ?thesis using assms VMapAny by (simp add: decode_field_def decode_text_map)
  next
    case False
    then have m: "m = Map.empty" and t: "t \<in> set typed_maps" using assms(1) VMapAny by auto
    have same: "same_json (map_json Map.empty JStr) j" using assms(3) VMapAny m by simp
    show ?thesis
      using t unfolding typed_maps_def VMapAny m
      by (simp, elim disjE; hypsubst; simp add: decode_field_def decode_no_entries[OF same])
  qed
qed (use assms in \<open>simp_all add: decode_field_def\<close>)

text \<open>The time type keeps the text and refuses what is no time.\<close>

lemma decode_field_time:
  "same_json (JStr x) j \<Longrightarrow>
     decode_field ''ConfigTime'' j = (if config_time_ok x then Some (Field (VString x)) else None)"
  by (simp add: decode_field_def decode_config_time_def set_string_def)

text \<open>An untyped map in a column of any map type.\<close>

lemma decode_any_map:
  assumes "finite (dom m)" and "same_json (map_json m JStr) j"
  shows "decode_map kf f j = None \<longleftrightarrow> (\<exists>k x. m k = Some x \<and> (kf k = None \<or> f (JStr x) = None))"
proof -
  obtain ns where ns: "j = JObj ns" "distinct (map fst ns)" "map_of ns = (\<lambda>k. map_option JStr (m k))"
    using same_map_leaves[OF assms] by (metis same_leaf(1))
  have mem: "(k, v) \<in> set ns \<longleftrightarrow> (\<exists>x. m k = Some x \<and> v = JStr x)" for k v
    using map_of_eq_Some_iff[OF ns(2), of k v] ns(3) by auto
  show ?thesis
  proof (cases "list_all (\<lambda>(k, v). kf k \<noteq> None \<and> f v \<noteq> None) ns")
    case True
    have "kf k \<noteq> None \<and> f (JStr x) \<noteq> None" if "m k = Some x" for k x
      using True mem[of k "JStr x"] that unfolding list_all_iff by auto
    then show ?thesis using decode_entries_all[OF True] by (simp add: decode_map_def ns(1))
  next
    case False
    then obtain p where p: "p \<in> set ns" "\<not> (case p of (k, v) \<Rightarrow> kf k \<noteq> None \<and> f v \<noteq> None)"
      unfolding list_all_iff by blast
    obtain k v where p': "p = (k, v)" by (cases p)
    have kv: "(k, v) \<in> set ns" "kf k = None \<or> f v = None"
      using p unfolding p' prod.case by blast+
    obtain x where "m k = Some x" "v = JStr x" using mem kv(1) by blast
    then have ex: "\<exists>k x. m k = Some x \<and> (kf k = None \<or> f (JStr x) = None)" using kv(2) by blast
    have "decode_map kf f j = None" by (simp add: decode_map_def ns(1) decode_entries_fails[of k v ns kf f, OF kv])
    with ex show ?thesis by blast
  qed
qed

lemma decode_map_field:
  assumes "K \<in> {''int32'', ''int64'', ''string''}" and "T \<in> {''int32'', ''int64'', ''string''}"
    and "finite (dom m)" and "same_json (map_json m JStr) j"
  shows "decode_field (''map['' @ K @ '']'' @ T) j \<noteq> None \<longleftrightarrow>
    (\<forall>k \<in> dom m. T = ''string'' \<and> (K = ''string'' \<or> decode_sized K k \<noteq> None))"
proof -
  note leaf = decode_int_def decode_sized_json_def parse_word_def decode_sized_def
  show ?thesis
    using assms(1,2) unfolding insert_iff empty_iff simp_thms
    by (elim disjE; hypsubst)
       (auto simp: decode_field_def decode_any_map[OF assms(3,4)] leaf, (metis option.distinct(1))+)
qed

lemma undocumented_field:
  assumes "CHR ''='' \<in> set typ" and "map_types typ \<notin> set documented_maps"
    and "parseValue raw typ = Inr c" and "same_json (value_json (cell_parsed c)) j"
  shows "decode_field (csvTypeToGoType typ) j \<noteq> None \<longleftrightarrow>
    entries_of raw = [] \<or>
    \<not> is_integer_type (snd (map_types typ)) \<and>
    (is_integer_type (fst (map_types typ)) \<longrightarrow>
       (\<forall>(k, v) \<in> set (entries_of raw). decode_sized (fst (map_types typ)) k \<noteq> None))"
proof -
  note mv = map_value[OF assms(1,3)]
  define K where "K = (if is_integer_type (fst (map_types typ)) then fst (map_types typ) else ''string'')"
  define T where "T = (if is_integer_type (snd (map_types typ)) then snd (map_types typ) else ''string'')"
  obtain m where m: "cell_parsed c = VMapAny m" "dom m = fst ` set (entries_of raw)"
    using parseMap_any[OF assms(2) mv(2) refl] by blast
  have kt: "K \<in> {''int32'', ''int64'', ''string''}" "T \<in> {''int32'', ''int64'', ''string''}"
    by (auto simp: K_def T_def is_integer_type_def)
  have iK: "K = ''string'' \<longleftrightarrow> \<not> is_integer_type (fst (map_types typ))"
    and iT: "T = ''string'' \<longleftrightarrow> \<not> is_integer_type (snd (map_types typ))"
    by (auto simp: K_def T_def is_integer_type_def)
  have same: "same_json (map_json m JStr) j" using assms(4) m(1) by simp
  have fin: "finite (dom m)" unfolding m(2) by simp
  have go: "csvTypeToGoType typ = ''map['' @ K @ '']'' @ T"
    unfolding mv(1) parseMapType_pair K_def T_def ..
  have "decode_field (csvTypeToGoType typ) j \<noteq> None \<longleftrightarrow>
      (\<forall>(k, v) \<in> set (entries_of raw). T = ''string'' \<and> (K = ''string'' \<or> decode_sized K k \<noteq> None))"
    unfolding go decode_map_field[OF kt fin same] m(2) by auto
  also have "\<dots> \<longleftrightarrow> entries_of raw = [] \<or> T = ''string'' \<and>
      (K \<noteq> ''string'' \<longrightarrow> (\<forall>(k, v) \<in> set (entries_of raw). decode_sized K k \<noteq> None))"
    by (cases "entries_of raw") auto
  finally show ?thesis unfolding iK iT by (simp add: K_def)
qed

lemma typed_field:
  assumes "parseValue raw typ = Inr c" and "same_json (value_json (cell_parsed c)) j" and "typed_column typ"
  shows "decode_field (csvTypeToGoType typ) j =
    (if typ = ''time'' \<and> \<not> config_time_ok raw then None
     else Some (Field (loaded_value (csvTypeToGoType typ) (cell_parsed c))))"
proof (cases "typ = ''time''")
  case True
  then have "cell_parsed c = VString raw" using assms(1) by (auto simp: parseValue_def parseTime_def Let_def split: if_splits)
  moreover have "csvTypeToGoType typ = ''ConfigTime''" by (simp add: True csvTypeToGoType_def)
  ultimately show ?thesis using decode_field_time[of raw j] assms(2) True by simp
next
  case False
  then show ?thesis
    using decode_field_fits[OF typed_column_fits[OF assms(1) False assms(3)] parseValue_finite[OF assms(1)] assms(2)]
    by simp
qed

section \<open>Rows and documents\<close>

text \<open>The row that a sheet's row becomes, and the check that its time columns must pass.\<close>

definition loaded_row :: "column_header list \<Rightarrow> cell list \<Rightarrow> decoded_row" where
  "loaded_row headers row =
     map_of (map (\<lambda>(h, c). (ch_name h, Field (loaded_value (csvTypeToGoType (ch_type h)) (cell_parsed c))))
       (zip headers row))"

definition times_ok :: "column_header list \<Rightarrow> cell list \<Rightarrow> bool" where
  "times_ok headers row \<longleftrightarrow>
     list_all (\<lambda>(h, c). ch_type h = ''time'' \<longrightarrow> config_time_ok (cell_raw c)) (zip headers row)"

lemma decode_members_columns:
  assumes "\<And>k v. (k, v) \<in> set ns \<Longrightarrow> k \<in> ch_name ` set hs"
  shows "decode_members (map ch_name hs) (set_column hs) ns r =
    (if list_all (\<lambda>(k, v). decode_field (column_type hs k) v \<noteq> None) ns
     then Some (r ++ map_of (rev (map (\<lambda>(k, v). (k, the (decode_field (column_type hs k) v))) ns)))
     else None)"
  using assms
proof (induction ns arbitrary: r)
  case (Cons kv ns)
  obtain k v where kv: "kv = (k, v)" by (cases kv)
  have k: "k \<in> ch_name ` set hs" using Cons.prems[of k v] by (simp add: kv)
  note IH = Cons.IH[OF Cons.prems[OF list.set_intros(2)]]
  show ?case
  proof (cases "decode_field (column_type hs k) v")
    case None
    then show ?thesis by (simp add: kv match_field_def k set_column_def)
  next
    case (Some x)
    have "r(k \<mapsto> x) ++ map_of ys = r ++ map_of (ys @ [(k, x)])" for ys
      by (simp add: map_add_def fun_eq_iff split: option.split)
    then show ?thesis using IH Some
      by (simp add: kv match_field_def k set_column_def del: fun_upd_apply map_of_append)
  qed
qed simp

lemma find_by_name:
  "distinct (map ch_name hs) \<Longrightarrow> h \<in> set hs \<Longrightarrow> find (\<lambda>x. ch_name x = ch_name h) hs = Some h"
  by (induction hs) auto

text \<open>The members of a row's object, as the column gives them back.\<close>

lemma row_members:
  assumes "distinct (map ch_name hs)" and "length row = length hs"
    and "same_json (map_json (row_object hs 0 row Map.empty) value_json) j"
  obtains ns where "j = JObj ns" "distinct (map fst ns)"
    "\<forall>k v. (k, v) \<in> set ns \<longleftrightarrow> (\<exists>h c. (h, c) \<in> set (zip hs row) \<and> k = ch_name h \<and> map_of ns k = Some v)"
    "\<forall>h c. (h, c) \<in> set (zip hs row) \<longrightarrow>
       (\<exists>v. map_of ns (ch_name h) = Some v \<and> same_json (value_json (cell_parsed c)) v)"
proof -
  let ?m = "row_object hs 0 row Map.empty"
  have dom: "dom ?m = ch_name ` set hs" using assms(2) by (simp add: row_object_dom)
  obtain ns where ns: "j = JObj ns" "distinct (map fst ns)" "dom (map_of ns) = dom ?m"
    "\<And>k x. ?m k = Some x \<Longrightarrow> \<exists>y. map_of ns k = Some y \<and> same_json (value_json x) y"
    by (rule same_map_json[OF _ assms(3)]) (simp_all add: dom)
  have at: "?m (ch_name h) = Some (cell_parsed c)" if hc: "(h, c) \<in> set (zip hs row)" for h c
  proof -
    obtain i where "i < length hs" "h = hs ! i" "c = row ! i"
      using hc assms(2) by (auto simp: in_set_zip)
    then show ?thesis using row_object_at[OF assms(1), of i row 0 Map.empty] assms(2) by simp
  qed
  have "\<exists>h c. (h, c) \<in> set (zip hs row) \<and> k = ch_name h" if kv: "(k, v) \<in> set ns" for k v
  proof -
    have "k \<in> dom (map_of ns)" using map_of_eq_Some_iff[OF ns(2), of k v] kv by auto
    then obtain h where "h \<in> set hs" "k = ch_name h" unfolding ns(3) dom by blast
    then obtain i where "i < length hs" "k = ch_name (hs ! i)" by (auto simp: in_set_conv_nth)
    then have "(hs ! i, row ! i) \<in> set (zip hs row)" using assms(2) by (force simp: in_set_zip)
    then show ?thesis using \<open>k = ch_name (hs ! i)\<close> by blast
  qed
  then have "(k, v) \<in> set ns \<longleftrightarrow> (\<exists>h c. (h, c) \<in> set (zip hs row) \<and> k = ch_name h \<and> map_of ns k = Some v)" for k v
    using map_of_eq_Some_iff[OF ns(2)] by blast
  then have mem: "\<forall>k v. (k, v) \<in> set ns \<longleftrightarrow> (\<exists>h c. (h, c) \<in> set (zip hs row) \<and> k = ch_name h \<and> map_of ns k = Some v)"
    by blast
  have "\<forall>h c. (h, c) \<in> set (zip hs row) \<longrightarrow>
      (\<exists>v. map_of ns (ch_name h) = Some v \<and> same_json (value_json (cell_parsed c)) v)"
    using at ns(4) by blast
  then show ?thesis by (rule that[OF ns(1,2) mem])
qed

lemma loaded_row_iff:
  assumes "distinct (map ch_name hs)" and "length row = length hs"
  shows "loaded_row hs row n = Some x \<longleftrightarrow>
    (\<exists>h c. (h, c) \<in> set (zip hs row) \<and> n = ch_name h \<and>
       x = Field (loaded_value (csvTypeToGoType (ch_type h)) (cell_parsed c)))"
proof -
  let ?xs = "map (\<lambda>(h, c). (ch_name h, Field (loaded_value (csvTypeToGoType (ch_type h)) (cell_parsed c)))) (zip hs row)"
  have "map fst ?xs = map ch_name (map fst (zip hs row))" by (simp add: case_prod_unfold)
  then have "distinct (map fst ?xs)" using assms by simp
  from map_of_eq_Some_iff[OF this] show ?thesis unfolding loaded_row_def by auto
qed

text \<open>The field that a cell of a column decodes into, and the members of a stored row one by one.\<close>

definition loaded_cell :: "column_header \<Rightarrow> cell \<Rightarrow> field_value option" where
  "loaded_cell h c =
     (if ch_type h = ''time'' \<and> \<not> config_time_ok (cell_raw c) then None
      else Some (Field (loaded_value (csvTypeToGoType (ch_type h)) (cell_parsed c))))"

lemma times_ok_loaded: "times_ok hs row \<longleftrightarrow> (\<forall>h c. (h, c) \<in> set (zip hs row) \<longrightarrow> loaded_cell h c \<noteq> None)"
  by (auto simp: times_ok_def list_all_iff loaded_cell_def)

lemma row_fields:
  assumes "distinct (map ch_name hs)" and "length row = length hs"
    and "\<And>h c. (h, c) \<in> set (zip hs row) \<Longrightarrow> parseValue (cell_raw c) (ch_type h) = Inr c \<and> typed_column (ch_type h)"
    and "same_json (map_json (row_object hs 0 row Map.empty) value_json) j"
  obtains ns where "j = JObj ns" "distinct (map fst ns)"
    "\<forall>k v. (k, v) \<in> set ns \<longrightarrow> (\<exists>h c. (h, c) \<in> set (zip hs row) \<and> k = ch_name h \<and>
       decode_field (column_type hs k) v = loaded_cell h c)"
    "\<forall>h c. (h, c) \<in> set (zip hs row) \<longrightarrow> (\<exists>v. (ch_name h, v) \<in> set ns \<and>
       decode_field (column_type hs (ch_name h)) v = loaded_cell h c)"
proof (rule row_members[OF assms(1,2,4)])
  fix ns
  assume ns: "j = JObj ns" "distinct (map fst ns)"
    "\<forall>k v. (k, v) \<in> set ns \<longleftrightarrow> (\<exists>h c. (h, c) \<in> set (zip hs row) \<and> k = ch_name h \<and> map_of ns k = Some v)"
    "\<forall>h c. (h, c) \<in> set (zip hs row) \<longrightarrow>
       (\<exists>v. map_of ns (ch_name h) = Some v \<and> same_json (value_json (cell_parsed c)) v)"
  have field: "decode_field (column_type hs (ch_name h)) v = loaded_cell h c"
    if hc: "(h, c) \<in> set (zip hs row)" and v: "map_of ns (ch_name h) = Some v" for h c v
  proof -
    have "h \<in> set hs" using hc by (auto dest: set_zip_leftD)
    then have "column_type hs (ch_name h) = csvTypeToGoType (ch_type h)"
      by (simp add: column_type_def find_by_name[OF assms(1)])
    moreover have "same_json (value_json (cell_parsed c)) v" using ns(4)[rule_format, OF hc] v by auto
    ultimately show ?thesis
      using typed_field[of "cell_raw c" "ch_type h" c v] assms(3)[OF hc] by (simp add: loaded_cell_def)
  qed
  show thesis
  proof (rule that[OF ns(1,2)])
    show "\<forall>k v. (k, v) \<in> set ns \<longrightarrow> (\<exists>h c. (h, c) \<in> set (zip hs row) \<and> k = ch_name h \<and>
        decode_field (column_type hs k) v = loaded_cell h c)"
      using ns(3) field by metis
    show "\<forall>h c. (h, c) \<in> set (zip hs row) \<longrightarrow> (\<exists>v. (ch_name h, v) \<in> set ns \<and>
        decode_field (column_type hs (ch_name h)) v = loaded_cell h c)"
      using ns(3,4) field by metis
  qed
qed

lemma decode_row_loaded:
  assumes "distinct (map ch_name hs)" and "length row = length hs"
    and "\<And>h c. (h, c) \<in> set (zip hs row) \<Longrightarrow> parseValue (cell_raw c) (ch_type h) = Inr c \<and> typed_column (ch_type h)"
    and "same_json (map_json (row_object hs 0 row Map.empty) value_json) j"
  shows "decode_row hs j = (if times_ok hs row then Some (loaded_row hs row) else None)"
proof (rule row_fields[OF assms])
  fix ns
  let ?F = "\<lambda>k v. decode_field (column_type hs k) v"
  assume ns: "j = JObj ns" "distinct (map fst ns)"
    "\<forall>k v. (k, v) \<in> set ns \<longrightarrow> (\<exists>h c. (h, c) \<in> set (zip hs row) \<and> k = ch_name h \<and> ?F k v = loaded_cell h c)"
    "\<forall>h c. (h, c) \<in> set (zip hs row) \<longrightarrow> (\<exists>v. (ch_name h, v) \<in> set ns \<and> ?F (ch_name h) v = loaded_cell h c)"
  have names: "k \<in> ch_name ` set hs" if "(k, v) \<in> set ns" for k v
    using that ns(3) by (fastforce dest: set_zip_leftD)
  have all: "list_all (\<lambda>(k, v). ?F k v \<noteq> None) ns \<longleftrightarrow> times_ok hs row"
    unfolding times_ok_loaded list_all_iff using ns(3,4) by fastforce
  have "map_of (rev (map (\<lambda>(k, v). (k, the (?F k v))) ns)) = loaded_row hs row" if ok: "times_ok hs row"
  proof (rule map_of_eqI)
    fix a b
    assume "(a, b) \<in> set (rev (map (\<lambda>(k, v). (k, the (?F k v))) ns))"
    then obtain v where v: "(a, v) \<in> set ns" "b = the (?F a v)" by auto
    then obtain h c where hc: "(h, c) \<in> set (zip hs row)" "a = ch_name h" "?F a v = loaded_cell h c" using ns(3) by blast
    then have "b = Field (loaded_value (csvTypeToGoType (ch_type h)) (cell_parsed c))"
      using v(2) ok by (auto simp: times_ok_loaded loaded_cell_def split: if_splits)
    then show "loaded_row hs row a = Some b" unfolding loaded_row_iff[OF assms(1,2)] using hc by blast
  next
    fix a b
    assume "loaded_row hs row a = Some b"
    then obtain h c where hc: "(h, c) \<in> set (zip hs row)" "a = ch_name h"
      "b = Field (loaded_value (csvTypeToGoType (ch_type h)) (cell_parsed c))"
      unfolding loaded_row_iff[OF assms(1,2)] by blast
    obtain v where v: "(a, v) \<in> set ns" "?F a v = loaded_cell h c" using ns(4) hc by blast
    have "(a, b) = (\<lambda>(k, v). (k, the (?F k v))) (a, v)"
      using v(2) ok hc by (auto simp: times_ok_loaded loaded_cell_def split: if_splits)
    with v(1) show "(a, b) \<in> set (rev (map (\<lambda>(k, v). (k, the (?F k v))) ns))"
      unfolding set_rev set_map by (rule rev_image_eqI)
  qed
  then show ?thesis
    by (simp add: decode_row_def decode_struct_def ns(1) decode_members_columns[OF names] all del: not_None_eq)
qed

lemma decode_elems_rows:
  assumes "list_all2 (\<lambda>row w. decode_row hs w = (if times_ok hs row then Some (loaded_row hs row) else None)) rows ws"
  shows "decode_elems (decode_row hs) ws =
    (if list_all (times_ok hs) rows then Some (map (loaded_row hs) rows) else None)"
  using assms by (induction rows ws rule: list_all2_induct) auto

text \<open>What a document with the content of a payload decodes to.\<close>

lemma decode_payload:
  assumes "parse_sheet tx file = Parsed sh" and "validate_sheet sh = None"
    and "list_all (\<lambda>h. typed_column (ch_type h)) (sh_headers sh)"
    and "json_parse bytes = Some j" and "same_json (payload_json (generate_payload sh rv)) j"
  shows "decode_slice (decode_row (sh_headers sh)) bytes =
    (if list_all (times_ok (sh_headers sh)) (sh_rows sh) then Some (map (loaded_row (sh_headers sh)) (sh_rows sh)) else None)"
proof -
  let ?hs = "sh_headers sh"
  have dist: "distinct (map ch_name ?hs)"
    using assms(2) by (simp add: validate_sheet_def validate_headers_None)
  have wf: "well_formed_sheet sh" by (rule parsed_well_formed[OF assms(1)])
  let ?obj = "\<lambda>row. map_json (row_object ?hs 0 row Map.empty) value_json"
  have "same_json (JArr (map ?obj (sh_rows sh))) j"
    using assms(5) by (simp add: payload_json_def generate_payload_def comp_def)
  then obtain ws where ws: "j = JArr ws" "list_all2 same_json (map ?obj (sh_rows sh)) ws"
    unfolding same_arr_iff by (auto intro: same_refl list_all2_refl)
  have row: "decode_row ?hs w = (if times_ok ?hs row then Some (loaded_row ?hs row) else None)"
    if r: "row \<in> set (sh_rows sh)" and w: "same_json (?obj row) w" for row w
  proof (rule decode_row_loaded[OF dist _ _ w])
    show len: "length row = length ?hs" using wf r by (simp add: well_formed_sheet_def)
    fix h c
    assume "(h, c) \<in> set (zip ?hs row)"
    then obtain i where i: "i < length row" "h = ?hs ! i" "c = row ! i" using len by (auto simp: in_set_zip)
    then have "h \<in> set ?hs" using len by simp
    then show "parseValue (cell_raw c) (ch_type h) = Inr c \<and> typed_column (ch_type h)"
      using wf r i assms(3) by (simp add: well_formed_sheet_def list_all_iff)
  qed
  have "list_all2 (\<lambda>row w. decode_row ?hs w = (if times_ok ?hs row then Some (loaded_row ?hs row) else None))
      (sh_rows sh) ws"
    using ws(2) unfolding list_all2_map1
    by (rule list.rel_mono_strong) (use row in blast)
  from decode_elems_rows[OF this] show ?thesis by (simp add: decode_slice_def assms(4) ws(1))
qed

text \<open>The text the tool writes into the row has that content.\<close>

lemma integral_map_json: "(\<And>x. integral (f x)) \<Longrightarrow> integral (map_json m f)"
  by (simp add: map_json_def integral_fields_list_all list_all_iff)

lemma integral_int_json [simp]: "integral (int_json w)"
  by (auto simp: int_json_def)

lemma integral_value: "integral (value_json v)"
  by (cases v) (simp_all add: integral_map_json integrals_list_all list_all_iff)

text \<open>The text is read back as the payload, with the bytes replaced that are no UTF-8.\<close>

lemma payload_text_parses: "json_parse (payload_text p) = Some (coerce_json (payload_json p))"
  unfolding payload_text_def
  by (rule json_parse_print_json)
     (simp add: payload_json_def integrals_list_all list_all_iff integral_map_json integral_value)

text \<open>The watcher reads the notification that the tool sends.\<close>

lemma decode_published: "decode_notify (publish_message name rv) = Some (coerce_utf8 name, sint rv)"
proof -
  let ?ms = "[(''config_name'', json_quote name, JStr (coerce_utf8 name)),
    (''kind'', json_quote ''lobby_config_published'', JStr ''lobby_config_published''),
    (''revision'', show_int (sint rv), JNum (show_int (sint rv)))]"
  have "scalar_text (json_quote ''lobby_config_published'') (JStr ''lobby_config_published'')"
    using scalar_quote[of "''lobby_config_published''"] by simp
  then have "json_parse (print_obj (map (\<lambda>(k, v, j). (k, v)) ?ms)) = Some (JObj (map (\<lambda>(k, v, j). (k, j)) ?ms))"
    by (intro json_parse_print) (simp_all add: scalar_quote scalar_int plain_char_def)
  moreover have "parse_int 64 (show_int (sint rv)) = Some (sint rv)"
    using parse_int_show_int[OF sint_in_range[of rv]] by simp
  ultimately show ?thesis
    by (simp add: publish_message_def decode_notify_def decode_struct_def match_field_def set_notify_field_def
        set_string_def set_int64_def)
qed

text \<open>A payload is UTF-8 when the values of the cells are: the column names are ASCII.\<close>

definition utf8_sheet :: "sheet \<Rightarrow> bool" where
  "utf8_sheet sh \<longleftrightarrow> list_all (list_all (\<lambda>c. utf8_json (value_json (cell_parsed c)))) (sh_rows sh)"

lemma snake_case_utf8: "snake_case n \<Longrightarrow> valid_utf8 n"
  by (cases n) (auto simp: snake_case_def lower_char_def is_digit_def list_all_iff intro!: ascii_valid, fastforce)

lemma row_object_range:
  "row_object hs j cs m k = Some v \<Longrightarrow> m k = Some v \<or> (\<exists>c \<in> set cs. v = cell_parsed c)"
proof (induction cs arbitrary: j m)
  case (Cons c cs)
  then show ?case by (fastforce split: if_splits)
qed simp

lemma utf8_map_json:
  assumes "\<And>k v. m k = Some v \<Longrightarrow> valid_utf8 k \<and> utf8_json (f v)"
  shows "utf8_json (map_json m f)"
proof -
  have "set (sorted_list_of_set (dom m)) \<subseteq> dom m"
    by (cases "finite (dom m)") simp_all
  then show ?thesis using assms by (fastforce simp: map_json_def utf8_fields_list_all list_all_iff)
qed

lemma utf8_payload:
  assumes "utf8_sheet sh" and "well_formed_sheet sh" and "validate_sheet sh = None"
  shows "utf8_json (payload_json (generate_payload sh rv))"
proof -
  have "utf8_json (map_json (row_object (sh_headers sh) 0 row Map.empty) value_json)" if row: "row \<in> set (sh_rows sh)" for row
  proof (rule utf8_map_json)
    fix k v
    assume kv: "row_object (sh_headers sh) 0 row Map.empty k = Some v"
    then have "k \<in> ch_name ` set (sh_headers sh)"
      using row_object_dom[of "sh_headers sh" 0 row Map.empty] by (auto dest: in_set_takeD)
    then have "valid_utf8 k"
      using assms(3) by (auto simp: validate_sheet_def validate_headers_None list_all_iff snake_case_utf8)
    then show "valid_utf8 k \<and> utf8_json (value_json v)"
      using row_object_range[OF kv] row assms(1) by (auto simp: utf8_sheet_def list_all_iff)
  qed
  then show ?thesis by (simp add: payload_json_def generate_payload_def utf8_elems_list_all list_all_iff)
qed

section \<open>Properties\<close>

text \<open>
  C31. A stored cell decodes into the field generated for its column: for every type without an
  \<open>=\<close> and for the five map types the parser converts, always, except that a time must be one;
  for any other map type exactly when the cell has no entries, or its values are not declared
  integers and, where its keys are, every key is one of that width. So a non-empty cell of a
  type such as \<open>int32=int32\<close> parses and is stored, but its row never loads.
\<close>

theorem cell_decodes_iff:
  assumes "parseValue raw typ = Inr c" and "same_json (value_json (cell_parsed c)) j"
  shows "decode_field (csvTypeToGoType typ) j \<noteq> None \<longleftrightarrow>
    (if CHR ''='' \<notin> set typ \<or> map_types typ \<in> set documented_maps then typ = ''time'' \<longrightarrow> config_time_ok raw
     else entries_of raw = [] \<or>
       \<not> is_integer_type (snd (map_types typ)) \<and>
       (is_integer_type (fst (map_types typ)) \<longrightarrow>
          (\<forall>(k, v) \<in> set (entries_of raw). decode_sized (fst (map_types typ)) k \<noteq> None)))"
proof (cases "typed_column typ")
  case True
  then show ?thesis using typed_field[OF assms] by (simp add: typed_column_def)
next
  case False
  then have "CHR ''='' \<in> set typ" "map_types typ \<notin> set documented_maps" by (auto simp: typed_column_def)
  with undocumented_field[OF this assms] show ?thesis by (simp del: not_None_eq)
qed

lemma cell_decodes_iff_witness:
  "\<exists>c d. parseValue ''1=2'' ''int32=int32'' = Inr c \<and>
     decode_field (csvTypeToGoType ''int32=int32'') (value_json (cell_parsed c)) = None \<and>
     parseValue ''1=2'' ''int32=text'' = Inr d \<and>
     decode_field (csvTypeToGoType ''int32=text'') (value_json (cell_parsed d)) \<noteq> None"
proof -
  have t: "map_types ''int32=int32'' = (''int32'', ''int32'')" "map_types ''int32=text'' = (''int32'', ''text'')"
    by code_simp+
  have e: "entries_of ''1=2'' = [(''1'', ''2'')]" and b: "trim_space ''1=2'' \<noteq> []" by code_simp+
  have n: "decode_sized ''int32'' ''1'' \<noteq> None" by code_simp
  obtain c where c: "parseValue ''1=2'' ''int32=int32'' = Inr c"
    using string_key_loop_total[of "[]" "go_split ''|'' ''1=2''" Map.empty] b
    by (auto simp: parseValue_def parseMap_def t simp del: go_split.simps)
  obtain d where d: "parseValue ''1=2'' ''int32=text'' = Inr d"
    using string_key_loop_total[of "[]" "go_split ''|'' ''1=2''" Map.empty] b
    by (auto simp: parseValue_def parseMap_def t simp del: go_split.simps)
  show ?thesis
    using c d cell_decodes_iff[OF c same_refl] cell_decodes_iff[OF d same_refl] n
    by (simp add: t e documented_maps_def is_integer_type_def del: not_None_eq)
qed

text \<open>
  C30. Stored rows come back: a sheet that parses, validates and has only types the parser
  converts is stored as a document that is read back as it is and that the generated row type
  decodes to exactly the sheet's rows, each cell's value under its column, whatever the order
  in which the database gives the members back; unless a time column holds text that is no
  time, which the tool accepts: then nothing of the document decodes. The texts of the cells
  must be UTF-8, which nothing checks: \<open>json.Marshal\<close> replaces other bytes without a word.
\<close>

theorem stored_rows_reload:
  assumes "parse_sheet tx file = Parsed sh" and "validate_sheet sh = None"
    and "list_all (\<lambda>h. typed_column (ch_type h)) (sh_headers sh)" and "utf8_sheet sh"
  shows "json_parse (payload_text (generate_payload sh rv)) = Some (payload_json (generate_payload sh rv)) \<and>
    (\<forall>bytes j. json_parse bytes = Some j \<and> same_json (payload_json (generate_payload sh rv)) j \<longrightarrow>
       decode_slice (decode_row (sh_headers sh)) bytes =
         (if list_all (times_ok (sh_headers sh)) (sh_rows sh)
          then Some (map (loaded_row (sh_headers sh)) (sh_rows sh)) else None))"
proof -
  have "utf8_json (payload_json (generate_payload sh rv))"
    by (rule utf8_payload[OF assms(4) parsed_well_formed[OF assms(1)] assms(2)])
  then have "json_parse (payload_text (generate_payload sh rv)) = Some (payload_json (generate_payload sh rv))"
    by (simp add: payload_text_parses coerce_utf8_json)
  then show ?thesis using decode_payload[OF assms(1-3)] by blast
qed

lemma demo_sheet_facts:
  obtains sh where "parse_sheet demo_text ''Reward--daily.csv'' = Parsed sh" "validate_sheet sh = None"
    "sh_configName sh = ''Reward''" "list_all (\<lambda>h. typed_column (ch_type h)) (sh_headers sh)"
    "list_all (times_ok (sh_headers sh)) (sh_rows sh)" "utf8_sheet sh"
proof -
  have r: "read_all demo_text = Some [[''Item'', ''How many''], [''item_id'', ''count''], [''int32'', ''int64''], [''7'', ''3'']]"
    by code_simp
  have b: "trim_space ''7'' \<noteq> []" "trim_space ''3'' \<noteq> []" by code_simp+
  have p: "parse_word ''7'' = Some (7 :: 32 word)" "parse_word ''3'' = Some (3 :: 64 word)" by code_simp+
  have n: "deriveConfigName ''Reward--daily.csv'' = ''Reward''" by code_simp
  have "\<exists>sh. parse_sheet demo_text ''Reward--daily.csv'' = Parsed sh \<and> validate_sheet sh = None \<and>
      sh_configName sh = ''Reward'' \<and> list_all (\<lambda>h. typed_column (ch_type h)) (sh_headers sh) \<and>
      list_all (times_ok (sh_headers sh)) (sh_rows sh) \<and> utf8_sheet sh"
    by (simp add: utf8_sheet_def int_json_def parse_sheet_def r parseValue_def b p n parseInt32_def parseInt64_def
        validate_sheet_def validate_headers_None snake_case_def lower_char_def is_digit_def Let_def
        typed_column_def times_ok_def)
  then show ?thesis using that by (elim exE conjE) blast
qed

lemma stored_rows_reload_witness:
  "\<exists>sh. parse_sheet demo_text ''Reward--daily.csv'' = Parsed sh \<and>
     decode_slice (decode_row (sh_headers sh)) (payload_text (generate_payload sh 5)) =
       Some (map (loaded_row (sh_headers sh)) (sh_rows sh))"
proof (rule demo_sheet_facts)
  fix sh
  assume sh: "parse_sheet demo_text ''Reward--daily.csv'' = Parsed sh" "validate_sheet sh = None"
    "list_all (\<lambda>h. typed_column (ch_type h)) (sh_headers sh)" "list_all (times_ok (sh_headers sh)) (sh_rows sh)"
    "utf8_sheet sh"
  show ?thesis using stored_rows_reload[OF sh(1-3,5), of 5] sh(1,4) same_refl by metis
qed

end
