(* ===== verification/Config_Fleet.thy ===== *)
theory Config_Fleet
  imports Config_Reload
begin

text \<open>
  Many lobbies over one revision table: runs of the configuration tool store rows and announce
  them on a Redis channel, lobbies load the table, subscribe, and reload what a message names,
  each at its own pace. Redis delivers a message to those that are subscribed when it is
  published, in order and at most once. A run of the tool is the list of its effects
  (\<open>cli_main\<close>), of which the next one happens at any time; others may store rows and publish
  messages too (a run whose \<open>INSERT\<close> or \<open>PUBLISH\<close> took effect although its reply was lost is
  one of them). A lobby is \<open>LoadAll\<close>, one configuration at a time, in the order of the names,
  and only then (\<open>main.go\<close>) the turns of its watch loop (\<open>notify_message\<close>).

  Any query may fail: a load reads a \<open>view\<close> of the database, one that has the rows of the
  moment but may be out of reach. The routing rules of the lobbies do not change here. What
  the column \<open>data\<close> of a new row holds is arbitrary: the tool's \<open>INSERT\<close> does not name it.
\<close>

section \<open>The fleet\<close>

text \<open>
  \<open>ln_untold\<close> and \<open>ln_failed\<close> are no state of the program: the configurations that got a row
  which this lobby has neither read since nor been sent a message about, and those whose last
  query of this lobby got no answer. A lobby that is still loading has the names it has yet
  to load beside it.
\<close>

record ('ty, 'v) lobby_node =
  ln_store :: "('ty, 'v) config_store"
  ln_subscribed :: bool
  ln_inbox :: "string list"
  ln_untold :: "string set"
  ln_failed :: "string set"

record ('d, 'ty, 'v) config_fleet =
  ft_db :: 'd
  ft_tools :: "cli_effect list list"
  ft_loading :: "nat \<Rightarrow> (('ty, 'v) lobby_node \<times> string list) option"
  ft_lobbies :: "nat \<Rightarrow> ('ty, 'v) lobby_node option"

definition named :: "string \<Rightarrow> string set" where
  "named msg = {name. \<exists>r. decode_notify msg = Some (name, r)}"

definition hear :: "string \<Rightarrow> ('ty, 'v) lobby_node \<Rightarrow> ('ty, 'v) lobby_node" where
  "hear msg n =
     (if ln_subscribed n then n\<lparr>ln_inbox := ln_inbox n @ [msg], ln_untold := ln_untold n - named msg\<rparr> else n)"

definition answered :: "('d, 'ty, 'v) config_loader \<Rightarrow> 'd \<Rightarrow> string \<Rightarrow> bool" where
  "answered l db name \<longleftrightarrow> (case cl_query l (latest_query name) db of Inl e \<Rightarrow> False | Inr x \<Rightarrow> True)"

definition note_load ::
  "('d, 'ty, 'v) config_loader \<Rightarrow> 'd \<Rightarrow> string \<Rightarrow> ('ty, 'v) lobby_node \<Rightarrow> ('ty, 'v) lobby_node" where
  "note_load l db name n =
     (if answered l db name
      then n\<lparr>ln_untold := ln_untold n - {name}, ln_failed := ln_failed n - {name}\<rparr>
      else n\<lparr>ln_failed := insert name (ln_failed n)\<rparr>)"

definition note_message ::
  "('d, 'ty, 'v) config_loader \<Rightarrow> 'd \<Rightarrow> string \<Rightarrow> ('ty, 'v) lobby_node \<Rightarrow> ('ty, 'v) lobby_node" where
  "note_message l db msg n =
     (case decode_notify msg of
        None \<Rightarrow> n
      | Some (name, r) \<Rightarrow> if name = [] then n else note_load l db name n)"

definition owe :: "string \<Rightarrow> ('ty, 'v) lobby_node \<Rightarrow> ('ty, 'v) lobby_node" where
  "owe name n = n\<lparr>ln_untold := insert name (ln_untold n)\<rparr>"

text \<open>The unique key of a row, as the \<open>INSERT\<close> gives it.\<close>

definition row_key :: "sql_value list \<Rightarrow> (string \<times> int) option" where
  "row_key vs =
     (case vs of Sql_string name # Sql_int r # _ \<Rightarrow> Some (name, sint r) | _ \<Rightarrow> None)"

definition set_tool :: "nat \<Rightarrow> cli_effect list \<Rightarrow> ('d, 'ty, 'v) config_fleet \<Rightarrow> ('d, 'ty, 'v) config_fleet" where
  "set_tool k effs f = f\<lparr>ft_tools := (ft_tools f)[k := effs]\<rparr>"

definition set_lobby ::
  "nat \<Rightarrow> ('ty, 'v) lobby_node option \<Rightarrow> ('d, 'ty, 'v) config_fleet \<Rightarrow> ('d, 'ty, 'v) config_fleet" where
  "set_lobby i n f = f\<lparr>ft_lobbies := (ft_lobbies f)(i := n)\<rparr>"

definition all_lobbies ::
  "(('ty, 'v) lobby_node \<Rightarrow> ('ty, 'v) lobby_node) \<Rightarrow> ('d, 'ty, 'v) config_fleet \<Rightarrow> ('d, 'ty, 'v) config_fleet" where
  "all_lobbies g f =
     f\<lparr>ft_loading := (\<lambda>i. map_option (map_prod g id) (ft_loading f i)),
       ft_lobbies := (\<lambda>i. map_option g (ft_lobbies f i))\<rparr>"

definition set_loading ::
  "nat \<Rightarrow> (('ty, 'v) lobby_node \<times> string list) option \<Rightarrow> ('d, 'ty, 'v) config_fleet
     \<Rightarrow> ('d, 'ty, 'v) config_fleet" where
  "set_loading i x f = f\<lparr>ft_loading := (ft_loading f)(i := x)\<rparr>"

lemmas fleet_updates = set_tool_def set_lobby_def all_lobbies_def set_loading_def

definition new_node :: "('ty, 'v) config_store \<Rightarrow> ('ty, 'v) lobby_node" where
  "new_node cs = \<lparr>ln_store = cs, ln_subscribed = False, ln_inbox = [], ln_untold = {}, ln_failed = {}\<rparr>"

inductive fleet_step ::
  "('d, 'ty, 'v) config_loader \<Rightarrow> ('d \<Rightarrow> config_row set) \<Rightarrow>
   ('d, 'ty, 'v) config_fleet \<Rightarrow> ('d, 'ty, 'v) config_fleet \<Rightarrow> bool" for l rows where
  ft_run: "fleet_step l rows f (f\<lparr>ft_tools := ft_tools f @ [snd (cli_main fl en)]\<rparr>)"
| ft_insert:
    "k < length (ft_tools f) \<Longrightarrow> ft_tools f ! k = Row_inserted vs # effs \<Longrightarrow> row_key vs = Some (name, r) \<Longrightarrow>
     \<forall>d. (name, r, d) \<notin> rows (ft_db f) \<Longrightarrow> rows db = insert (name, r, bytes) (rows (ft_db f)) \<Longrightarrow>
     fleet_step l rows f (all_lobbies (owe name) (set_tool k effs (f\<lparr>ft_db := db\<rparr>)))"
| ft_notify:
    "k < length (ft_tools f) \<Longrightarrow> ft_tools f ! k = Notified ch msg # effs \<Longrightarrow>
     fleet_step l rows f
       ((if ch = configNotifyChannel then all_lobbies (hear msg) else id) (set_tool k effs f))"
| ft_other:
    "k < length (ft_tools f) \<Longrightarrow> ft_tools f ! k = x # effs \<Longrightarrow>
     \<forall>vs. x \<noteq> Row_inserted vs \<Longrightarrow> \<forall>ch msg. x \<noteq> Notified ch msg \<Longrightarrow> fleet_step l rows f (set_tool k effs f)"
| ft_killed: "k < length (ft_tools f) \<Longrightarrow> fleet_step l rows f (set_tool k [] f)"
| ft_other_row:
    "\<forall>d. (name, r, d) \<notin> rows (ft_db f) \<Longrightarrow> rows db = insert (name, r, bytes) (rows (ft_db f)) \<Longrightarrow>
     fleet_step l rows f (all_lobbies (owe name) (f\<lparr>ft_db := db\<rparr>))"
| ft_other_message: "fleet_step l rows f (all_lobbies (hear msg) f)"
| ft_start:
    "ft_loading f i = None \<Longrightarrow> ft_lobbies f i = None \<Longrightarrow>
     fleet_step l rows f (set_loading i (Some (new_node cs, getRegisteredNames cs)) f)"
| ft_load:
    "ft_loading f i = Some (n, name # names) \<Longrightarrow> rows view = rows (ft_db f) \<Longrightarrow>
     load_logged l now (\<lambda>h. view) name (ln_store n) = Some cs \<Longrightarrow>
     fleet_step l rows f (set_loading i (Some ((note_load l view name n)\<lparr>ln_store := cs\<rparr>, names)) f)"
| ft_loaded:
    "ft_loading f i = Some (n, []) \<Longrightarrow>
     fleet_step l rows f (set_lobby i (Some n) (set_loading i None f))"
| ft_subscribe:
    "ft_lobbies f i = Some n \<Longrightarrow> fleet_step l rows f (set_lobby i (Some (n\<lparr>ln_subscribed := True\<rparr>)) f)"
| ft_receive:
    "ft_lobbies f i = Some n \<Longrightarrow> ln_inbox n = p # ps \<Longrightarrow> rows view = rows (ft_db f) \<Longrightarrow>
     notify_message l now (\<lambda>h. view) p (ln_store n) = Some cs \<Longrightarrow>
     fleet_step l rows f
       (set_lobby i (Some ((note_message l view p n)\<lparr>ln_store := cs, ln_inbox := ps\<rparr>)) f)"
| ft_disconnect:
    "ft_lobbies f i = Some n \<Longrightarrow> fleet_step l rows f (set_lobby i (Some (n\<lparr>ln_subscribed := False\<rparr>)) f)"
| ft_stop: "fleet_step l rows f (set_lobby i None (set_loading i None f))"

inductive_cases fleet_stepE: "fleet_step l rows f f'"

definition unique_rows :: "config_row set \<Rightarrow> bool" where
  "unique_rows R \<longleftrightarrow> (\<forall>name r d d'. (name, r, d) \<in> R \<longrightarrow> (name, r, d') \<in> R \<longrightarrow> d = d')"

definition fleet_start :: "('d \<Rightarrow> config_row set) \<Rightarrow> ('d, 'ty, 'v) config_fleet \<Rightarrow> bool" where
  "fleet_start rows f \<longleftrightarrow>
     ft_tools f = [] \<and> ft_loading f = Map.empty \<and> ft_lobbies f = Map.empty \<and> unique_rows (rows (ft_db f))"

section \<open>Up to date\<close>

definition newest :: "config_row set \<Rightarrow> string \<Rightarrow> int \<Rightarrow> string \<Rightarrow> bool" where
  "newest R name r d \<longleftrightarrow> (name, r, d) \<in> R \<and> (\<forall>r' d'. (name, r', d') \<in> R \<longrightarrow> r' \<le> r)"

text \<open>A store that holds the newest row of a configuration, if it can hold it.\<close>

definition current ::
  "('d, 'ty, 'v) config_loader \<Rightarrow> config_row set \<Rightarrow> ('ty, 'v) config_store \<Rightarrow> string \<Rightarrow> bool" where
  "current l R cs name \<longleftrightarrow>
     (\<forall>ts r d vs. getTypedStore cs name = Some ts \<longrightarrow> newest R name r d \<longrightarrow>
        decode_slice (cl_decode l (ts_type ts)) d = Some vs \<longrightarrow>
        (\<exists>t. snap cs name = Some \<lparr>sn_revision = r, sn_data = vs, sn_parsedAt = t\<rparr>))"

lemma newest_unique:
  assumes "unique_rows R" and "newest R name r d" and "newest R name r' d'"
  shows "r' = r \<and> d' = d"
proof -
  have "r' = r" using assms(2,3) unfolding newest_def by (meson order_antisym)
  then show ?thesis using assms unfolding newest_def unique_rows_def by blast
qed

lemma newest_other: "name' \<noteq> name \<Longrightarrow> newest (insert (name, r, d) R) name' r' d' = newest R name' r' d'"
  by (auto simp: newest_def)

lemma current_other:
  "name' \<noteq> name \<Longrightarrow> current l (insert (name, r, d) R) cs name' = current l R cs name'"
  by (simp add: current_def newest_other)

text \<open>A loader whose route leads to a pool, over a database that answers as documented.\<close>

definition table_reader :: "('d, 'ty, 'v) config_loader \<Rightarrow> ('d \<Rightarrow> config_row set) \<Rightarrow> bool" where
  "table_reader l rows \<longleftrightarrow>
     (\<exists>cols. query_contract (cl_query l) cols rows) \<and>
     (\<exists>h pool. resolveDB (cl_router l) (cl_routingKey l) = Inr (Some h, pool))"

lemma newest_queried:
  assumes "table_reader l rows" and "unique_rows (rows db)" and "newest (rows db) name r d"
    and "answered l db name"
  shows "cl_query l (latest_query name) db = Inr (d, r)"
proof -
  obtain cols where c: "query_contract (cl_query l) cols rows"
    using assms(1) unfolding table_reader_def by blast
  obtain r' d' where q: "cl_query l (latest_query name) db = Inr (d', r')"
    using assms(4) by (auto simp: answered_def split: sum.splits)
  then have "newest (rows db) name r' d'" using query_found[OF c q] by (simp add: newest_def)
  then show ?thesis using newest_unique[OF assms(2,3)] q by blast
qed

lemma unanswered_load:
  assumes "\<not> answered l db name" and "load_logged l now (\<lambda>h. db) name cs = Some cs'"
  shows "cs' = cs"
  using assms by (auto simp: answered_def load_logged_def loadOne_def split: sum.splits option.splits prod.splits)

section \<open>What a load brings up to date\<close>

lemma load_logged_other:
  assumes "load_logged l now dbs name cs = Some cs'" and "n \<noteq> name"
  shows "getTypedStore cs' n = getTypedStore cs n \<and> snap cs' n = snap cs n"
proof (cases "loadOne l now dbs name cs")
  case (Load_ok cs1)
  then obtain ts where "cs1 = put_store name ts cs" by (rule loadOne_ok) blast
  then have "cs' = put_store name ts cs" using assms(1) Load_ok by (simp add: load_logged_def)
  then show ?thesis using assms(2) by (simp only: snap_put cfg.get_put fun_upd_apply if_False)
qed (use assms in \<open>simp_all add: load_logged_def\<close>)

lemma load_logged_current:
  assumes "table_reader l rows" and "unique_rows (rows db)" and "answered l db name"
    and "load_logged l now (\<lambda>h. db) name cs = Some cs'"
  shows "current l (rows db) cs' name"
  unfolding current_def
proof (intro allI impI)
  fix ts r d vs
  obtain h pool where db: "resolveDB (cl_router l) (cl_routingKey l) = Inr (Some h, pool)"
    using assms(1) unfolding table_reader_def by blast
  assume a: "getTypedStore cs' name = Some ts" "newest (rows db) name r d"
    "decode_slice (cl_decode l (ts_type ts)) d = Some vs"
  have q: "cl_query l (latest_query name) db = Inr (d, r)" by (rule newest_queried[OF assms(1,2) a(2) assms(3)])
  show "\<exists>t. snap cs' name = Some \<lparr>sn_revision = r, sn_data = vs, sn_parsedAt = t\<rparr>"
  proof (cases "getTypedStore cs name")
    case None
    then have "cs' = cs" using assms(4) by (simp add: load_logged_def loadOne_def db)
    then show ?thesis using None a(1) by simp
  next
    case (Some ts0)
    have one: "load_logged l now (\<lambda>h. db) name cs =
        (case decode_slice (cl_decode l (ts_type ts0)) d of
           None \<Rightarrow> Some cs | Some rs \<Rightarrow> Some (put_store name (store_update now r rs ts0) cs))"
      by (simp add: load_logged_def loadOne_def db Some q parseAndUpdate_def split: option.split)
    then have "ts_type ts = ts_type ts0"
      using assms(4) a(1) Some by (auto simp: cfg.get_put store_update_def split: option.splits)
    then show ?thesis using one assms(4) a(3) by (auto simp: snap_put store_update_def)
  qed
qed

lemma load_logged_keeps:
  assumes "table_reader l rows" and "unique_rows (rows db)"
    and "load_logged l now (\<lambda>h. db) name cs = Some cs'"
    and "n = name \<and> answered l db name \<or> current l (rows db) cs n"
  shows "current l (rows db) cs' n"
proof (cases "n = name")
  case True
  then show ?thesis
    using load_logged_current[OF assms(1,2) _ assms(3)] unanswered_load[OF _ assms(3)] assms(4) by metis
next
  case False
  then show ?thesis using load_logged_other[OF assms(3) False] assms(4) by (simp add: current_def)
qed

lemma notify_message_current:
  assumes "table_reader l rows" and "unique_rows (rows db)"
    and "notify_message l now (\<lambda>h. db) p cs = Some cs'"
    and "n \<in> named p \<and> n \<noteq> [] \<and> answered l db n \<or> current l (rows db) cs n"
  shows "current l (rows db) cs' n"
proof (cases "\<exists>name r. decode_notify p = Some (name, r) \<and> name \<noteq> []")
  case True
  then obtain name r where p: "decode_notify p = Some (name, r)" "name \<noteq> []" by blast
  then have "load_logged l now (\<lambda>h. db) name cs = Some cs'" using assms(3) by (simp add: notify_message_def)
  from load_logged_keeps[OF assms(1,2) this, of n] assms(4) p(1) show ?thesis by (auto simp: named_def)
next
  case False
  then have "cs' = cs" using assms(3) by (auto simp: notify_message_def split: option.splits if_splits)
  then show ?thesis using False assms(4) by (auto simp: named_def)
qed

lemma watch_loop_current:
  assumes "table_reader l rows" and "unique_rows (rows db)"
    and "config_watch_loop l (map (Cw_message now (\<lambda>h. db)) ps) cs = Some cs'"
    and "(\<exists>p \<in> set ps. n \<in> named p) \<and> n \<noteq> [] \<and> answered l db n \<or> current l (rows db) cs n"
  shows "current l (rows db) cs' n"
  using assms(3,4)
proof (induction ps arbitrary: cs)
  case (Cons p ps)
  obtain cs1 where cs1: "notify_message l now (\<lambda>h. db) p cs = Some cs1"
    "config_watch_loop l (map (Cw_message now (\<lambda>h. db)) ps) cs1 = Some cs'"
    using Cons.prems(1) by (auto simp: bind_eq_Some_conv)
  have "(\<exists>p \<in> set ps. n \<in> named p) \<and> n \<noteq> [] \<and> answered l db n \<or> current l (rows db) cs1 n"
    using notify_message_current[OF assms(1,2) cs1(1), of n] Cons.prems(2) by auto
  then show ?case by (rule Cons.IH[OF cs1(2)])
qed simp

section \<open>The invariant\<close>

text \<open>
  What a lobby has been told, it has or is about to load: its store is up to date except for
  the configurations it has yet to load (\<open>names\<close>, while it starts), those that a message in
  its inbox names, those it was never told about, and those whose last query failed.
\<close>

definition told ::
  "('d, 'ty, 'v) config_loader \<Rightarrow> config_row set \<Rightarrow> string list \<Rightarrow> ('ty, 'v) lobby_node \<Rightarrow> bool" where
  "told l R names n \<longleftrightarrow>
     (\<forall>name. name \<noteq> [] \<longrightarrow>
        name \<in> set names \<or> name \<in> ln_untold n \<or> name \<in> ln_failed n \<or>
        (\<exists>p \<in> set (ln_inbox n). name \<in> named p) \<or> current l R (ln_store n) name)"

definition fleet_inv ::
  "('d, 'ty, 'v) config_loader \<Rightarrow> ('d \<Rightarrow> config_row set) \<Rightarrow> ('d, 'ty, 'v) config_fleet \<Rightarrow> bool" where
  "fleet_inv l rows f \<longleftrightarrow>
     unique_rows (rows (ft_db f)) \<and>
     (\<forall>i n names. ft_loading f i = Some (n, names) \<longrightarrow> told l (rows (ft_db f)) names n) \<and>
     (\<forall>i n. ft_lobbies f i = Some n \<longrightarrow> told l (rows (ft_db f)) [] n)"

lemma told_hear: "told l R names n \<Longrightarrow> told l R names (hear msg n)"
  by (auto simp: told_def hear_def)

lemma told_insert: "told l R names n \<Longrightarrow> told l (insert (name, r, d) R) names (owe name n)"
  by (auto simp: told_def owe_def current_other)

lemma told_flags: "told l R names (n\<lparr>ln_subscribed := b\<rparr>) = told l R names n"
  by (simp add: told_def)

lemma told_start: "told l R (getRegisteredNames cs) (new_node cs)"
proof -
  have "name \<in> set (getRegisteredNames cs) \<or> current l R cs name" for name
    by (cases "getTypedStore cs name")
       (auto simp: current_def getRegisteredNames_def getTypedStore_def map_of_eq_None_iff
         dest: map_of_SomeD intro: rev_image_eqI)
  then show ?thesis by (auto simp: told_def new_node_def)
qed

lemma note_load_simps [simp]:
  "ln_inbox (note_load l db name n) = ln_inbox n"
  "ln_untold (note_load l db name n) = (if answered l db name then ln_untold n - {name} else ln_untold n)"
  "ln_failed (note_load l db name n) =
     (if answered l db name then ln_failed n - {name} else insert name (ln_failed n))"
  by (simp_all add: note_load_def)

lemma told_load:
  assumes "table_reader l rows" and "unique_rows (rows db)"
    and "load_logged l now (\<lambda>h. db) name (ln_store n) = Some cs"
    and "told l (rows db) (name # names) n"
  shows "told l (rows db) names ((note_load l db name n)\<lparr>ln_store := cs\<rparr>)"
  unfolding told_def
proof (intro allI impI)
  fix x :: string
  assume "x \<noteq> []"
  then have x: "x \<in> set (name # names) \<or> x \<in> ln_untold n \<or> x \<in> ln_failed n \<or>
      (\<exists>p \<in> set (ln_inbox n). x \<in> named p) \<or> current l (rows db) (ln_store n) x"
    using assms(4) unfolding told_def by blast
  have "x = name \<and> answered l db name \<or> current l (rows db) (ln_store n) x \<Longrightarrow> current l (rows db) cs x"
    by (rule load_logged_keeps[OF assms(1-3)])
  then show "x \<in> set names \<or> x \<in> ln_untold ((note_load l db name n)\<lparr>ln_store := cs\<rparr>) \<or>
      x \<in> ln_failed ((note_load l db name n)\<lparr>ln_store := cs\<rparr>) \<or>
      (\<exists>p \<in> set (ln_inbox ((note_load l db name n)\<lparr>ln_store := cs\<rparr>)). x \<in> named p) \<or>
      current l (rows db) (ln_store ((note_load l db name n)\<lparr>ln_store := cs\<rparr>)) x"
    using x by (cases "x = name") auto
qed

lemma told_more: "told l R [] n \<Longrightarrow> told l R names n"
  by (auto simp: told_def)

lemma told_receive:
  assumes "table_reader l rows" and "unique_rows (rows db)"
    and "notify_message l now (\<lambda>h. db) p (ln_store n) = Some cs"
    and "told l (rows db) [] n" and "ln_inbox n = p # ps"
  shows "told l (rows db) [] ((note_message l db p n)\<lparr>ln_store := cs, ln_inbox := ps\<rparr>)"
proof (cases "\<exists>name r. decode_notify p = Some (name, r) \<and> name \<noteq> []")
  case True
  then obtain name r where p: "decode_notify p = Some (name, r)" "name \<noteq> []" by blast
  then have load: "load_logged l now (\<lambda>h. db) name (ln_store (n\<lparr>ln_inbox := ps\<rparr>)) = Some cs"
    using assms(3) by (simp add: notify_message_def)
  have "told l (rows db) [name] (n\<lparr>ln_inbox := ps\<rparr>)"
    using assms(4) p(1) by (auto simp: told_def assms(5) named_def)
  from told_load[OF assms(1,2) load this] show ?thesis
    by (cases "answered l db name") (simp_all add: told_def note_message_def p note_load_def)
next
  case False
  then have "cs = ln_store n" using assms(3) by (auto simp: notify_message_def split: option.splits if_splits)
  moreover have "name \<notin> named p" if "name \<noteq> []" for name using that False by (auto simp: named_def)
  moreover have "note_message l db p n = n" using False by (auto simp: note_message_def split: option.split)
  ultimately show ?thesis using assms(4) by (auto simp: told_def assms(5))
qed

lemma fleet_inv_set_lobby:
  "fleet_inv l rows f \<Longrightarrow> (\<And>n. x = Some n \<Longrightarrow> told l (rows (ft_db f)) [] n) \<Longrightarrow> fleet_inv l rows (set_lobby i x f)"
  by (auto simp: fleet_inv_def set_lobby_def)

lemma fleet_inv_set_loading:
  "fleet_inv l rows f \<Longrightarrow> (\<And>n names. x = Some (n, names) \<Longrightarrow> told l (rows (ft_db f)) names n) \<Longrightarrow>
   fleet_inv l rows (set_loading i x f)"
  by (auto simp: fleet_inv_def set_loading_def)

lemma fleet_inv_set_tool [simp]: "fleet_inv l rows (set_tool k effs f) = fleet_inv l rows f"
  by (simp add: fleet_inv_def set_tool_def)

lemma fleet_inv_hear: "fleet_inv l rows f \<Longrightarrow> fleet_inv l rows (all_lobbies (hear msg) f)"
  by (auto simp: fleet_inv_def all_lobbies_def told_hear)

lemma unique_rows_insert:
  "unique_rows R \<Longrightarrow> \<forall>d. (name, r, d) \<notin> R \<Longrightarrow> unique_rows (insert (name, r, bytes) R)"
  by (auto simp: unique_rows_def)

lemma fleet_inv_insert:
  assumes "fleet_inv l rows f" and "\<forall>d. (name, r, d) \<notin> rows (ft_db f)"
    and "rows db = insert (name, r, bytes) (rows (ft_db f))"
  shows "fleet_inv l rows (all_lobbies (owe name) (f\<lparr>ft_db := db\<rparr>))"
  using assms by (auto simp: fleet_inv_def all_lobbies_def told_insert unique_rows_insert)

lemma fleet_inv_step:
  assumes "table_reader l rows"
    and "fleet_inv l rows f" and "fleet_step l rows f f'"
  shows "fleet_inv l rows f'"
  using assms(3)
proof (cases rule: fleet_step.cases)
  case (ft_insert k vs effs name r db bytes)
  have "fleet_inv l rows (all_lobbies (owe name) (f\<lparr>ft_db := db\<rparr>))"
    by (rule fleet_inv_insert[OF assms(2) ft_insert(5,6)])
  then show ?thesis by (simp add: ft_insert(1) fleet_inv_def fleet_updates)
next
  case (ft_load i n name names view now cs)
  have "told l (rows view) names ((note_load l view name n)\<lparr>ln_store := cs\<rparr>)"
    by (rule told_load[OF assms(1) _ ft_load(4)]) (use assms(2) ft_load(2,3) in \<open>auto simp: fleet_inv_def\<close>)
  then show ?thesis unfolding ft_load(1) using assms(2)
    by (intro fleet_inv_set_loading) (simp_all add: ft_load(3))
next
  case (ft_loaded i n)
  then have "told l (rows (ft_db f)) [] n" using assms(2) by (auto simp: fleet_inv_def)
  then show ?thesis unfolding ft_loaded(1) using assms(2)
    by (intro fleet_inv_set_lobby fleet_inv_set_loading) (simp_all add: set_loading_def)
next
  case (ft_receive i n p ps view now cs)
  have "told l (rows view) [] ((note_message l view p n)\<lparr>ln_store := cs, ln_inbox := ps\<rparr>)"
    by (rule told_receive[OF assms(1) _ ft_receive(5) _ ft_receive(3)])
       (use assms(2) ft_receive(2,4) in \<open>auto simp: fleet_inv_def\<close>)
  then show ?thesis unfolding ft_receive(1) using assms(2)
    by (intro fleet_inv_set_lobby) (simp_all add: ft_receive(4))
next
  case (ft_start i cs)
  then show ?thesis using assms(2) by (auto intro!: fleet_inv_set_loading told_start)
next
  case ft_run
  then show ?thesis using assms(2) by (simp add: fleet_inv_def)
next
  case (ft_subscribe i n)
  then show ?thesis using assms(2) by (auto simp: fleet_inv_def set_lobby_def told_flags)
next
  case (ft_disconnect i n)
  then show ?thesis using assms(2) by (auto simp: fleet_inv_def set_lobby_def told_flags)
next
  case (ft_stop i)
  then show ?thesis using assms(2) by (auto intro!: fleet_inv_set_lobby fleet_inv_set_loading)
qed (use assms(2) in \<open>auto intro!: fleet_inv_hear fleet_inv_insert\<close>)

interpretation fleet: safe_system "fleet_start rows" "fleet_step l rows"
    "\<lambda>f. table_reader l rows \<longrightarrow> fleet_inv l rows f" for l rows
  by unfold_locales (simp add: fleet_start_def fleet_inv_def, blast intro: fleet_inv_step)

section \<open>Properties\<close>

text \<open>A run of the tool that announces, from its start to the announcement, with nothing in between.\<close>

lemma run_publishes:
  fixes f :: "('d, 'ty, 'v) config_fleet"
  assumes "Row_inserted vs \<in> set (snd (cli_main fl en))" and "Notified ch msg \<in> set (snd (cli_main fl en))"
    and "row_key vs = Some (name, r)"
    and "\<forall>d. (name, r, d) \<notin> rows (ft_db f)"
    and "rows db = insert (name, r, bytes) (rows (ft_db f))"
  obtains f' pre go where "(fleet_step l rows)\<^sup>*\<^sup>* f f'" "ft_db f' = db"
    "snd (cli_main fl en) = pre @ Row_inserted vs # Notified ch msg # go" "ft_tools f' = ft_tools f @ [go]"
    "ft_lobbies f' = (\<lambda>i. map_option (\<lambda>n. hear msg (owe name n)) (ft_lobbies f i))"
proof -
  obtain x p opts go where run: "snd (cli_main fl en) = x # Row_inserted (insert_values p opts) # Notified ch msg # go"
    "ch = configNotifyChannel" "\<forall>vs. x \<noteq> Row_inserted vs" "\<forall>ch msg. x \<noteq> Notified ch msg"
    using announcing_run[OF assms(2)] unfolding configNotifyChannel_def by metis
  have vs: "vs = insert_values p opts" by (rule announced_row[OF assms(1,2) run(1)])
  let ?k = "length (ft_tools f)"
  define f1 where "f1 = f\<lparr>ft_tools := ft_tools f @ [snd (cli_main fl en)]\<rparr>"
  define f2 where "f2 = set_tool ?k (Row_inserted vs # Notified ch msg # go) f1"
  define f3 where "f3 = all_lobbies (owe name) (set_tool ?k (Notified ch msg # go) (f2\<lparr>ft_db := db\<rparr>))"
  define f4 where "f4 = all_lobbies (hear msg) (set_tool ?k go f3)"
  note defs = f1_def f2_def f3_def f4_def fleet_updates
  have "fleet_step l rows f f1" unfolding f1_def by (rule ft_run)
  moreover have "fleet_step l rows f1 f2"
    unfolding f2_def by (rule ft_other[of _ _ x]) (simp_all add: f1_def run(1,3,4) vs)
  moreover have "fleet_step l rows f2 f3"
    unfolding f3_def
  proof (rule ft_insert[OF _ _ assms(3)])
    show "\<forall>d. (name, r, d) \<notin> rows (ft_db f2)" using assms(4) by (simp add: defs)
    show "rows db = insert (name, r, bytes) (rows (ft_db f2))" using assms(5) by (simp add: defs)
  qed (simp_all add: defs)
  moreover have "fleet_step l rows f3 f4"
    using ft_notify[of ?k f3 ch msg go l rows] by (simp add: f4_def run(2)) (simp add: defs run(2))
  ultimately have "(fleet_step l rows)\<^sup>*\<^sup>* f f4" by (meson converse_rtranclp_into_rtranclp rtranclp.rtrancl_refl)
  then show ?thesis
    by (rule that[of _ "[x]" go]) (simp_all add: run(1) vs, simp_all add: defs option.map_comp comp_def)
qed


text \<open>
  C14. The gap at the start: a lobby loads first and subscribes later, in another goroutine.
  When a whole run of the tool, insert and announcement, falls between the two, nobody sends
  the lobby the message: it ends up subscribed, with nothing left to handle, and goes on
  serving what it had, although the table has a newer row, until the next announcement.
\<close>

theorem startup_gap_leaves_stale:
  assumes "ft_lobbies f i = Some n" and "\<not> ln_subscribed n" and "ln_inbox n = []"
    and "backed (rows (ft_db f)) (ln_store n)"
    and "Row_inserted vs \<in> set (snd (cli_main fl en))" and "Notified ch msg \<in> set (snd (cli_main fl en))"
    and "row_key vs = Some (name, r)"
    and "\<forall>r' d. (name, r', d) \<in> rows (ft_db f) \<longrightarrow> r' < r"
    and "rows db = insert (name, r, bytes) (rows (ft_db f))"
  shows "\<exists>f' n' pre go. (fleet_step l rows)\<^sup>*\<^sup>* f f' \<and>
    snd (cli_main fl en) = pre @ Row_inserted vs # Notified ch msg # go \<and> ft_tools f' = ft_tools f @ [go] \<and>
    newest (rows (ft_db f')) name r bytes \<and>
    ft_lobbies f' i = Some n' \<and> ln_subscribed n' \<and> ln_inbox n' = [] \<and>
    (\<forall>sn. snap (ln_store n') name = Some sn \<longrightarrow> sn_revision sn < r)"
proof -
  let ?told = "\<lambda>n. hear msg (owe name n)"
  obtain f1 pre go where f1: "(fleet_step l rows)\<^sup>*\<^sup>* f f1" "ft_db f1 = db"
    "snd (cli_main fl en) = pre @ Row_inserted vs # Notified ch msg # go" "ft_tools f1 = ft_tools f @ [go]"
    "ft_lobbies f1 = (\<lambda>i. map_option ?told (ft_lobbies f i))"
    by (rule run_publishes[where l = l and rows = rows and f = f, OF assms(5-7) _ assms(9)]) (use assms(8) in blast)
  define n' where "n' = (owe name n)\<lparr>ln_subscribed := True\<rparr>"
  have "ft_lobbies f1 i = Some (owe name n)" using assms(1,2) by (simp add: f1(5) hear_def owe_def)
  then have "fleet_step l rows f1 (set_lobby i (Some n') f1)" unfolding n'_def by (rule ft_subscribe)
  with f1(1) have "(fleet_step l rows)\<^sup>*\<^sup>* f (set_lobby i (Some n') f1)" by (rule rtranclp.rtrancl_into_rtrancl)
  moreover have "newest (rows db) name r bytes"
    using assms(8,9) by (auto simp: newest_def intro: less_imp_le)
  moreover have "\<forall>sn. snap (ln_store n) name = Some sn \<longrightarrow> sn_revision sn < r"
    using assms(4,8) unfolding backed_def by blast
  ultimately show ?thesis
    using assms(3) f1(3,4) by (intro exI[of _ "set_lobby i (Some n') f1"] exI[of _ n'] exI[of _ pre] exI[of _ go])
      (simp add: f1(2) n'_def set_lobby_def owe_def)
qed

text \<open>A table as a list of rows, newest first for the query.\<close>

definition table_query ::
  "string list \<Rightarrow> sql_select \<Rightarrow> config_row list \<Rightarrow> (string, string \<times> int) result" where
  "table_query cols q db =
     (if \<not> set (sq_columns q) \<subseteq> set cols then Inl ''Unknown column''
      else case sort_key (\<lambda>(name, r, d). - r) (filter (\<lambda>(name, r, d). name = sq_where_value q) db) of
             [] \<Rightarrow> Inl ''sql: no rows in result set''
           | (name, r, d) # xs \<Rightarrow> Inr (d, r))"

lemma table_query_contract: "query_contract (table_query cols) cols set"
  unfolding query_contract_def
proof (intro allI impI)
  fix name d r and db :: "config_row list"
  let ?q = "latest_query name"
  let ?xs = "sort_key (\<lambda>(name, r, d). - r) (filter (\<lambda>(n, r, d). n = name) db)"
  assume q: "table_query cols ?q db = Inr (d, r)"
  have mem: "set ?xs = {(n, r, d) \<in> set db. n = name}" by auto
  have cols: "set (sq_columns ?q) \<subseteq> set cols" using q by (auto simp: table_query_def split: if_splits)
  obtain n xs where Cons: "?xs = (n, r, d) # xs"
    using q by (auto simp: table_query_def latest_query_def split: if_splits list.splits)
  have "(n, r, d) \<in> set ?xs" using Cons by simp
  then have row: "(name, r, d) \<in> set db \<and> n = name" unfolding mem by auto
  have "sorted (map (\<lambda>(name, r, d). - r) ?xs)" by (rule sorted_sort_key)
  then have "\<forall>y \<in> set xs. - r \<le> (\<lambda>(name, r, d). - r) y" unfolding Cons by simp
  moreover have "(name, r', d') \<in> insert (n, r, d) (set xs)" if "(name, r', d') \<in> set db" for r' d'
    using mem Cons that by (metis (mono_tags, lifting) case_prodI list.simps(15) mem_Collect_eq)
  ultimately have "\<forall>r' d'. (name, r', d') \<in> set db \<longrightarrow> r' \<le> r" by fastforce
  then show "set (sq_columns ?q) \<subseteq> set cols \<and> (name, r, d) \<in> set db \<and>
      (\<forall>r' d'. (name, r', d') \<in> set db \<longrightarrow> r' \<le> r)"
    using cols row by blast
qed

definition fleet_loader :: "(config_row list, nat, string) config_loader" where
  "fleet_loader =
     \<lparr>cl_router = cl_router (demo_loader []), cl_routingKey = ''lobby:config-data'',
      cl_query = table_query [''data'', ''revision''], cl_decode = (\<lambda>ty. demo_decode)\<rparr>"

lemma fleet_loader_reads: "table_reader fleet_loader set"
proof -
  have "query_contract (cl_query fleet_loader) [''data'', ''revision''] set"
    by (simp add: fleet_loader_def table_query_contract)
  moreover have "resolveDB (cl_router fleet_loader) (cl_routingKey fleet_loader) = Inr (Some 0, ''default'')"
    using demo_loader_db[of "[]"] by (simp add: fleet_loader_def demo_loader_def)
  ultimately show ?thesis unfolding table_reader_def by blast
qed

text \<open>A table with one row, and a lobby that has loaded it.\<close>

definition fleet_begin :: "(config_row list, nat, string) config_fleet" where
  "fleet_begin = \<lparr>ft_db = [(''Reward'', 2, ''[1,2]'')], ft_tools = [], ft_loading = Map.empty, ft_lobbies = Map.empty\<rparr>"

lemma fleet_begin_start: "fleet_start set fleet_begin"
  by (simp add: fleet_start_def fleet_begin_def unique_rows_def)

lemma fleet_begin_reachable: "reachable (fleet_start set) (fleet_step fleet_loader set) fleet_begin"
  by (rule reachable_start) (rule fleet_begin_start)

lemma fleet_one_lobby:
  obtains cs f where "loadAll fleet_loader 5 (\<lambda>h. ft_db fleet_begin) demo_store = Some cs"
    "f = set_lobby 0 (Some (new_node cs)) fleet_begin"
    "reachable (fleet_start set) (fleet_step fleet_loader set) f" "getTypedStore cs ''Reward'' \<noteq> None"
    "backed (set (ft_db f)) cs"
proof -
  have q: "table_query [''data'', ''revision''] (latest_query ''Reward'') [(''Reward'', 2, ''[1,2]'')] = Inr (''[1,2]'', 2)"
    by (simp add: table_query_def latest_query_def)
  have r: "resolveDB (cl_router fleet_loader) (cl_routingKey fleet_loader) = Inr (Some 0, ''default'')"
    using demo_loader_db[of "[]"] by (simp add: fleet_loader_def demo_loader_def)
  define ts where "ts = store_update 5 2 [''1'', ''2''] (newTypedStore 0 :: (nat, string) typed_store)"
  define cs where "cs = put_store ''Reward'' ts demo_store"
  have g: "getTypedStore demo_store ''Reward'' = Some (newTypedStore 0)"
    by (simp add: getTypedStore_def demo_store_def)
  have "parseAndUpdate fleet_loader 5 ''Reward'' ''[1,2]'' 2 (newTypedStore 0) demo_store = Load_ok cs"
    by (simp add: parseAndUpdate_def fleet_loader_def demo_decode_slice cs_def ts_def)
  then have "loadOne fleet_loader 5 (\<lambda>h. ft_db fleet_begin) ''Reward'' demo_store = Load_ok cs"
    by (simp add: loadOne_def r g fleet_begin_def) (simp add: fleet_loader_def q)
  then have load: "load_logged fleet_loader 5 (\<lambda>h. ft_db fleet_begin) ''Reward'' demo_store = Some cs"
    by (simp add: load_logged_def)
  have names: "getRegisteredNames demo_store = [''Reward'']"
    by (simp add: getRegisteredNames_def demo_store_def)
  have cs: "loadAll fleet_loader 5 (\<lambda>h. ft_db fleet_begin) demo_store = Some cs"
    "getTypedStore cs ''Reward'' \<noteq> None"
    using load by (simp_all add: loadAll_def names cs_def cfg.get_put)
  let ?f = "set_lobby 0 (Some (new_node cs)) fleet_begin"
  define f1 where "f1 = set_loading 0 (Some (new_node demo_store, [''Reward''])) fleet_begin"
  define f2 where "f2 = set_loading 0 (Some (new_node cs, [])) f1"
  have "fleet_step fleet_loader set fleet_begin f1"
    unfolding f1_def names[symmetric] by (rule ft_start) (simp_all add: fleet_begin_def)
  with fleet_begin_reachable have r1: "reachable (fleet_start set) (fleet_step fleet_loader set) f1"
    by (rule reachable_step)
  have "answered fleet_loader (ft_db fleet_begin) ''Reward''"
    by (simp add: answered_def fleet_begin_def) (simp add: fleet_loader_def q)
  then have node: "(note_load fleet_loader (ft_db fleet_begin) ''Reward'' (new_node demo_store))\<lparr>ln_store := cs\<rparr> = new_node cs"
    by (simp add: note_load_def new_node_def)
  have "fleet_step fleet_loader set f1 f2"
    unfolding f2_def node[symmetric]
    by (rule ft_load[where now = 5]) (simp_all add: f1_def set_loading_def new_node_def load)
  with r1 have r2: "reachable (fleet_start set) (fleet_step fleet_loader set) f2" by (rule reachable_step)
  have "fleet_step fleet_loader set f2 (set_lobby 0 (Some (new_node cs)) (set_loading 0 None f2))"
    by (rule ft_loaded) (simp add: f2_def set_loading_def)
  with r2 have "reachable (fleet_start set) (fleet_step fleet_loader set)
      (set_lobby 0 (Some (new_node cs)) (set_loading 0 None f2))" by (rule reachable_step)
  moreover have "set_lobby 0 (Some (new_node cs)) (set_loading 0 None f2) = ?f"
    by (simp add: f2_def f1_def set_loading_def set_lobby_def fleet_begin_def fun_eq_iff)
  ultimately have "reachable (fleet_start set) (fleet_step fleet_loader set) ?f" by simp
  moreover have "backed (set (ft_db ?f)) cs"
  proof -
    have "backed (set (ft_db fleet_begin)) demo_store"
      by (simp add: backed_def snap_def demo_store_def getTypedStore_def newTypedStore_def store_get_def)
    moreover have "query_contract (cl_query fleet_loader) [''data'', ''revision''] set"
      by (simp add: fleet_loader_def table_query_contract)
    ultimately have "\<exists>cs'. loadAll fleet_loader 5 (\<lambda>h. ft_db fleet_begin) demo_store = Some cs' \<and>
        backed (set (ft_db fleet_begin)) cs'"
      using load_names_backed[OF _ r, where dbs = "\<lambda>h. ft_db fleet_begin"] unfolding loadAll_def by blast
    then show ?thesis using cs(1) by (simp add: set_lobby_def)
  qed
  ultimately show ?thesis by (rule that[OF cs(1) refl _ cs(2)])
qed

text \<open>A run of the tool that stores and announces revision 5, when the table takes its row.\<close>

lemma fleet_publication:
  obtains vs where "Row_inserted vs \<in> set (snd (cli_main demo_flags demo_env))" "row_key vs = Some (''Reward'', 5)"
    "Notified configNotifyChannel (publish_message ''Reward'' 5) \<in> set (snd (cli_main demo_flags demo_env))"
proof (rule demo_sheet_facts)
  fix sh
  assume sh: "parse_sheet demo_text ''Reward--daily.csv'' = Parsed sh" "validate_sheet sh = None" "sh_configName sh = ''Reward''"
  show ?thesis
    by (rule that[of "insert_values (generate_payload sh 5)
          \<lparr>wo_scope = ''reward'', wo_title = ''Daily'', wo_tags = [], wo_csvText = demo_text\<rparr>"])
       (simp_all add: sh cli_main_def demo_flags_def demo_env_def cli_output_def cli_write_db_def cli_write_go_def
        generate_payload_def configNotifyChannel_def Let_def insert_values_def row_key_def)
qed

lemma decode_publication: "decode_notify (publish_message ''Reward'' 5) = Some (''Reward'', 5)"
  by (simp add: decode_published)

text \<open>The lobby subscribes, then the tool publishes revision 5; the message waits in the inbox.\<close>

lemma fleet_told_lobby:
  obtains f n cs where "reachable (fleet_start set) (fleet_step fleet_loader set) f" "ft_lobbies f 0 = Some n"
    "ln_inbox n = [publish_message ''Reward'' 5]" "ln_untold n = {}" "ft_db f = (''Reward'', 5, ''[1,2]'') # ft_db fleet_begin"
    "config_watch_loop fleet_loader (map (Cw_message now (\<lambda>h. ft_db f)) (ln_inbox n)) (ln_store n) = Some cs"
    "getTypedStore cs ''Reward'' \<noteq> None"
proof -
  let ?reach = "reachable (fleet_start set) (fleet_step fleet_loader set)"
  obtain cs0 f0 where f0: "loadAll fleet_loader 5 (\<lambda>h. ft_db fleet_begin) demo_store = Some cs0"
    "f0 = set_lobby 0 (Some (new_node cs0)) fleet_begin"
    "?reach f0" "getTypedStore cs0 ''Reward'' \<noteq> None" "backed (set (ft_db f0)) cs0"
    by (rule fleet_one_lobby) blast
  let ?n = "(new_node cs0)\<lparr>ln_subscribed := True\<rparr>"
  define f1 where "f1 = set_lobby 0 (Some ?n) f0"
  have "fleet_step fleet_loader set f0 f1"
    unfolding f1_def using ft_subscribe[of f0 0 "new_node cs0"] by (simp add: f0(2) set_lobby_def)
  with f0(3) have r1: "?reach f1" by (rule reachable_step)
  have f1: "ft_lobbies f1 0 = Some ?n" "ft_db f1 = ft_db fleet_begin" by (simp_all add: f1_def f0(2) set_lobby_def)
  let ?db = "(''Reward'', 5, ''[1,2]'') # ft_db fleet_begin"
  have new: "\<forall>d. (''Reward'', 5, d) \<notin> set (ft_db f1)" "set ?db = insert (''Reward'', 5, ''[1,2]'') (set (ft_db f1))"
    by (simp_all add: f1(2) fleet_begin_def)
  obtain vs where run: "Row_inserted vs \<in> set (snd (cli_main demo_flags demo_env))" "row_key vs = Some (''Reward'', 5)"
    "Notified configNotifyChannel (publish_message ''Reward'' 5) \<in> set (snd (cli_main demo_flags demo_env))"
    by (rule fleet_publication)
  obtain f where f: "(fleet_step fleet_loader set)\<^sup>*\<^sup>* f1 f" "ft_db f = ?db"
    "ft_lobbies f = (\<lambda>i. map_option (\<lambda>n. hear (publish_message ''Reward'' 5) (owe ''Reward'' n)) (ft_lobbies f1 i))"
    by (rule run_publishes[OF run(1,3,2) new])
  have r: "?reach f" using f(1) r1 by (induction rule: rtranclp_induct) (auto intro: reachable_step)
  define n where "n = hear (publish_message ''Reward'' 5) (owe ''Reward'' ?n)"
  have n: "ft_lobbies f 0 = Some n" "ln_store n = cs0" "ln_inbox n = [publish_message ''Reward'' 5]" "ln_untold n = {}"
    by (simp_all add: n_def f(3) f1(1)) (auto simp: hear_def owe_def named_def decode_publication new_node_def)
  have pool: "resolveDB (cl_router fleet_loader) (cl_routingKey fleet_loader) = Inr (Some 0, ''default'')"
    using demo_loader_db[of "[]"] by (simp add: fleet_loader_def demo_loader_def)
  obtain cs where cs: "config_watch_loop fleet_loader (map (Cw_message now (\<lambda>h. ft_db f)) (ln_inbox n)) cs0 = Some cs"
    using watch_loop_total[OF pool] by blast
  have "query_contract (cl_query fleet_loader) [''data'', ''revision''] set" by (simp add: fleet_loader_def table_query_contract)
  then have "not_behind cs0 cs"
    by (rule watch_loop_not_behind[OF _ pool _ f0(5) cs]) (auto simp: n(3) f(2) f0(2) set_lobby_def)
  moreover have "snap cs0 ''Reward'' \<noteq> None"
  proof -
    have "ft_lobbies f0 0 = Some (new_node cs0)" by (simp add: f0(2) set_lobby_def)
    then have "told fleet_loader (set (ft_db f0)) [] (new_node cs0)"
      using fleet.reachable_inv[OF f0(3)] fleet_loader_reads unfolding fleet_inv_def by blast
    then have "current fleet_loader (set (ft_db fleet_begin)) cs0 ''Reward''"
      by (auto simp: told_def new_node_def f0(2) set_lobby_def)
    moreover have "newest (set (ft_db fleet_begin)) ''Reward'' 2 ''[1,2]''" by (simp add: newest_def fleet_begin_def)
    moreover have "decode_slice (cl_decode fleet_loader ty) ''[1,2]'' = Some [''1'', ''2'']" for ty
      by (simp add: fleet_loader_def demo_decode_slice)
    ultimately show ?thesis using f0(4) unfolding current_def by fastforce
  qed
  ultimately have "snap cs ''Reward'' \<noteq> None" unfolding not_behind_def by blast
  then have "getTypedStore cs ''Reward'' \<noteq> None" by (cases "getTypedStore cs ''Reward''") (simp_all add: snap_def)
  then show ?thesis using that[OF r n(1,3,4) f(2)] cs by (simp add: n(2))
qed


lemma startup_gap_leaves_stale_witness:
  "\<exists>f f' n'. reachable (fleet_start set) (fleet_step fleet_loader set) f \<and>
     (fleet_step fleet_loader set)\<^sup>*\<^sup>* f f' \<and> newest (set (ft_db f')) ''Reward'' 5 ''[1,2,3]'' \<and>
     ft_lobbies f' 0 = Some n' \<and> ln_subscribed n' \<and> ln_inbox n' = [] \<and>
     (\<forall>sn. snap (ln_store n') ''Reward'' = Some sn \<longrightarrow> sn_revision sn < 5)"
proof -
  obtain cs f where f: "f = set_lobby 0 (Some (new_node cs)) fleet_begin"
    "reachable (fleet_start set) (fleet_step fleet_loader set) f" "backed (set (ft_db f)) cs"
    by (rule fleet_one_lobby) blast
  let ?n = "new_node cs :: (nat, string) lobby_node"
  have n: "ft_lobbies f 0 = Some ?n" "\<not> ln_subscribed ?n" "ln_inbox ?n = []" "backed (set (ft_db f)) (ln_store ?n)"
    using f(3) by (simp_all add: f(1) set_lobby_def new_node_def)
  obtain vs where run: "Row_inserted vs \<in> set (snd (cli_main demo_flags demo_env))" "row_key vs = Some (''Reward'', 5)"
    "Notified configNotifyChannel (publish_message ''Reward'' 5) \<in> set (snd (cli_main demo_flags demo_env))"
    by (rule fleet_publication)
  have older: "\<forall>r' d. (''Reward'', r', d) \<in> set (ft_db f) \<longrightarrow> r' < 5"
    by (simp add: f(1) set_lobby_def fleet_begin_def)
  have db: "set ((''Reward'', 5, ''[1,2,3]'') # ft_db f) = insert (''Reward'', 5, ''[1,2,3]'') (set (ft_db f))" by simp
  show ?thesis
    using startup_gap_leaves_stale[where rows = set and l = fleet_loader, OF n run(1,3,2) older db] f(2) by blast
qed

end
