(* ===== verification/Logzap.thy ===== *)
theory Logzap
  imports User_Service
begin

text \<open>
  \<open>pkg/logzap/slogzap.go\<close>: the handler that turns \<open>slog\<close> records into entries of a \<open>zap\<close>
  logger, with the two scales of levels it translates between. \<open>zap\<close>'s cores are modelled by
  what reaches them: an entry goes to the standard output, and to the log file when there is
  one, if its level is at least the core's. With it \<open>pkg/otelkit\<close>, which puts the trace id of a
  span into a context.
\<close>

section \<open>Levels\<close>

text \<open>\<open>slog\<close> has integers: debug -4, info 0, warn 4, error 8. \<open>zap\<close> has its own type.\<close>

datatype zap_level = Zap_debug | Zap_info | Zap_warn | Zap_error

instantiation zap_level :: linorder
begin

definition zap_rank :: "zap_level \<Rightarrow> int" where
  "zap_rank l = (case l of Zap_debug \<Rightarrow> - 1 | Zap_info \<Rightarrow> 0 | Zap_warn \<Rightarrow> 1 | Zap_error \<Rightarrow> 2)"

definition less_eq_zap_level :: "zap_level \<Rightarrow> zap_level \<Rightarrow> bool" where
  "less_eq_zap_level a b \<longleftrightarrow> zap_rank a \<le> zap_rank b"

definition less_zap_level :: "zap_level \<Rightarrow> zap_level \<Rightarrow> bool" where
  "less_zap_level a b \<longleftrightarrow> zap_rank a < zap_rank b"

instance
proof
  fix a b c :: zap_level
  show "a < b \<longleftrightarrow> a \<le> b \<and> \<not> b \<le> a" by (auto simp: less_eq_zap_level_def less_zap_level_def)
  show "a \<le> a" by (simp add: less_eq_zap_level_def)
  show "a \<le> c" if "a \<le> b" "b \<le> c" using that by (simp add: less_eq_zap_level_def)
  show "a = b" if "a \<le> b" "b \<le> a"
    using that by (cases a; cases b) (simp_all add: less_eq_zap_level_def zap_rank_def)
  show "a \<le> b \<or> b \<le> a" by (auto simp: less_eq_zap_level_def)
qed

end

definition lower_byte :: "char \<Rightarrow> char" where
  "lower_byte c = (let n = (of_char c :: nat) in if 65 \<le> n \<and> n \<le> 90 then char_of (n + 32) else c)"

definition parse_level :: "string \<Rightarrow> int" where
  "parse_level s =
     (let l = map lower_byte s
      in if l = ''debug'' then - 4 else if l = ''info'' then 0 else if l = ''warn'' then 4
         else if l = ''error'' then 8 else 0)"

text \<open>The level of the core for one of the four levels, and of an entry for any record.\<close>

definition core_level :: "int \<Rightarrow> zap_level" where
  "core_level l =
     (if l = - 4 then Zap_debug else if l = 0 then Zap_info else if l = 4 then Zap_warn
      else if l = 8 then Zap_error else Zap_info)"

definition entry_level :: "int \<Rightarrow> zap_level" where
  "entry_level l =
     (if 8 \<le> l then Zap_error else if 4 \<le> l then Zap_warn else if 0 \<le> l then Zap_info else Zap_debug)"

section \<open>Attributes\<close>

datatype slog_value =
    Slog_string string
  | Slog_int64 int
  | Slog_float64 string
  | Slog_bool bool
  | Slog_group "(string \<times> slog_value) list"
  | Slog_nil
  | Slog_other string

datatype zap_field =
    Zap_string string string
  | Zap_int64 string int
  | Zap_float64 string string
  | Zap_bool string bool
  | Zap_any string slog_value
  | Zap_namespace string

definition appendAttr :: "zap_field list \<Rightarrow> string \<times> slog_value \<Rightarrow> zap_field list" where
  "appendAttr acc attr =
     (case attr of (k, v) \<Rightarrow>
        if k = [] \<and> v = Slog_nil then acc
        else (case v of
                Slog_string s \<Rightarrow> acc @ [Zap_string k s]
              | Slog_int64 i \<Rightarrow> acc @ [Zap_int64 k i]
              | Slog_float64 x \<Rightarrow> acc @ [Zap_float64 k x]
              | Slog_bool b \<Rightarrow> acc @ [Zap_bool k b]
              | _ \<Rightarrow> acc @ [Zap_any k v]))"

section \<open>The handler\<close>

record zap_handler =
  zh_level :: int
  zh_core :: zap_level
  zh_file :: "string option"
  zh_fields :: "zap_field list"

definition new_handler :: "(string \<Rightarrow> bool) \<Rightarrow> string \<Rightarrow> string \<Rightarrow> zap_handler" where
  "new_handler mkdir_ok level path =
     (let l = parse_level level
      in \<lparr>zh_level = l, zh_core = core_level l,
          zh_file = (if path \<noteq> [] \<and> mkdir_ok path then Some path else None), zh_fields = []\<rparr>)"

definition handler_enabled :: "zap_handler \<Rightarrow> int \<Rightarrow> bool" where
  "handler_enabled h level \<longleftrightarrow> zh_level h \<le> level"

record slog_record =
  sr_level :: int
  sr_message :: string
  sr_attrs :: "(string \<times> slog_value) list"

text \<open>What a handled record writes: the target, the entry's level, its message and fields.\<close>

type_synonym zap_output = "string option \<times> zap_level \<times> string \<times> zap_field list"

definition handle_record :: "zap_handler \<Rightarrow> string option \<Rightarrow> slog_record \<Rightarrow> zap_output list" where
  "handle_record h trace r =
     (let traceId = (case trace of None \<Rightarrow> ''N/A'' | Some t \<Rightarrow> t);
          acc = foldl appendAttr [Zap_string ''trace_id'' traceId] (sr_attrs r);
          l = entry_level (sr_level r)
      in if zh_core h \<le> l
         then (None, l, sr_message r, zh_fields h @ acc) #
              (case zh_file h of None \<Rightarrow> [] | Some f \<Rightarrow> [(Some f, l, sr_message r, zh_fields h @ acc)])
         else [])"

definition with_attrs :: "zap_handler \<Rightarrow> (string \<times> slog_value) list \<Rightarrow> zap_handler" where
  "with_attrs h attrs = h\<lparr>zh_fields := zh_fields h @ foldl appendAttr [] attrs\<rparr>"

definition with_group :: "zap_handler \<Rightarrow> string \<Rightarrow> zap_handler" where
  "with_group h name = h\<lparr>zh_fields := zh_fields h @ [Zap_namespace name]\<rparr>"

section \<open>Tracing (\<open>pkg/otelkit\<close>)\<close>

text \<open>
  What the start hands to the OpenTelemetry library, when the exporter can be made: a provider
  that batches the spans of the named service and two propagators. The returned function is
  the provider's own shutdown.
\<close>

datatype propagator = Trace_context | Baggage

record tracer_setup =
  tp_service_name :: string
  tp_batched :: bool
  tp_propagators :: "propagator list"

definition initTracer :: "bool \<Rightarrow> string \<Rightarrow> tracer_setup option" where
  "initTracer exporter_ok name =
     (if exporter_ok
      then Some \<lparr>tp_service_name = name, tp_batched = True, tp_propagators = [Trace_context, Baggage]\<rparr>
      else None)"

text \<open>
  A context as the code uses it: the span context in it, whose validity is the library's, and
  the string values bound to string keys.
\<close>

record span_context =
  sc_valid :: bool
  sc_traceID :: "8 word list"

record log_context =
  lx_span :: span_context
  lx_values :: "string \<Rightarrow> string option"

definition traceID_string :: "span_context \<Rightarrow> string" where
  "traceID_string sc = hex_encode (sc_traceID sc)"

definition injectTraceIDToCtx :: "log_context \<Rightarrow> log_context" where
  "injectTraceIDToCtx ctx =
     (if \<not> sc_valid (lx_span ctx) then ctx
      else ctx\<lparr>lx_values := (lx_values ctx)(''trace_id'' \<mapsto> traceID_string (lx_span ctx))\<rparr>)"

definition handle_in :: "zap_handler \<Rightarrow> log_context \<Rightarrow> slog_record \<Rightarrow> zap_output list" where
  "handle_in h ctx r =
     handle_record h (if sc_valid (lx_span ctx) then Some (traceID_string (lx_span ctx)) else None) r"

text \<open>
  The value that \<open>InjectTraceIDToCtx\<close> binds is what the log line has anyway, and the log line
  does not depend on it: the handler reads the span context.
\<close>

lemma injected_value: "sc_valid (lx_span ctx) \<Longrightarrow>
    lx_values (injectTraceIDToCtx ctx) ''trace_id'' = Some (traceID_string (lx_span ctx))"
  by (simp add: injectTraceIDToCtx_def)

lemma handle_ignores_values: "handle_in h (ctx\<lparr>lx_values := vs\<rparr>) r = handle_in h ctx r"
  by (simp add: handle_in_def)

lemma handle_after_inject: "handle_in h (injectTraceIDToCtx ctx) r = handle_in h ctx r"
  by (simp add: injectTraceIDToCtx_def handle_ignores_values)

section \<open>Facts\<close>

lemma parse_level_cases: "parse_level s \<in> {- 4, 0, 4, 8}"
  by (simp add: parse_level_def Let_def)

lemma appendAttr_fields: "\<exists>new. appendAttr fs attr = fs @ new \<and> length new \<le> 1"
  by (cases attr) (auto simp: appendAttr_def split: slog_value.split)

lemma foldl_appendAttr: "foldl appendAttr (xs @ ys) attrs = xs @ foldl appendAttr ys attrs"
proof (induction attrs arbitrary: ys)
  case (Cons a attrs)
  have "appendAttr (xs @ ys) a = xs @ appendAttr ys a"
    by (cases a) (auto simp: appendAttr_def split: slog_value.split)
  then show ?case by (simp add: Cons.IH)
qed simp

text \<open>Attributes bound to the handler come before those of the record, as if the record had them.\<close>

lemma with_attrs_record:
  "handle_record (with_attrs h attrs) trace r \<noteq> [] \<longleftrightarrow> handle_record h trace r \<noteq> []"
  by (simp add: handle_record_def with_attrs_def Let_def)

section \<open>Properties\<close>

text \<open>
  The two level checks of the handler agree: for every level name and every record that is
  at least at debug level, the \<open>zap\<close> core writes the record exactly when the handler says it
  is enabled, also after attributes or a group were added; nothing that is enabled is lost and
  what is written goes to the file too, when there is one.
\<close>

theorem level_checks_agree:
  assumes "- 4 \<le> sr_level r" and "h = new_handler mkdir_ok level path"
    and "h' = h \<or> h' = with_attrs h attrs \<or> h' = with_group h name"
  shows "(handle_record h' trace r \<noteq> [] \<longleftrightarrow> handler_enabled h' (sr_level r)) \<and>
    (handler_enabled h' (sr_level r) \<longrightarrow>
       map fst (handle_record h' trace r) = None # (if path \<noteq> [] \<and> mkdir_ok path then [Some path] else []))"
proof -
  have core: "zh_core h' = core_level (parse_level level)" "zh_level h' = parse_level level"
    "zh_file h' = (if path \<noteq> [] \<and> mkdir_ok path then Some path else None)"
    using assms(2,3) by (auto simp: new_handler_def Let_def with_attrs_def with_group_def)
  have "core_level (parse_level level) \<le> entry_level (sr_level r) \<longleftrightarrow> parse_level level \<le> sr_level r"
    using parse_level_cases[of level] assms(1)
    by (auto simp: core_level_def entry_level_def less_eq_zap_level_def zap_rank_def)
  then show ?thesis
    by (simp add: handle_record_def handler_enabled_def core Let_def)
qed

lemma level_checks_agree_witness:
  "handle_record (with_group (new_handler (\<lambda>p. True) ''WARN'' ''gateway.log'') ''http'') None
     \<lparr>sr_level = 3, sr_message = ''slow'', sr_attrs = []\<rparr> = []"
proof -
  have "parse_level ''WARN'' = 4" by code_simp
  then have "\<not> handler_enabled (with_group (new_handler (\<lambda>p. True) ''WARN'' ''gateway.log'') ''http'') 3"
    by (simp add: handler_enabled_def with_group_def new_handler_def Let_def)
  then show ?thesis
    using level_checks_agree[of "\<lparr>sr_level = 3, sr_message = ''slow'', sr_attrs = []\<rparr>" _ "\<lambda>p. True" "''WARN''" "''gateway.log''",
        OF _ refl, of _ "[]" "''http''" None]
    by auto
qed

end
