(* ===== verification/Spec2Isabelle.thy ===== *)
theory Spec2Isabelle
  imports Deployment Route_Plane Session_Table Config_Fleet Logzap
begin

text \<open>
  A development of the kd48 game backend: the WebSocket gateway, the user service, the lobby
  service, the routing of data sources and the configuration tool, as written in Go under
  \<^verbatim>\<open>src/\<close>.

  \<^bold>\<open>The program and its parts.\<close> Clients talk JSON over WebSockets to the gateway. The gateway
  learns from etcd which service types exist and which method goes to which service
  (\<^verbatim>\<open>gateway/internal/bootstrap\<close>), publishes the routing table as one snapshot, and serves
  frames with it (\<^verbatim>\<open>gateway/internal/ws\<close>): a private method needs a session on the
  connection, and a login establishes one. The user service (\<^verbatim>\<open>services/user\<close>) keeps one session
  per user in Redis and, when a login replaces a session, publishes an invalidation message;
  each gateway subscribes to the channel and kicks the user's connection. The services reach
  MySQL and Redis through \<^verbatim>\<open>pkg/dsroute\<close>, a longest-prefix router over named pools whose rules
  come from etcd. The configuration tool (\<^verbatim>\<open>tools/config-loader\<close>) turns a CSV sheet into a row
  of a revision table, a notification and a Go file; the lobby (\<^verbatim>\<open>services/lobby\<close>) loads the
  newest row of a registered configuration, at start and on each notification.

  \<^bold>\<open>Theories and code.\<close>
    \<^item> \<^verbatim>\<open>Go_Base\<close>, \<^verbatim>\<open>Go_Strings\<close>, \<^verbatim>\<open>Go_Json\<close>, \<^verbatim>\<open>Json_Print\<close>: what the code uses of Go and its
      standard library: results, \<^verbatim>\<open>strings\<close>, \<^verbatim>\<open>strconv\<close>, the JSON reader and printer, maps
      enumerated in some order; the locale \<open>safe_system\<close> (reachable states, one induction).
    \<^item> \<^verbatim>\<open>Dsroute\<close>, \<^verbatim>\<open>Dsroute_Loader\<close>: \<^verbatim>\<open>pkg/dsroute\<close>. Rules, validation, resolution, routers; the
      locale \<open>pool_router\<close> is the contract the services rely on.
    \<^item> \<^verbatim>\<open>Conf\<close>: \<^verbatim>\<open>pkg/conf/conf.go\<close>.
    \<^item> \<^verbatim>\<open>Heartbeat\<close>, \<^verbatim>\<open>Connection_Manager\<close>: \<^verbatim>\<open>heartbeat.go\<close>, \<^verbatim>\<open>connection_manager.go\<close>. The record
      \<open>connection_manager\<close> has the struct's maps as partial functions and its metrics; the
      manager's mutex makes every operation one step.
    \<^item> \<^verbatim>\<open>Ws_Router\<close>, \<^verbatim>\<open>Ws_Handler\<close>, \<^verbatim>\<open>Session_Subscriber\<close>: \<^verbatim>\<open>router.go\<close>, \<^verbatim>\<open>atomic_router.go\<close>,
      \<^verbatim>\<open>wrapper.go\<close>, \<^verbatim>\<open>response_data.go\<close>, \<^verbatim>\<open>handler.go\<close>, \<^verbatim>\<open>session_subscriber.go\<close>. \<open>serve_open\<close>,
      \<open>serve_frame\<close> and \<open>serve_close\<close> are the three phases of \<^verbatim>\<open>ServeWS\<close>; the locale
      \<open>keyed_store\<close> is the interface of the two method tables.
    \<^item> \<^verbatim>\<open>Gateway_Bootstrap\<close>, \<^verbatim>\<open>Gateway_Manager\<close>: \<^verbatim>\<open>build.go\<close>, \<^verbatim>\<open>validate.go\<close>, \<^verbatim>\<open>errors.go\<close>,
      \<^verbatim>\<open>manager.go\<close>. gRPC connections are numbers, so that a theorem can say which are open.
    \<^item> \<^verbatim>\<open>User_Service\<close>: \<^verbatim>\<open>server.go\<close>, \<^verbatim>\<open>ingress.go\<close> and the generated queries' interface.
    \<^item> \<^verbatim>\<open>Lobby_Config\<close>: \<^verbatim>\<open>store.go\<close>, \<^verbatim>\<open>registry.go\<close>, \<^verbatim>\<open>loader.go\<close>, \<^verbatim>\<open>watcher.go\<close>, and the
      lobby's two calls.
    \<^item> \<^verbatim>\<open>Csv_Values\<close>, \<^verbatim>\<open>Csv_Sheet\<close>, \<^verbatim>\<open>Go_Gen\<close>, \<^verbatim>\<open>Config_Tool\<close>: the configuration tool, from the
      cell types to the command's effects.
    \<^item> \<^verbatim>\<open>Json_Marshal\<close>: whole documents as \<^verbatim>\<open>json.Marshal\<close> prints them, and that the reader gives
      them back.
    \<^item> \<^verbatim>\<open>Etcd_Setup\<close>: \<^verbatim>\<open>pkg/registry\<close>, the seeding command
      \<^verbatim>\<open>gateway/cmd/seed-gateway-meta\<close>, and what a bootstrap and a route loader read from a seeded
      cluster.
    \<^item> \<^verbatim>\<open>Service_Start\<close>, \<^verbatim>\<open>Gateway_Start\<close>: the three \<^verbatim>\<open>main.go\<close> of the processes, the HTTP routes and
      \<^verbatim>\<open>pkg/rediskit\<close>: \<open>user_main\<close>, \<open>lobby_main\<close> and \<open>gateway_main\<close> are functions from the answers of
      the outside to the effects in order and the started process, or to the panic or exit that
      ended the start.
    \<^item> \<^verbatim>\<open>Session_Table\<close>: the abstract table of sessions, one row per user, which the user service's
      Redis keys implement.
    \<^item> \<^verbatim>\<open>Config_Reload\<close>: the stored document of a sheet decoded by the row type the tool
      generates, and the way from a sheet to the lobby's store.
    \<^item> \<^verbatim>\<open>Config_Fleet\<close>: several lobbies and several runs of the tool over one revision table
      and one channel, interleaved at each effect (\<open>fleet_step\<close>).
    \<^item> \<^verbatim>\<open>Deployment\<close>: the gateway process as a whole, from the state in which \<open>gateway_main\<close>
      leaves it: the frame loops and the manager of the routes side by side over one router
      (\<open>dp_step\<close>), with the user service behind the routes (\<open>service_call\<close>), and its shutdown.
    \<^item> \<^verbatim>\<open>Route_Plane\<close>: the gateway's manager against etcd's revisions: writes, the two reads of a
      rebuild, the watch and its responses, the debounce timer and the reconnection, interleaved
      (\<open>plane_step\<close>).
    \<^item> \<^verbatim>\<open>Logzap\<close>: \<^verbatim>\<open>pkg/logzap\<close>, its two scales of levels and the fields of an entry, and
      \<^verbatim>\<open>pkg/otelkit\<close>.
    \<^item> This theory: the properties that span components.

  \<^bold>\<open>What the lemmas show.\<close> State invariants by induction over reachable states: the connection
  manager's counters, the gateway's connections and published routes, authorisation of the
  calls a frame makes (observed by a router whose handlers record their calls), one live session per user. Functional behaviour of the operations on every
  branch, with their errors: logins, sweeps, kicks, builds, reloads, configuration loads.
  Equivalence of the one-pass longest-prefix resolution with its specification, round trips
  of what one program prints and another reads, agreement of the generated Go types with the
  values the tool stores. Which reloads of the routing rules a running user service survives.
  Several theorems state what the code does where it departs from
  what its comments or its callers expect; their texts say so. A refinement: the session keys
  in Redis implement a table with one row per user. Liveness of the starts: on a seeded
  cluster with the outside up, the gateway and the user service come up, and a login frame to
  the gateway then ends with a session in Redis. The end of the process: which calls \<open>main\<close>
  makes after the signal, that they close the connections in use, and that a connection still
  open then was one a reload had replaced. Along a clock: a connection a call
  found in the routes stays open for the drain delay, whatever the manager does. Of the
  process as a whole: calls go over open connections only, and no invalidation ever kicks a
  user, because the gateway does not find the user id in a login reply. Convergence: once
  everything is delivered, the gateway's routes are a build of the metadata in etcd, and a
  lobby holds the newest row of every configuration it was notified of and answered for by
  the database; each with the
  gap the code leaves (the service types between the two reads of a build, a publication
  between a lobby's load and its subscription) as a theorem of its own. That the migrated
  table and the tool's own INSERT do not fit is one too.

  \<^bold>\<open>Modelling conventions.\<close> A Go \<^verbatim>\<open>map\<close> is a partial function, and an iteration over one takes
  the order as an argument. Instants and durations are integers in nanoseconds, with
  \<open>time_since\<close> saturating as \<^verbatim>\<open>time.Since\<close> does; ids are words of their width; metrics and
  revisions that are only counted up are integers. Strings are byte strings; the JSON reader
  and the JSON printer replace the bytes of a string that are no UTF-8, as Go does
  (\<open>coerce_utf8\<close>). A panic is a
  value of its own. The JSON reader recurses on fuel, twice the length of its input;
  \<open>json_parse_fuel\<close> shows that more fuel changes nothing. A turn of the read loop is one step:
  it reads the router once, at its beginning, and touches the connection manager only after
  the call has returned; that the routes may change during the call is the subject of
  \<open>calls_outlive_reloads\<close>.

  \<^bold>\<open>What is outside.\<close> etcd, Redis, MySQL, bcrypt, gRPC, protojson, YAML and the file
  system are arguments of the definitions. What a theorem needs of them is a named hypothesis
  stating documented behaviour of the calls that get an answer (\<open>redis_contract\<close>, \<open>db_contract\<close>, \<open>bcrypt_contract\<close>,
  \<open>query_contract\<close>, \<open>etcd_contract\<close>, \<open>protojson_contract\<close>), which the
  witnesses discharge on a concrete store.

  \<^bold>\<open>Not modelled.\<close> \<^verbatim>\<open>pkg/config\<close> (an interface of two getters), the files
  that sqlc and protoc generate (\<^verbatim>\<open>db.go\<close>, \<^verbatim>\<open>querier.go\<close>, \<^verbatim>\<open>api/\<close>), tests, deployment files,
  a gateway listener that fails after the start. Tracing spans, logging calls and failed writes on a socket change no state of the program
  and are left out; so are the races the code excludes by its mutexes, each critical section
  being one step.
\<close>

section \<open>Properties across components\<close>

lemma invalidate_message_obj: "invalidate_message uid = print_obj [(''user_id'', show_nat (unat uid))]"
  by (simp add: invalidate_message_def print_obj_def print_string_def)

text \<open>
  C7. A replaced session is kicked at the gateways: when a login replaces a live session and
  the publish gets through, exactly one message goes to the channel the gateways listen on,
  and a gateway that handles it drops the connection its table has for the user and that
  user's entry, and touches no other connection. A user id of \<open>2 ^ 63\<close> or more is the
  exception: the gateways ignore the message.
\<close>

theorem replaced_session_is_kicked:
  assumes "redis_contract (us_redisOps us) en"
    and "user_login us env req w = (Replied rep, w')"
    and "resolveRedis (us_router us) routingKeySession = Inr (Some h, p)"
    and "live (ce_now env) (en (uw_redis w h) (user_key (lr_userId rep))) = Some old" and "old \<noteq> []"
    and "ce_publish env"
  shows "\<exists>msg. uw_published w' = uw_published w @ [(h, sessionInvalidateChannel, msg)] \<and>
    (if unat (lr_userId rep) < 2 ^ 63
     then handleMessage msg cm = disconnectByUserID (int (unat (lr_userId rep))) kick_reason cm \<and>
          (case getUserClientID cm (int (unat (lr_userId rep))) of
             None \<Rightarrow> handleMessage msg cm = (cm, [])
           | Some cid \<Rightarrow>
               cm_conns (fst (handleMessage msg cm)) = (cm_conns cm) |` (- {cid}) \<and>
               cm_users (fst (handleMessage msg cm)) = (cm_users cm) |` (- {int (unat (lr_userId rep))}))
     else handleMessage msg cm = (cm, []))"
proof -
  let ?n = "unat (lr_userId rep)"
  have pub: "uw_published w' = uw_published w @ [(h, sessionInvalidateChannel, invalidate_message (lr_userId rep))]"
    using login_outcome[OF assms(1-3)] assms(4-6)
    by (simp add: invalidate_channel_def sessionInvalidateChannel_def)
  have "int ?n < 2 ^ 63 \<longleftrightarrow> ?n < 2 ^ 63" by (metis of_nat_less_numeral_power_cancel_iff)
  then have h: "handleMessage (invalidate_message (lr_userId rep)) cm =
      (if ?n < 2 ^ 63 then disconnectByUserID (int ?n) kick_reason cm else (cm, []))"
    by (simp add: handleMessage_def invalidate_message_obj decode_invalidate_nat)
  show ?thesis
    by (rule exI[of _ "invalidate_message (lr_userId rep)"])
       (simp add: pub h kick_exactly_one split: option.split)
qed

lemma replaced_session_is_kicked_witness:
  "\<exists>w' msg. snd (user_login (demo_service 3600) (demo_call 200 [2]) bob
       (snd (user_login (demo_service 3600) (demo_call 100 [1]) bob demo_world))) = w' \<and>
     uw_published w' = uw_published (snd (user_login (demo_service 3600) (demo_call 100 [1]) bob demo_world)) @
       [(0, sessionInvalidateChannel, msg)]"
proof -
  define w1 where "w1 = snd (user_login (demo_service 3600) (demo_call 100 [1]) bob demo_world)"
  have hex: "hex_encode [1] = ''01''" "hex_encode [2] = ''02''" by code_simp+
  have ne: "user_key 7 \<noteq> session_key t" for t by (rule user_key_session_key)
  have rd1: "uw_redis w1 0 =
      [user_key 7 \<mapsto> (''01'', 3700), session_key ''01'' \<mapsto> (session_value 7 ''bob'', 3700)]"
    by (simp add: w1_def login_eval bob_def demo_world_def live_def hex Let_def)
  have db1: "uw_db w1 0 = [\<lparr>ur_id = 7, ur_username = ''bob'', ur_passwordHash = ''$pw''\<rparr>]"
    by (simp add: w1_def login_eval bob_def demo_world_def live_def hex Let_def)
  have old: "live 200 (uw_redis w1 0 (user_key 7)) = Some ''01''"
    using ne by (simp add: rd1 live_def)
  have c: "redis_contract (us_redisOps (demo_service 3600)) (\<lambda>r. r)"
    by (simp add: demo_service_def kv_contract)
  have h: "resolveRedis (us_router (demo_service 3600)) routingKeySession = Inr (Some 0, ''default'')"
    by (simp add: demo_service_def one_pool_resolve)
  have l: "user_login (demo_service 3600) (demo_call 200 [2]) bob w1 =
      (Replied \<lparr>lr_success = True, lr_token = ''02'', lr_userId = 7\<rparr>,
       snd (user_login (demo_service 3600) (demo_call 200 [2]) bob w1))"
    by (simp add: login_eval bob_def db1 old hex Let_def)
  show ?thesis
    using replaced_session_is_kicked[OF c l h, of "''01''" "newConnectionManager sample_config"] old
    unfolding w1_def[symmetric] by (auto simp: demo_call_def)
qed

text \<open>
  C38. If the gateway did find the user id, the kick could hit the wrong connection: the
  invalidation names the user only and is delivered by another goroutine than the reply of
  the login that caused it. When a gateway handles the reply first, the mapping of the user
  is the new connection's by then, so the message disconnects the session that has just been
  established and leaves the connection of the replaced one alone.
\<close>

theorem late_invalidation_kicks_new_session:
  fixes uid :: nat
  assumes "decode_request msg = Some req"
    and "router_get (gw_router gw) (wrq_method req) =
           Some \<lparr>rb_handler = wrapIngress call route, rb_public = True, rb_establishSession = True\<rparr>"
    and "call route (wrq_payload req) w = (w', Inr (print_obj [(''user_id'', show_nat uid)]))"
    and "0 < uid" and "uid < 2 ^ 53" and "gw_connManager gw = Some cm"
    and "getUserClientID cm (int uid) = Some old" and "old \<noteq> cmt_clientID meta"
    and "getConnection cm (cmt_clientID meta) = Some (Some new_conn)"
  shows "\<exists>meta' gw' acts cm'.
    serve_frame env now (Frame 1 msg) meta gw w = (True, meta', gw', w', acts) \<and>
    cmt_isAuthenticated meta' \<and> gw_connManager gw' = Some cm' \<and>
    (case handleMessage (invalidate_message (of_nat uid)) cm' of
       (cm'', kick) \<Rightarrow>
         getConnection cm'' (cmt_clientID meta) = None \<and> Close_conn new_conn \<in> set kick \<and>
         getConnection cm'' old = getConnection cm old)"
proof -
  obtain x where x: "unmarshal_any (print_obj [(''user_id'', show_nat uid)]) = Some (GMap [(''user_id'', GFloat64 x)])"
    using user_id_reply[OF assms(5)] by auto
  have some: "gmap_get [(''user_id'', GFloat64 x)] ''user_id'' \<noteq> None" by (simp add: gmap_get_def)
  have ne: "print_obj [(''user_id'', show_nat uid)] \<noteq> []" by (simp add: print_obj_def)
  obtain meta' gw' acts cm' where t: "serve_frame env now (Frame 1 msg) meta gw w = (True, meta', gw', w', acts)"
    "cmt_isAuthenticated meta'" "gw_connManager gw' = Some cm'" "cm_conns cm' = cm_conns cm"
    "cm_users cm' = (cm_users cm)(int uid \<mapsto> cmt_clientID meta)"
    using login_maps_user[OF assms(1-3) x ne assms(6), of uid env now meta] assms(4,5) some by auto
  have "unat (of_nat uid :: 64 word) = uid" using assms(5) by (simp add: unat_of_nat)
  then have m: "handleMessage (invalidate_message (of_nat uid)) cm' = disconnectByUserID (int uid) kick_reason cm'"
    using assms(5) by (simp add: invalidate_message_obj invalidation_kicks_named_user kick_reason_def)
  have u: "getUserClientID cm' (int uid) = Some (cmt_clientID meta)"
    by (simp add: getUserClientID_def t(5))
  show ?thesis
    using t(1-3) assms(8,9)
    by (intro exI[of _ meta'] exI[of _ gw'] exI[of _ acts] exI[of _ cm'])
       (simp add: m kick_exactly_one u getConnection_def t(4))
qed

definition two_sessions :: connection_manager where
  "two_sessions = registerUserConnection 42 ''conn-2'' (snd (registerConnection 9 ''conn-1'' (Some 3)
     (snd (registerConnection 7 ''conn-2'' (Some 2) (newConnectionManager sample_config)))))"

lemma late_invalidation_kicks_new_session_witness:
  "\<exists>meta' gw' acts cm'. serve_frame demo_codec 6 (demo_frame ''login'') (demo_meta False 0)
      (ingress_gateway\<lparr>gw_connManager := Some two_sessions\<rparr>) 0 = (True, meta', gw', 0, acts) \<and>
    gw_connManager gw' = Some cm' \<and>
    getConnection (fst (handleMessage (invalidate_message 42) cm')) ''conn-1'' = None \<and>
    getConnection (fst (handleMessage (invalidate_message 42) cm')) ''conn-2'' = Some (Some 2)"
proof -
  have id: "cmt_clientID (demo_meta False 0) = ''conn-1''"
  proof -
    have "client_id 1 = ''conn-1''" by code_simp
    then show ?thesis by (simp add: demo_meta_def)
  qed
  have conns: "getUserClientID two_sessions (int 42) = Some ''conn-2''"
    "getConnection two_sessions ''conn-1'' = Some (Some 3)" "getConnection two_sessions ''conn-2'' = Some (Some 2)"
    by (simp_all add: two_sessions_def registerUserConnection_def registerConnection_def newConnectionManager_def
        getUserClientID_def getConnection_def)
  let ?gw = "ingress_gateway\<lparr>gw_connManager := Some two_sessions\<rparr>"
  have r: "router_get (gw_router ?gw) (wrq_method \<lparr>wrq_method = ''login'', wrq_payload = ''{}''\<rparr>) =
      Some \<lparr>rb_handler = wrapIngress demo_ingress ''/user.v1/Login'', rb_public = True, rb_establishSession = True\<rparr>"
    by (simp add: ingress_gateway_def newHandler_def)
  have call: "demo_ingress ''/user.v1/Login'' (wrq_payload \<lparr>wrq_method = ''login'', wrq_payload = ''{}''\<rparr>) 0 =
      (0, Inr (print_obj [(''user_id'', show_nat 42)]))"
    by (simp add: demo_ingress_def)
  have gw: "gw_connManager ?gw = Some two_sessions" by simp
  have other: "''conn-2'' \<noteq> cmt_clientID (demo_meta False 0)" by (simp add: id)
  have here: "getConnection two_sessions (cmt_clientID (demo_meta False 0)) = Some (Some 3)"
    by (simp add: id conns(2))
  obtain meta' gw' acts cm' where t: "serve_frame demo_codec 6 (demo_frame ''login'') (demo_meta False 0) ?gw 0 =
      (True, meta', gw', 0, acts)" "gw_connManager gw' = Some cm'"
    "case handleMessage (invalidate_message (of_nat 42)) cm' of (cm'', kick) \<Rightarrow>
       getConnection cm'' (cmt_clientID (demo_meta False 0)) = None \<and> Close_conn 3 \<in> set kick \<and>
       getConnection cm'' ''conn-2'' = getConnection two_sessions ''conn-2''"
    using late_invalidation_kicks_new_session[OF demo_requests(1) r call _ _ gw conns(1) other here, of demo_codec 6]
    unfolding demo_frame_def by auto
  have "(of_nat 42 :: 64 word) = 42" by simp
  then show ?thesis using t(1,2) t(3)[unfolded id conns(3) case_prod_beta] by auto
qed

text \<open>
  Yet no login over the WebSocket maps its user: protobuf's JSON prints the user id of a
  login reply as a string under \<open>userId\<close>, the gateway looks for a number under \<open>user_id\<close>,
  and so the session is established while the table of users, which the kick reads, is left
  as it was; \<open>invalidations_kick_nobody\<close> has this for the process as a whole.
\<close>

theorem gateway_login_maps_nobody:
  assumes "decode_request msg = Some req"
    and "router_get (gw_router gw) (wrq_method req) =
           Some \<lparr>rb_handler = wrapIngress call route, rb_public = True, rb_establishSession = True\<rparr>"
    and "call route (wrq_payload req) w = (w', Inr json)"
    and "json_parse json = Some (JObj [(''success'', JBool b), (''token'', JStr t), (''userId'', JStr u)])"
    and "gw_connManager gw = Some cm"
  shows "\<exists>meta' gw' acts cm'.
    serve_frame env now (Frame 1 msg) meta gw w = (True, meta', gw', w', acts) \<and>
    cmt_isAuthenticated meta' \<and> cmt_userID meta' = cmt_userID meta \<and>
    gw_connManager gw' = Some cm' \<and> cm_users cm' = cm_users cm"
proof -
  have "json \<noteq> []" using assms(4) by (auto simp: json_parse_def)
  moreover have "unmarshal_any json = Some (GMap [(''success'', GBool b), (''token'', GString t), (''userId'', GString u)])"
    using assms(4) by (simp add: unmarshal_any_def)
  moreover have "gmap_get [(''success'', GBool b), (''token'', GString t), (''userId'', GString u)] ''user_id'' = None"
    by (simp add: gmap_get_def)
  ultimately show ?thesis
    using ingress_login_nobody[OF assms(1-3) _ _ assms(5)] by blast
qed

definition proto_reply :: string where
  "proto_reply = print_obj [(''success'', ''true''), (''token'', print_string ''02''), (''userId'', print_string ''42'')]"

definition proto_gateway :: "(nat, unit) gateway" where
  "proto_gateway = newHandler
     (router_store (Some (newAtomicRoutes (Some
        [''login'' \<mapsto> \<lparr>rb_handler = wrapIngress (\<lambda>route payload w. (w, Inr proto_reply)) ''/user.v1/Login'',
                      rb_public = True, rb_establishSession = True\<rparr>]))) newAtomicRouter)
     (Some (newConnectionManager sample_config))"

lemma gateway_login_maps_nobody_witness:
  "\<exists>meta' gw' acts cm'. serve_frame demo_codec 6 (demo_frame ''login'') (demo_meta False 0) proto_gateway 0 =
      (True, meta', gw', 0, acts) \<and>
    cmt_isAuthenticated meta' \<and> gw_connManager gw' = Some cm' \<and> cm_users cm' = Map.empty"
proof -
  have j: "json_parse proto_reply =
      Some (JObj [(''success'', JBool True), (''token'', JStr ''02''), (''userId'', JStr ''42'')])"
    by code_simp
  have users: "cm_users (newConnectionManager sample_config) = Map.empty"
    by (simp add: newConnectionManager_def)
  have "\<exists>meta' gw' acts cm'.
    serve_frame demo_codec 6 (Frame 1 (print_obj [(''method'', print_string ''login''),
        (''payload'', print_string ''{}'')])) (demo_meta False 0) proto_gateway 0 = (True, meta', gw', 0, acts) \<and>
    cmt_isAuthenticated meta' \<and> cmt_userID meta' = cmt_userID (demo_meta False 0) \<and>
    gw_connManager gw' = Some cm' \<and> cm_users cm' = cm_users (newConnectionManager sample_config)"
    by (rule gateway_login_maps_nobody[OF demo_requests(1), where route = "''/user.v1/Login''"
          and call = "\<lambda>route payload w. (w, Inr proto_reply)" and json = proto_reply, OF _ _ j])
       (simp_all add: proto_gateway_def newHandler_def)
  then show ?thesis unfolding demo_frame_def users by blast
qed

text \<open>
  What the configuration tool publishes is what the lobby's watcher reads: for every
  configuration name, quotes, control characters and HTML characters included, and every
  64-bit revision, the watcher decodes the message to that name and that revision, with the
  bytes of the name that are no UTF-8 replaced by U+FFFD.
\<close>

theorem published_config_reaches_watcher:
  "decode_notify (publish_message name revision) = Some (coerce_utf8 name, sint revision)"
  by (rule decode_published)

end
